(* ===== verification/Gate_Prelude.thy ===== *)
theory Gate_Prelude
  imports Main "HOL-Library.Word" "HOL-Library.Multiset" "HOL-Library.Sublist"
begin

unbundle bit_operations_syntax

text \<open>
  The vocabulary the components share: the machine types of the Go source, results with
  error values and run-time panics, checked indexing and slicing of byte slices, and the
  big-endian readers and writers that the wire formats use.

  A Go \<open>byte\<close> is an \<open>8 word\<close>, a \<open>uint16\<close> a \<open>16 word\<close>. A Go \<open>string\<close> is a sequence of
  bytes, which is exactly a HOL \<open>string\<close> (a \<open>char\<close> has eight bits). A Go \<open>int\<close> that
  holds a length or an index is a \<open>nat\<close>; every such value here is far below \<open>2 ^ 63\<close>.
\<close>

type_synonym u8 = "8 word"
type_synonym u16 = "16 word"
type_synonym u32 = "32 word"
type_synonym u64 = "64 word"

named_theorems res_simps "rules that decide results (errors, panics, values)"
named_theorems wire_simps "rules that read and write big-endian fields"

section \<open>Results: values, errors and panics\<close>

text \<open>
  A Go function that returns \<open>(T, error)\<close> is a sum with the error on the left. A run-time
  panic (an index or a slice out of range) is an error of its own, so that a model can
  never read past the end of a slice unnoticed.
\<close>

datatype 'e fault = Panic | Err 'e

type_synonym ('e, 'a) go = "'e fault + 'a"

definition fail :: "'e \<Rightarrow> ('e, 'a) go" where
  "fail e = Inl (Err e)"

definition ebind :: "'e + 'a \<Rightarrow> ('a \<Rightarrow> 'e + 'b) \<Rightarrow> 'e + 'b" where
  "ebind m f = (case m of Inl e \<Rightarrow> Inl e | Inr x \<Rightarrow> f x)"

lemma ebind_Inl [simp]: "ebind (Inl e) f = Inl e"
  by (simp add: ebind_def)

lemma ebind_Inr [simp]: "ebind (Inr x) f = f x"
  by (simp add: ebind_def)

lemma ebind_fail [simp]: "ebind (fail e) f = fail e"
  by (simp add: fail_def)

lemma ebind_eq_Inr [res_simps]: "ebind m f = Inr y \<longleftrightarrow> (\<exists>x. m = Inr x \<and> f x = Inr y)"
  by (cases m) auto

lemma ebind_eq_Inl [res_simps]:
  "ebind m f = Inl e \<longleftrightarrow> m = Inl e \<or> (\<exists>x. m = Inr x \<and> f x = Inl e)"
  by (cases m) auto

lemma ebind_assoc: "ebind (ebind m f) g = ebind m (\<lambda>x. ebind (f x) g)"
  by (cases m) auto

lemma fail_eq [simp]: "fail e = fail e' \<longleftrightarrow> e = e'"
  by (simp add: fail_def)

lemma fail_neq_Inr [simp]: "fail e \<noteq> Inr x" "Inr x \<noteq> fail e"
  by (simp_all add: fail_def)

lemma fail_neq_Panic [simp]: "fail e \<noteq> Inl Panic" "Inl Panic \<noteq> fail e"
  by (simp_all add: fail_def)

lemma ebind_cong [fundef_cong]:
  "m = m' \<Longrightarrow> (\<And>x. m' = Inr x \<Longrightarrow> f x = f' x) \<Longrightarrow> ebind m f = ebind m' f'"
  by (cases m') auto

text \<open>A result that is no panic; the panic-freedom proofs walk over binds with it.\<close>

definition safe :: "('e, 'a) go \<Rightarrow> bool" where
  "safe m \<longleftrightarrow> m \<noteq> Inl Panic"

lemma safe_Inr [simp, intro]: "safe (Inr x)"
  by (simp add: safe_def)

lemma safe_fail [simp, intro]: "safe (fail e)"
  by (simp add: safe_def)

lemma safe_ebind: "safe m \<Longrightarrow> (\<And>x. m = Inr x \<Longrightarrow> safe (f x)) \<Longrightarrow> safe (ebind m f)"
  by (cases m) (auto simp: safe_def)

section \<open>Checked access to byte slices\<close>

definition byte_at :: "'a list \<Rightarrow> nat \<Rightarrow> ('e, 'a) go" where
  "byte_at xs i = (if i < length xs then Inr (xs ! i) else Inl Panic)"

text \<open>Go's \<open>xs[i:j]\<close>.\<close>

definition slice :: "'a list \<Rightarrow> nat \<Rightarrow> nat \<Rightarrow> ('e, 'a list) go" where
  "slice xs i j = (if i \<le> j \<and> j \<le> length xs then Inr (take (j - i) (drop i xs)) else Inl Panic)"

lemma byte_at_in [simp]: "i < length xs \<Longrightarrow> byte_at xs i = Inr (xs ! i)"
  by (simp add: byte_at_def)

lemma slice_in [simp]:
  "i \<le> j \<Longrightarrow> j \<le> length xs \<Longrightarrow> slice xs i j = Inr (take (j - i) (drop i xs))"
  by (simp add: slice_def)

lemma byte_at_eq_Inr [res_simps]: "byte_at xs i = Inr x \<longleftrightarrow> i < length xs \<and> xs ! i = x"
  by (auto simp: byte_at_def)

lemma safe_byte_at [simp]: "safe (byte_at xs i) \<longleftrightarrow> i < length xs"
  by (simp add: byte_at_def safe_def)

lemma safe_slice [simp]: "safe (slice xs i j) \<longleftrightarrow> i \<le> j \<and> j \<le> length xs"
  by (simp add: slice_def safe_def)

section \<open>Big-endian fields\<close>

text \<open>\<open>int(hi)<<8 | int(lo)\<close>, the form in which the source reads lengths.\<close>

definition be16n :: "u8 \<Rightarrow> u8 \<Rightarrow> nat" where
  "be16n hi lo = (push_bit 8 (unat hi) OR unat lo)"

text \<open>\<open>int(a)<<16 | int(b)<<8 | int(c)\<close>.\<close>

definition be24n :: "u8 \<Rightarrow> u8 \<Rightarrow> u8 \<Rightarrow> nat" where
  "be24n a b c = ((push_bit 16 (unat a) OR push_bit 8 (unat b)) OR unat c)"

text \<open>\<open>uint16(hi)<<8 | uint16(lo)\<close>, the form in which it reads values.\<close>

definition be16 :: "u8 \<Rightarrow> u8 \<Rightarrow> u16" where
  "be16 hi lo = (push_bit 8 (ucast hi) OR ucast lo)"

lemma unat_u8_less [simp]: "unat (b :: u8) < 256"
  using unsigned_less [of b, where ?'a = nat] by simp

lemma unat_u16_less [simp]: "unat (v :: u16) < 65536"
  using unsigned_less [of v, where ?'a = nat] by simp

lemma push_or_add: "m < 2 ^ n \<Longrightarrow> push_bit n k OR m = k * 2 ^ n + (m :: nat)"
proof -
  assume m: "m < 2 ^ n"
  then have "take_bit n m = m" by (simp add: take_bit_nat_eq_self_iff)
  moreover have "push_bit n k AND take_bit n m = 0"
    by (rule bit_eqI) (simp add: bit_simps)
  ultimately have "push_bit n k OR m = push_bit n k + m"
    by (metis disjunctive_add_eq_or)
  then show ?thesis by (simp add: push_bit_eq_mult)
qed

lemma be16n_eq [wire_simps]: "be16n hi lo = unat hi * 256 + unat lo"
  using push_or_add [of "unat lo" 8 "unat hi"] by (simp add: be16n_def)

lemma be24n_eq [wire_simps]: "be24n a b c = unat a * 65536 + unat b * 256 + unat c"
proof -
  have split: "push_bit 16 (unat a) OR push_bit 8 (unat b) = push_bit 8 (push_bit 8 (unat a) OR unat b)"
    by (simp add: push_bit_or)
  have "be24n a b c = (push_bit 8 (unat a) OR unat b) * 2 ^ 8 + unat c"
    unfolding be24n_def split by (rule push_or_add) simp
  then show ?thesis
    using push_or_add [of "unat b" 8 "unat a"] by simp
qed

lemma be16n_less [simp]: "be16n hi lo < 65536"
proof -
  have "unat hi < 256" "unat lo < 256" by simp_all
  then have "unat hi * 256 + unat lo < 65536" by linarith
  then show ?thesis by (simp add: be16n_eq)
qed

lemma be24n_less [simp]: "be24n a b c < 16777216"
proof -
  have "unat a < 256" "unat b < 256" "unat c < 256" by simp_all
  then have "unat a * 65536 + unat b * 256 + unat c < 16777216" by linarith
  then show ?thesis by (simp add: be24n_eq)
qed

lemma unat_ucast_u8_u16 [simp]: "unat (ucast x :: u16) = unat (x :: u8)"
  using less_trans [OF unat_u8_less, of 65536 x]
  by (simp add: unsigned_ucast_eq take_bit_nat_eq_self)

lemma unat_be16 [wire_simps]: "unat (be16 hi lo) = be16n hi lo"
proof -
  have "unat hi < 256" by simp
  then have "take_bit 16 (push_bit 8 (unat hi)) = push_bit 8 (unat hi)"
    by (simp add: take_bit_nat_eq_self push_bit_eq_mult)
  then have "unat (push_bit 8 (ucast hi :: u16)) = push_bit 8 (unat hi)"
    by (simp only: unsigned_push_bit_eq) simp
  then show ?thesis
    by (simp add: be16_def be16n_def unsigned_or_eq)
qed

text \<open>The writers: the two or three bytes of a length, and of a 16-bit value.\<close>

definition put16n :: "nat \<Rightarrow> u8 list" where
  "put16n n = [word_of_nat (n div 256), word_of_nat (n mod 256)]"

definition put24n :: "nat \<Rightarrow> u8 list" where
  "put24n n = [word_of_nat (n div 65536), word_of_nat (n div 256 mod 256), word_of_nat (n mod 256)]"

definition put16 :: "u16 \<Rightarrow> u8 list" where
  "put16 v = put16n (unat v)"

lemma unat_of_nat_u8: "n < 256 \<Longrightarrow> unat (word_of_nat n :: u8) = n"
  by (simp add: unat_of_nat)

text \<open>The byte of a one-byte length.\<close>

definition put8 :: "nat \<Rightarrow> u8" where
  "put8 n = word_of_nat n"

lemma unat_put8 [simp]: "n < 256 \<Longrightarrow> unat (put8 n) = n"
  by (simp add: put8_def unat_of_nat_u8)

lemma length_put16n [simp]: "length (put16n n) = 2"
  by (simp add: put16n_def)

lemma length_put24n [simp]: "length (put24n n) = 3"
  by (simp add: put24n_def)

lemma length_put16 [simp]: "length (put16 v) = 2"
  by (simp add: put16_def)

lemma drop_put16n [simp]: "drop 2 (put16n n @ r) = r"
  by (simp add: put16n_def)

lemma be16n_put [wire_simps]:
  "n < 65536 \<Longrightarrow> be16n (word_of_nat (n div 256)) (word_of_nat (n mod 256)) = n"
  by (simp add: be16n_eq unat_of_nat_u8)

lemma be24n_put [wire_simps]:
  "n < 16777216 \<Longrightarrow> be24n (word_of_nat (n div 65536)) (word_of_nat (n div 256 mod 256)) (word_of_nat (n mod 256)) = n"
proof -
  assume n: "n < 16777216"
  have "n div 65536 = n div 256 div 256" by (simp add: div_mult2_eq [symmetric])
  moreover have "n div 256 div 256 * 256 + n div 256 mod 256 = n div 256"
    and "n div 256 * 256 + n mod 256 = n" by (rule div_mult_mod_eq)+
  ultimately have "n div 65536 * 65536 + n div 256 mod 256 * 256 + n mod 256 = n"
    by linarith
  with n show ?thesis by (simp add: be24n_eq unat_of_nat_u8)
qed

lemma be16_put [wire_simps]:
  "be16 (word_of_nat (unat v div 256)) (word_of_nat (unat v mod 256)) = v"
  by (rule word_unat_eq_iff [THEN iffD2]) (simp add: unat_be16 be16n_put)

end
