(* ===== verification/Relay.thy ===== *)
theory Relay
  imports Gate_Prelude
begin

text \<open>
  The byte pumps: \<open>pump\<close> of \<open>proxyBidirectional\<close> (\<open>proxy.go\<close>) and of \<open>proxySMTPBidirectional\<close>
  (\<open>smtp_proxy.go\<close>), which also shows every chunk to the observer before it is written. A run
  is given by what the source's reads and the destination's writes return; the theorem says
  that a pump delivers a prefix of what it read, and everything when it ends cleanly.
\<close>

section \<open>Reads and writes\<close>

datatype read_end = EOF | ReadError

text \<open>
  One round of the source: whether the deadlines could be set, the bytes \<open>Read\<close> returned and
  the error that came with them, if any.
\<close>

record pump_read =
  read_deadline_ok :: bool
  read_bytes :: "u8 list"
  read_error :: "read_end option"
  write_deadline_ok :: bool

text \<open>What one \<open>Write\<close> returns: a count and whether an error came with it.\<close>

type_synonym write_result = "nat \<times> bool"

datatype pump_end = CleanEOF | PumpFailed | StillRunning

text \<open>
  The inner loop: write the rest of the buffer until nothing is left. The result is what was
  written, whether the loop is through (\<open>Inr True\<close>), still blocked in a write (\<open>Inr False\<close>) or
  failed (an error, or a write of nothing), and the writes not used.
\<close>

fun write_loop :: "u8 list \<Rightarrow> write_result list \<Rightarrow> u8 list \<times> (unit + bool) \<times> write_result list" where
  "write_loop [] ws = ([], Inr True, ws)"
| "write_loop (b # bs) [] = ([], Inr False, [])"
| "write_loop (b # bs) ((m, werr) # ws) =
     (let buf = b # bs; k = min m (length buf); out = take k buf in
      if werr then (out, Inl (), ws)
      else if k = 0 then (out, Inl (), ws)
      else (case write_loop (drop k buf) ws of (out', r, ws') \<Rightarrow> (out @ out', r, ws')))"

text \<open>
  The outer loop of \<open>proxyBidirectional\<close>'s pump. The second component is how it ended.
\<close>

fun pump :: "pump_read list \<Rightarrow> write_result list \<Rightarrow> u8 list \<times> pump_end" where
  "pump [] ws = ([], StillRunning)"
| "pump (r # rs) ws =
     (if \<not> read_deadline_ok r then ([], PumpFailed)
      else if read_bytes r \<noteq> [] \<and> \<not> write_deadline_ok r then ([], PumpFailed)
      else (case write_loop (read_bytes r) ws of
          (out, Inl _, _) \<Rightarrow> (out, PumpFailed)
        | (out, Inr False, _) \<Rightarrow> (out, StillRunning)
        | (out, Inr True, ws) \<Rightarrow>
            (case read_error r of
               Some EOF \<Rightarrow> (out, CleanEOF)
             | Some ReadError \<Rightarrow> (out, PumpFailed)
             | None \<Rightarrow> (case pump rs ws of (out', e) \<Rightarrow> (out @ out', e)))))"

text \<open>
  The SMTP pump ignores deadline errors and calls \<open>observe\<close> on every chunk before writing it;
  the third component lists these chunks.
\<close>

fun smtp_pump :: "pump_read list \<Rightarrow> write_result list \<Rightarrow> u8 list \<times> pump_end \<times> u8 list list" where
  "smtp_pump [] ws = ([], StillRunning, [])"
| "smtp_pump (r # rs) ws =
     (let seen = (if read_bytes r \<noteq> [] then [read_bytes r] else []) in
      case write_loop (read_bytes r) ws of
        (out, Inl _, _) \<Rightarrow> (out, PumpFailed, seen)
      | (out, Inr False, _) \<Rightarrow> (out, StillRunning, seen)
      | (out, Inr True, ws) \<Rightarrow>
          (case read_error r of
             Some EOF \<Rightarrow> (out, CleanEOF, seen)
           | Some ReadError \<Rightarrow> (out, PumpFailed, seen)
           | None \<Rightarrow> (case smtp_pump rs ws of (out', e, seen') \<Rightarrow> (out @ out', e, seen @ seen'))))"

text \<open>
  The end of the two pumps: each that failed closes both connections, so that the other one
  cannot stay blocked; a clean end of file half-closes its destination only.
\<close>

definition closes_both :: "pump_end \<Rightarrow> pump_end \<Rightarrow> bool" where
  "closes_both a b \<longleftrightarrow> a = PumpFailed \<or> b = PumpFailed"

section \<open>Nothing is changed on the way\<close>

lemma write_loop_prefix:
  "write_loop bs ws = (out, r, ws') \<Longrightarrow> (\<exists>rest. bs = out @ rest \<and> (r = Inr True \<longrightarrow> rest = []))"
proof (induction bs ws arbitrary: out r ws' rule: write_loop.induct)
  case (3 b bs m werr ws)
  let ?k = "min m (length (b # bs))"
  show ?case
  proof (cases "werr \<or> ?k = 0")
    case True
    then have "out = take ?k (b # bs)" "r = Inl ()" using "3.prems" by (auto simp: Let_def split: if_splits)
    then show ?thesis by (metis append_take_drop_id sum.distinct(1))
  next
    case False
    then obtain out' ws2 where step: "write_loop (drop ?k (b # bs)) ws = (out', r, ws2)" "out = take ?k (b # bs) @ out'"
      using "3.prems" by (auto simp: Let_def split: prod.splits if_splits)
    have "\<not> werr" "?k \<noteq> 0" using False by auto
    then obtain rest where "drop ?k (b # bs) = out' @ rest" "r = Inr True \<longrightarrow> rest = []"
      using "3.IH" [OF refl refl refl _ _ step(1)] by blast
    then show ?thesis using step(2) by (metis append.assoc append_take_drop_id)
  qed
qed auto

definition all_bytes :: "pump_read list \<Rightarrow> u8 list" where
  "all_bytes rs = concat (map read_bytes rs)"

text \<open>The reads up to and including the first that ends the stream.\<close>

fun until_end :: "pump_read list \<Rightarrow> pump_read list" where
  "until_end [] = []"
| "until_end (r # rs) = (if read_error r = None then r # until_end rs else [r])"

lemma pump_sound:
  "pump rs ws = (out, e) \<Longrightarrow>
   (\<exists>rest. all_bytes (until_end rs) = out @ rest \<and> (e = CleanEOF \<longrightarrow> rest = []))"
proof (induction rs ws arbitrary: out e rule: pump.induct)
  case (2 r rs ws)
  obtain o1 st w1 where w: "write_loop (read_bytes r) ws = (o1, st, w1)" by (metis prod_cases3)
  obtain rest where rest: "read_bytes r = o1 @ rest" "st = Inr True \<longrightarrow> rest = []"
    using write_loop_prefix [OF w] by blast
  have split: "all_bytes (until_end (r # rs)) = read_bytes r @ (if read_error r = None then all_bytes (until_end rs) else [])"
    by (simp add: all_bytes_def)
  show ?case
  proof (cases "read_deadline_ok r \<and> (read_bytes r \<noteq> [] \<longrightarrow> write_deadline_ok r) \<and> st = Inr True \<and> read_error r = None")
    case True
    then obtain o2 where p: "pump rs w1 = (o2, e)" "out = o1 @ o2"
      using "2.prems" w by (auto split: prod.splits)
    have "\<exists>rest. all_bytes (until_end rs) = o2 @ rest \<and> (e = CleanEOF \<longrightarrow> rest = [])"
      using "2.IH" True w p(1) by fastforce
    then show ?thesis using True rest p(2) split by auto
  next
    case False
    then have "(out = [] \<and> e = PumpFailed) \<or> (out = o1 \<and> (e = CleanEOF \<longrightarrow> st = Inr True \<and> read_error r \<noteq> None))"
      using "2.prems" w by (cases st) (auto split: if_splits option.splits read_end.splits bool.splits)
    then show ?thesis using rest split by auto
  qed
qed (simp add: all_bytes_def)

lemma smtp_pump_sound:
  "smtp_pump rs ws = (out, e, seen) \<Longrightarrow>
   (\<exists>rest. concat seen = out @ rest \<and> (e = CleanEOF \<longrightarrow> rest = [])) \<and>
   (\<exists>more. all_bytes (until_end rs) = concat seen @ more \<and> (e = CleanEOF \<longrightarrow> more = []))"
proof (induction rs ws arbitrary: out e seen rule: smtp_pump.induct)
  case (2 r rs ws)
  obtain o1 st w1 where w: "write_loop (read_bytes r) ws = (o1, st, w1)" by (metis prod_cases3)
  obtain rest where rest: "read_bytes r = o1 @ rest" "st = Inr True \<longrightarrow> rest = []"
    using write_loop_prefix [OF w] by blast
  let ?s = "if read_bytes r \<noteq> [] then [read_bytes r] else []"
  have s: "concat ?s = read_bytes r" by simp
  have split: "all_bytes (until_end (r # rs)) = read_bytes r @ (if read_error r = None then all_bytes (until_end rs) else [])"
    by (simp add: all_bytes_def)
  show ?case
  proof (cases "st = Inr True \<and> read_error r = None")
    case True
    then obtain o2 s2 where p: "smtp_pump rs w1 = (o2, e, s2)" "out = o1 @ o2" "seen = ?s @ s2"
      using "2.prems" w by (auto simp: Let_def split: prod.splits)
    have "(\<exists>rest. concat s2 = o2 @ rest \<and> (e = CleanEOF \<longrightarrow> rest = [])) \<and>
        (\<exists>more. all_bytes (until_end rs) = concat s2 @ more \<and> (e = CleanEOF \<longrightarrow> more = []))"
      using "2.IH" True w p(1) by fastforce
    then show ?thesis using True rest p(2,3) split by auto
  next
    case False
    then have "out = o1 \<and> seen = ?s \<and> (e = CleanEOF \<longrightarrow> st = Inr True \<and> read_error r \<noteq> None)"
      using "2.prems" w by (cases st) (auto simp: Let_def split: option.splits read_end.splits bool.splits)
    then show ?thesis using rest split s by auto
  qed
qed (simp add: all_bytes_def)

text \<open>
  C16: the relay does not alter traffic. Whatever the reads and partial writes return, what
  either pump has written is a prefix of the bytes it read up to the end of its source, in
  order, and all of them when it ends cleanly; and the SMTP pump has shown the observer
  every byte it wrote, before writing it.
\<close>

theorem relay_transparent:
  "(\<forall>out e. pump rs ws = (out, e) \<longrightarrow>
      (\<exists>rest. all_bytes (until_end rs) = out @ rest \<and> (e = CleanEOF \<longrightarrow> rest = []))) \<and>
   (\<forall>out e seen. smtp_pump rs ws = (out, e, seen) \<longrightarrow>
      (\<exists>rest. concat seen = out @ rest \<and> (e = CleanEOF \<longrightarrow> rest = [])) \<and>
      (\<exists>more. all_bytes (until_end rs) = concat seen @ more \<and> (e = CleanEOF \<longrightarrow> more = [])))"
  using pump_sound smtp_pump_sound by blast

lemma relay_transparent_witness:
  "smtp_pump [\<lparr>read_deadline_ok = True, read_bytes = [1, 2, 3], read_error = Some EOF, write_deadline_ok = True\<rparr>]
     [(2, False), (5, False)] = ([1, 2, 3], CleanEOF, [[1, 2, 3]]) \<and>
   (\<exists>rest. concat [[1, 2, 3 :: u8]] = [1, 2, 3] @ rest \<and> rest = [])"
proof -
  have run: "smtp_pump [\<lparr>read_deadline_ok = True, read_bytes = [1, 2, 3], read_error = Some EOF, write_deadline_ok = True\<rparr>]
     [(2, False), (5, False)] = ([1, 2, 3], CleanEOF, [[1, 2, 3]])"
    by (simp add: Let_def)
  from relay_transparent [THEN conjunct2, rule_format, OF run] run show ?thesis by simp
qed

end
