(* ===== verification/Metrics.thy ===== *)
theory Metrics
  imports Gate_Prelude "HOL-Library.Multiset"
begin

text \<open>
  The per-route capacity guard and the traffic counters of \<open>metrics.go\<close>: \<open>routeGuard\<close> with
  \<open>acquire\<close> and \<open>release\<close>, the limiter wrapper \<open>observedLimiter\<close>, and the registry of routes.
  First the operations as functions; then, because every connection runs them on its own
  goroutine, the guard as a transition system whose steps are the atomic operations, with
  the theorem that the concurrency limit holds and the counters are right in every reachable state.
\<close>

section \<open>Operations\<close>

text \<open>The counters are \<open>atomic.Uint64\<close>, \<open>active\<close> is an \<open>atomic.Int64\<close>.\<close>

record route_metrics =
  m_active :: int
  m_total :: u64
  m_rateLimited :: u64
  m_overloaded :: u64
  m_backendFailures :: u64
  m_port :: string
  m_maxConcurrent :: int

definition new_route_metrics :: "string \<Rightarrow> int \<Rightarrow> route_metrics" where
  "new_route_metrics port n =
     \<lparr>m_active = 0, m_total = 0, m_rateLimited = 0, m_overloaded = 0, m_backendFailures = 0,
      m_port = port, m_maxConcurrent = n\<rparr>"

text \<open>
  The registry: a second guard for the same listener gets the counters of the first. The
  port is \<open>net.SplitHostPort\<close>'s, an argument here.
\<close>

type_synonym traffic_metrics = "string \<Rightarrow> route_metrics option"

definition metrics_route ::
  "(string \<Rightarrow> string) \<Rightarrow> traffic_metrics \<Rightarrow> string \<Rightarrow> int \<Rightarrow> route_metrics \<times> traffic_metrics" where
  "metrics_route port_of m name maxConcurrent =
     (case m name of
        Some metric \<Rightarrow> (metric, m)
      | None \<Rightarrow> (let metric = new_route_metrics (port_of name) maxConcurrent in (metric, m(name \<mapsto> metric))))"

text \<open>
  The guard: the capacity of its semaphore channel (\<open>None\<close> without a limit), the tokens in
  it, and the counters.
\<close>

record route_guard =
  sem_cap :: "nat option"
  sem_used :: nat
  guard_metric :: route_metrics

definition newRouteGuard ::
  "(string \<Rightarrow> string) \<Rightarrow> traffic_metrics \<Rightarrow> string \<Rightarrow> int \<Rightarrow> route_guard \<times> traffic_metrics" where
  "newRouteGuard port_of m name maxConcurrent =
     (case metrics_route port_of m name maxConcurrent of
        (metric, m) \<Rightarrow>
          (\<lparr>sem_cap = (if maxConcurrent > 0 then Some (nat maxConcurrent) else None), sem_used = 0,
            guard_metric = metric\<rparr>, m))"

text \<open>The non-blocking send of \<open>acquire\<close>'s \<open>select\<close>.\<close>

definition sem_try :: "route_guard \<Rightarrow> route_guard option" where
  "sem_try g =
     (case sem_cap g of
        None \<Rightarrow> Some g
      | Some cap \<Rightarrow> if sem_used g < cap then Some (g\<lparr>sem_used := sem_used g + 1\<rparr>) else None)"

definition acquire :: "route_guard \<Rightarrow> bool \<times> route_guard" where
  "acquire g =
     (case sem_try g of
        None \<Rightarrow> (False, g\<lparr>guard_metric := (guard_metric g)\<lparr>m_overloaded := m_overloaded (guard_metric g) + 1\<rparr>\<rparr>)
      | Some g \<Rightarrow> (True, g\<lparr>guard_metric := (guard_metric g)
          \<lparr>m_total := m_total (guard_metric g) + 1, m_active := m_active (guard_metric g) + 1\<rparr>\<rparr>))"

text \<open>\<open>None\<close>: the receive from an empty channel would block.\<close>

definition release :: "route_guard \<Rightarrow> route_guard option" where
  "release g =
     (let g = g\<lparr>guard_metric := (guard_metric g)\<lparr>m_active := m_active (guard_metric g) - 1\<rparr>\<rparr> in
      case sem_cap g of
        None \<Rightarrow> Some g
      | Some _ \<Rightarrow> if sem_used g = 0 then None else Some (g\<lparr>sem_used := sem_used g - 1\<rparr>))"

text \<open>The limiter wrapper counts refusals; the limiter itself is an argument.\<close>

definition observed_Allow ::
  "('l \<Rightarrow> string \<Rightarrow> bool \<times> 'l) \<Rightarrow> 'l \<times> route_metrics \<Rightarrow> string \<Rightarrow> bool \<times> ('l \<times> route_metrics)" where
  "observed_Allow allow st ip =
     (case st of (l, m) \<Rightarrow>
       (case allow l ip of (allowed, l) \<Rightarrow>
         (allowed, (l, if allowed then m else m\<lparr>m_rateLimited := m_rateLimited m + 1\<rparr>))))"

definition observed_BackendFailure :: "'l \<times> route_metrics \<Rightarrow> 'l \<times> route_metrics" where
  "observed_BackendFailure st = (case st of (l, m) \<Rightarrow> (l, m\<lparr>m_backendFailures := m_backendFailures m + 1\<rparr>))"

section \<open>Connections on their own goroutines\<close>

text \<open>
  Where a connection's goroutine is: before \<open>acquire\<close>; refused, before the overload counter;
  holding a token, before the two counters; between them; in its handler; in \<open>release\<close>, after
  \<open>active\<close> was decremented.
\<close>

datatype conn_pc = Arriving | Refusing | Admitted | Totalled | Serving | Leaving

text \<open>A state: the guard with its counters, and the goroutines.\<close>

record guard_system =
  gs_cap :: "nat option"
  gs_sem :: nat
  gs_active :: int
  gs_total :: u64
  gs_overloaded :: u64
  gs_conns :: "conn_pc multiset"

text \<open>The atomic operations, each a step with its name.\<close>

datatype guard_op = Arrive | Admit | Refuse | CountOverload | CountTotal | CountActive | Leave | Free

inductive guard_step :: "guard_system \<Rightarrow> guard_op \<Rightarrow> guard_system \<Rightarrow> bool" where
  arrive: "guard_step s Arrive (s\<lparr>gs_conns := add_mset Arriving (gs_conns s)\<rparr>)"
| admit: "Arriving \<in># gs_conns s \<Longrightarrow> (\<forall>cap. gs_cap s = Some cap \<longrightarrow> gs_sem s < cap) \<Longrightarrow>
    guard_step s Admit (s\<lparr>gs_conns := add_mset Admitted (gs_conns s - {#Arriving#}),
      gs_sem := (if gs_cap s = None then gs_sem s else gs_sem s + 1)\<rparr>)"
| refuse: "Arriving \<in># gs_conns s \<Longrightarrow> gs_cap s = Some cap \<Longrightarrow> \<not> gs_sem s < cap \<Longrightarrow>
    guard_step s Refuse (s\<lparr>gs_conns := add_mset Refusing (gs_conns s - {#Arriving#})\<rparr>)"
| count_overload: "Refusing \<in># gs_conns s \<Longrightarrow>
    guard_step s CountOverload (s\<lparr>gs_conns := gs_conns s - {#Refusing#}, gs_overloaded := gs_overloaded s + 1\<rparr>)"
| count_total: "Admitted \<in># gs_conns s \<Longrightarrow>
    guard_step s CountTotal (s\<lparr>gs_conns := add_mset Totalled (gs_conns s - {#Admitted#}), gs_total := gs_total s + 1\<rparr>)"
| count_active: "Totalled \<in># gs_conns s \<Longrightarrow>
    guard_step s CountActive (s\<lparr>gs_conns := add_mset Serving (gs_conns s - {#Totalled#}), gs_active := gs_active s + 1\<rparr>)"
| leave: "Serving \<in># gs_conns s \<Longrightarrow>
    guard_step s Leave (s\<lparr>gs_conns := add_mset Leaving (gs_conns s - {#Serving#}), gs_active := gs_active s - 1\<rparr>)"
| free: "Leaving \<in># gs_conns s \<Longrightarrow> (gs_cap s \<noteq> None \<longrightarrow> 0 < gs_sem s) \<Longrightarrow>
    guard_step s Free (s\<lparr>gs_conns := gs_conns s - {#Leaving#},
      gs_sem := (if gs_cap s = None then gs_sem s else gs_sem s - 1)\<rparr>)"

inductive_cases guard_stepE: "guard_step s op t"

text \<open>The states that a history of operations leads to.\<close>

inductive guard_run :: "guard_system \<Rightarrow> guard_op list \<Rightarrow> guard_system \<Rightarrow> bool" where
  start: "guard_run s [] s"
| next_step: "guard_run s ops t \<Longrightarrow> guard_step t op u \<Longrightarrow> guard_run s (ops @ [op]) u"

definition guard_start :: "nat option \<Rightarrow> guard_system" where
  "guard_start cap = \<lparr>gs_cap = cap, gs_sem = 0, gs_active = 0, gs_total = 0, gs_overloaded = 0, gs_conns = {#}\<rparr>"

text \<open>The tokens in use are those of the goroutines between admission and the end of release.\<close>

definition holding :: "conn_pc multiset \<Rightarrow> nat" where
  "holding M = count M Admitted + count M Totalled + count M Serving + count M Leaving"

text \<open>The invariant; what it says of the counters refers to the history.\<close>

definition guard_ok :: "guard_op list \<Rightarrow> guard_system \<Rightarrow> bool" where
  "guard_ok ops s \<longleftrightarrow>
     (\<forall>cap. gs_cap s = Some cap \<longrightarrow> gs_sem s = holding (gs_conns s) \<and> gs_sem s \<le> cap) \<and>
     gs_active s = int (count (gs_conns s) Serving) \<and>
     gs_total s + of_nat (count (gs_conns s) Admitted) = of_nat (count_list ops Admit) \<and>
     gs_overloaded s + of_nat (count (gs_conns s) Refusing) = of_nat (count_list ops Refuse) \<and>
     count_list ops Arrive = count (gs_conns s) Arriving + count_list ops Admit + count_list ops Refuse"

lemma holding_add [simp]:
  "holding {#} = 0"
  "holding (add_mset x M) = (if x \<in> {Arriving, Refusing} then holding M else Suc (holding M))"
  by (cases x; simp add: holding_def)+

lemma guard_ok_step:
  assumes "guard_step s op t" "guard_ok ops s"
  shows "guard_ok (ops @ [op]) t"
proof -
  have moved: "\<exists>N. gs_conns s = add_mset pc N" if "pc \<in># gs_conns s" for pc
    using that by (blast dest: multi_member_split)
  show ?thesis
    using assms
    by (cases rule: guard_step.cases) (auto simp: guard_ok_def dest!: moved)
qed

lemma guard_cap_step: "guard_step s op t \<Longrightarrow> gs_cap t = gs_cap s"
  by (erule guard_stepE) auto

lemma guard_reachable: "guard_run (guard_start cap) ops s \<Longrightarrow> guard_ok ops s \<and> gs_cap s = cap"
proof (induction "guard_start cap" ops s rule: guard_run.induct)
  case start
  then show ?case by (simp add: guard_ok_def guard_start_def)
next
  case (next_step ops t op u)
  then show ?case using guard_ok_step guard_cap_step by metis
qed

text \<open>
  C17: the route's connection limit and its counters under every interleaving. In every state that a
  history of atomic operations leads to, the handlers running on a guarded route are at most the
  configured maximum, the \<open>active\<close> gauge equals their number (never negative), the receive in
  \<open>release\<close> never blocks, and each counter stands, modulo \<open>2 ^ 64\<close>, for its own operations: the total
  for the admissions and the overload counter for the refusals, but for those whose goroutine is just
  about to count; every connection that arrived is waiting, was admitted or was refused.
\<close>

theorem guard_limit:
  assumes "guard_run (guard_start cap) ops s"
  shows "(\<forall>n. cap = Some n \<longrightarrow> count (gs_conns s) Serving \<le> n) \<and>
    gs_active s = int (count (gs_conns s) Serving) \<and>
    (\<forall>n. cap = Some n \<longrightarrow> Leaving \<in># gs_conns s \<longrightarrow> 0 < gs_sem s) \<and>
    gs_total s = of_nat (count_list ops Admit) - of_nat (count (gs_conns s) Admitted) \<and>
    gs_overloaded s = of_nat (count_list ops Refuse) - of_nat (count (gs_conns s) Refusing) \<and>
    count_list ops Arrive = count (gs_conns s) Arriving + count_list ops Admit + count_list ops Refuse"
proof -
  from guard_reachable [OF assms] have ok: "guard_ok ops s" and cap: "gs_cap s = cap" by simp_all
  have "count (gs_conns s) Serving \<le> n \<and> (Leaving \<in># gs_conns s \<longrightarrow> 0 < gs_sem s)" if "cap = Some n" for n
    using ok that cap unfolding guard_ok_def holding_def count_greater_zero_iff [symmetric] by auto
  with ok show ?thesis unfolding guard_ok_def eq_diff_eq by blast
qed

text \<open>Two connections on a route of capacity one: the first is served, the second refused.\<close>

definition full_route :: guard_system where
  "full_route = \<lparr>gs_cap = Some 1, gs_sem = 1, gs_active = 1, gs_total = 1, gs_overloaded = 1, gs_conns = {#Serving#}\<rparr>"

lemma full_route_reached:
  "guard_run (guard_start (Some 1)) [Arrive, Arrive, Admit, Refuse, CountOverload, CountTotal, CountActive] full_route"
proof -
  let ?s = "\<lambda>n t o' M. \<lparr>gs_cap = Some (1 :: nat), gs_sem = n, gs_active = 0, gs_total = t, gs_overloaded = o', gs_conns = M\<rparr>"
  have 0: "guard_run (guard_start (Some 1)) [] (?s 0 0 0 {#})"
    using start [of "guard_start (Some 1)"] by (simp add: guard_start_def)
  have 1: "guard_step (?s 0 0 0 {#}) Arrive (?s 0 0 0 {#Arriving#})" using arrive [of "?s 0 0 0 {#}"] by simp
  have 2: "guard_step (?s 0 0 0 {#Arriving#}) Arrive (?s 0 0 0 {#Arriving, Arriving#})" using arrive [of "?s 0 0 0 {#Arriving#}"] by simp
  have 3: "guard_step (?s 0 0 0 {#Arriving, Arriving#}) Admit (?s 1 0 0 {#Admitted, Arriving#})"
    using admit [of "?s 0 0 0 {#Arriving, Arriving#}"] by simp
  have 4: "guard_step (?s 1 0 0 {#Admitted, Arriving#}) Refuse (?s 1 0 0 {#Refusing, Admitted#})"
    using refuse [of "?s 1 0 0 {#Admitted, Arriving#}" 1] by (simp add: add_mset_commute)
  have 5: "guard_step (?s 1 0 0 {#Refusing, Admitted#}) CountOverload (?s 1 0 1 {#Admitted#})"
    using count_overload [of "?s 1 0 0 {#Refusing, Admitted#}"] by simp
  have 6: "guard_step (?s 1 0 1 {#Admitted#}) CountTotal (?s 1 1 1 {#Totalled#})" using count_total [of "?s 1 0 1 {#Admitted#}"] by simp
  have 7: "guard_step (?s 1 1 1 {#Totalled#}) CountActive full_route"
    using count_active [of "?s 1 1 1 {#Totalled#}"] by (simp add: full_route_def)
  from next_step [OF next_step [OF next_step [OF next_step [OF next_step [OF next_step [OF next_step [OF 0 1] 2] 3] 4] 5] 6] 7]
  show ?thesis by simp
qed

lemma guard_limit_witness:
  "guard_run (guard_start (Some 1)) [Arrive, Arrive, Admit, Refuse, CountOverload, CountTotal, CountActive] full_route \<and>
   gs_conns full_route = {#Serving#} \<and> gs_total full_route = 1 \<and> gs_overloaded full_route = 1 \<and>
   gs_active full_route = int (count (gs_conns full_route) Serving)"
  using full_route_reached guard_limit [OF full_route_reached] by (simp add: full_route_def)

subsection \<open>The operations as functions\<close>

text \<open>The guard of a state, with the other counters as they are.\<close>

definition guard_of :: "route_metrics \<Rightarrow> guard_system \<Rightarrow> route_guard" where
  "guard_of m s =
     \<lparr>sem_cap = gs_cap s, sem_used = gs_sem s,
      guard_metric = m\<lparr>m_active := gs_active s, m_total := gs_total s, m_overloaded := gs_overloaded s\<rparr>\<rparr>"

text \<open>A goroutine that is not interrupted does what the functions say.\<close>

lemma acquire_steps:
  assumes "gs_conns s = add_mset Arriving M"
  shows "\<exists>t. guard_run s (if fst (acquire (guard_of m s)) then [Admit, CountTotal, CountActive] else [Refuse, CountOverload]) t \<and>
    guard_of m t = snd (acquire (guard_of m s)) \<and>
    gs_conns t = (if fst (acquire (guard_of m s)) then add_mset Serving M else M)"
proof (cases "\<forall>cap. gs_cap s = Some cap \<longrightarrow> gs_sem s < cap")
  case True
  let ?n = "if gs_cap s = None then gs_sem s else gs_sem s + 1"
  let ?s1 = "s\<lparr>gs_conns := add_mset Admitted M, gs_sem := ?n\<rparr>"
  let ?s2 = "?s1\<lparr>gs_conns := add_mset Totalled M, gs_total := gs_total s + 1\<rparr>"
  let ?s3 = "?s2\<lparr>gs_conns := add_mset Serving M, gs_active := gs_active s + 1\<rparr>"
  have "guard_step s Admit ?s1" "guard_step ?s1 CountTotal ?s2" "guard_step ?s2 CountActive ?s3"
    using admit [of s] count_total [of ?s1] count_active [of ?s2] assms True by simp_all
  then have "guard_run s [Admit, CountTotal, CountActive] ?s3"
    using next_step [OF next_step [OF next_step [OF start]]] by (metis append_Cons append_Nil)
  moreover have "acquire (guard_of m s) = (True, guard_of m ?s3)"
    using True by (cases "gs_cap s") (simp_all add: acquire_def sem_try_def guard_of_def)
  ultimately show ?thesis by (intro exI [of _ ?s3]) simp
next
  case False
  then obtain cap where cap: "gs_cap s = Some cap" "\<not> gs_sem s < cap" by blast
  let ?s1 = "s\<lparr>gs_conns := add_mset Refusing M\<rparr>"
  let ?s2 = "?s1\<lparr>gs_conns := M, gs_overloaded := gs_overloaded s + 1\<rparr>"
  have "guard_step s Refuse ?s1" "guard_step ?s1 CountOverload ?s2"
    using refuse [of s cap] count_overload [of ?s1] assms cap by simp_all
  then have "guard_run s [Refuse, CountOverload] ?s2"
    using next_step [OF next_step [OF start]] by (metis append_Cons append_Nil)
  moreover have "acquire (guard_of m s) = (False, guard_of m ?s2)"
    using cap by (simp add: acquire_def sem_try_def guard_of_def)
  ultimately show ?thesis by (intro exI [of _ ?s2]) simp
qed

lemma release_steps:
  assumes "gs_conns s = add_mset Serving M" "release (guard_of m s) = Some g"
  shows "\<exists>t. guard_run s [Leave, Free] t \<and> guard_of m t = g \<and> gs_conns t = M"
proof -
  let ?s1 = "s\<lparr>gs_conns := add_mset Leaving M, gs_active := gs_active s - 1\<rparr>"
  let ?s2 = "?s1\<lparr>gs_conns := M, gs_sem := (if gs_cap s = None then gs_sem s else gs_sem s - 1)\<rparr>"
  have "gs_cap s \<noteq> None \<longrightarrow> 0 < gs_sem s" "guard_of m ?s2 = g"
    using assms(2) by (auto simp: release_def guard_of_def Let_def split: option.splits if_splits)
  moreover from this have "guard_step s Leave ?s1" "guard_step ?s1 Free ?s2"
    using leave [of s] free [of ?s1] assms(1) by (cases "gs_cap s"; simp)+
  then have "guard_run s [Leave, Free] ?s2"
    using next_step [OF next_step [OF start]] by (metis append_Cons append_Nil)
  ultimately show ?thesis by (intro exI [of _ ?s2]) simp
qed

lemma acquire_limits:
  assumes "sem_cap g = Some cap" "sem_used g \<le> cap"
  shows "fst (acquire g) \<longleftrightarrow> sem_used g < cap"
    and "sem_used (snd (acquire g)) \<le> cap"
    and "fst (acquire g) \<Longrightarrow> map_option sem_used (release (snd (acquire g))) = Some (sem_used g)"
  using assms by (auto simp: acquire_def sem_try_def release_def Let_def split: if_splits)

end
