(* ===== verification/Go_Strings.thy ===== *)
theory Go_Strings
  imports Gate_Prelude "HOL-Library.Char_ord" "HOL-Library.List_Lexorder"
begin

text \<open>
  The parts of Go's \<open>strings\<close>, \<open>strconv\<close>, \<open>fmt\<close> and \<open>encoding/hex\<close> that the source uses,
  on byte strings: joining and splitting on a one-byte separator, decimal and hexadecimal
  printing, integer parsing, prefixes, suffixes and substrings. The lemmas are the laws the
  components rest on: splitting undoes joining, printing is injective, parsing undoes printing.

  With \<open>Char_ord\<close> and \<open>List_Lexorder\<close> the order on HOL strings is Go's byte-wise order.
\<close>

section \<open>Bytes and strings\<close>

definition char_of_byte :: "u8 \<Rightarrow> char" where
  "char_of_byte b = char_of (unat b)"

definition byte_of_char :: "char \<Rightarrow> u8" where
  "byte_of_char c = word_of_nat (of_char c)"

text \<open>\<open>string(bs)\<close> and \<open>[]byte(s)\<close>.\<close>

definition string_of_bytes :: "u8 list \<Rightarrow> string" where
  "string_of_bytes = map char_of_byte"

definition bytes_of_string :: "string \<Rightarrow> u8 list" where
  "bytes_of_string = map byte_of_char"

lemma of_char_of_nat: "n < 256 \<Longrightarrow> of_char (char_of n :: char) = (n :: nat)"
  by (simp add: of_char_of)

lemma byte_of_char_of_byte [simp]: "byte_of_char (char_of_byte b) = b"
  by (simp add: byte_of_char_def char_of_byte_def of_char_of_nat)

lemma char_of_byte_of_char [simp]: "char_of_byte (byte_of_char c) = c"
  by (simp add: byte_of_char_def char_of_byte_def unat_of_nat_u8)

lemma bytes_of_string_of_bytes [simp]: "bytes_of_string (string_of_bytes bs) = bs"
  by (simp add: bytes_of_string_def string_of_bytes_def comp_def)

lemma string_of_bytes_of_string [simp]: "string_of_bytes (bytes_of_string s) = s"
  by (simp add: bytes_of_string_def string_of_bytes_def comp_def)

lemma string_of_bytes_Nil_iff [simp]: "string_of_bytes bs = [] \<longleftrightarrow> bs = []"
  by (simp add: string_of_bytes_def)

section \<open>Character classes\<close>

definition is_digit :: "char \<Rightarrow> bool" where
  "is_digit c \<longleftrightarrow> CHR ''0'' \<le> c \<and> c \<le> CHR ''9''"

definition is_lower :: "char \<Rightarrow> bool" where
  "is_lower c \<longleftrightarrow> CHR ''a'' \<le> c \<and> c \<le> CHR ''z''"

definition is_upper :: "char \<Rightarrow> bool" where
  "is_upper c \<longleftrightarrow> CHR ''A'' \<le> c \<and> c \<le> CHR ''Z''"

definition is_hex_lower :: "char \<Rightarrow> bool" where
  "is_hex_lower c \<longleftrightarrow> is_digit c \<or> (CHR ''a'' \<le> c \<and> c \<le> CHR ''f'')"

lemmas char_class_defs = is_digit_def is_lower_def is_upper_def is_hex_lower_def

section \<open>Joining and splitting\<close>

text \<open>\<open>strings.Join\<close>.\<close>

fun join :: "string \<Rightarrow> string list \<Rightarrow> string" where
  "join sep [] = []"
| "join sep [x] = x"
| "join sep (x # y # xs) = x @ sep @ join sep (y # xs)"

text \<open>\<open>strings.Split\<close> with a one-byte separator.\<close>

fun split_char :: "char \<Rightarrow> string \<Rightarrow> string list" where
  "split_char c [] = [[]]"
| "split_char c (x # xs) =
     (if x = c then [] # split_char c xs
      else (let r = split_char c xs in (x # hd r) # tl r))"

text \<open>\<open>strings.Cut\<close> with a one-byte separator: what is before it, and what is after it
  if it occurs.\<close>

fun cut_char :: "char \<Rightarrow> string \<Rightarrow> string \<times> string option" where
  "cut_char c [] = ([], None)"
| "cut_char c (x # xs) =
     (if x = c then ([], Some xs) else (case cut_char c xs of (a, b) \<Rightarrow> (x # a, b)))"

lemma split_char_not_Nil [simp]: "split_char c s \<noteq> []"
  by (induction s) (auto simp: Let_def)

lemma split_char_no_sep: "c \<notin> set s \<Longrightarrow> split_char c s = [s]"
  by (induction s) (auto simp: Let_def)

lemma split_char_append: "c \<notin> set s \<Longrightarrow> split_char c (s @ c # t) = s # split_char c t"
  by (induction s) (auto simp: Let_def)

lemma split_char_parts: "p \<in> set (split_char c s) \<Longrightarrow> c \<notin> set p"
proof (induction s arbitrary: p)
  case (Cons x xs)
  obtain q r where qr: "split_char c xs = q # r"
    by (cases "split_char c xs") auto
  with Cons show ?case
    by (auto simp: Let_def split: if_splits)
qed simp

lemma split_char_join:
  "xs \<noteq> [] \<Longrightarrow> \<forall>x \<in> set xs. c \<notin> set x \<Longrightarrow> split_char c (join [c] xs) = xs"
  by (induction "[c]" xs rule: join.induct) (auto simp: split_char_no_sep split_char_append)

lemma join_split_char: "join [c] (split_char c s) = s"
proof (induction s)
  case (Cons x xs)
  obtain q r where qr: "split_char c xs = q # r"
    by (cases "split_char c xs") auto
  with Cons show ?case by (cases r) (auto simp: Let_def)
qed simp

lemma join_inj:
  assumes "join [c] xs = join [c] ys" and "xs \<noteq> []" and "ys \<noteq> []"
    and "\<forall>x \<in> set xs. c \<notin> set x" and "\<forall>y \<in> set ys. c \<notin> set y"
  shows "xs = ys"
  using assms split_char_join by metis

lemma join_eq_Nil_iff: "sep \<noteq> [] \<Longrightarrow> join sep xs = [] \<longleftrightarrow> xs = [] \<or> xs = [[]]"
  by (induction sep xs rule: join.induct) auto

lemma join_parts_inj:
  assumes "\<forall>x \<in> set xs. x \<noteq> [] \<and> c \<notin> set x" and "\<forall>y \<in> set ys. y \<noteq> [] \<and> c \<notin> set y"
  shows "join [c] xs = join [c] ys \<longleftrightarrow> xs = ys"
proof -
  have empty: "join [c] zs = [] \<longleftrightarrow> zs = []" if "\<forall>z \<in> set zs. z \<noteq> [] \<and> c \<notin> set z" for zs
    using that by (cases zs rule: remdups_adj.cases) auto
  show ?thesis
  proof (cases "xs = [] \<or> ys = []")
    case True
    with empty [OF assms(1)] empty [OF assms(2)] show ?thesis by auto
  next
    case False
    with assms join_inj [of c xs ys] show ?thesis by blast
  qed
qed

lemma set_join: "set (join sep xs) \<subseteq> set sep \<union> \<Union> (set ` set xs)"
  by (induction sep xs rule: join.induct) auto

lemma append_sep_inj: "c \<notin> set a \<Longrightarrow> c \<notin> set b \<Longrightarrow> a @ c # x = b @ c # y \<longleftrightarrow> a = b \<and> x = y"
proof (induction a arbitrary: b)
  case Nil
  then show ?case by (cases b) auto
next
  case (Cons d a)
  then show ?case by (cases b) auto
qed

lemma join_append_single: "xs \<noteq> [] \<Longrightarrow> join sep (xs @ [y]) = join sep xs @ sep @ y"
  by (induction sep xs rule: join.induct) auto

lemma cut_char_append: "c \<notin> set a \<Longrightarrow> cut_char c (a @ c # b) = (a, Some b)"
  by (induction a) auto

lemma cut_char_none: "c \<notin> set a \<Longrightarrow> cut_char c a = (a, None)"
  by (induction a) auto

lemma cut_char_Some: "cut_char c s = (a, Some b) \<Longrightarrow> s = a @ c # b \<and> c \<notin> set a"
  by (induction s arbitrary: a) (auto split: if_splits prod.splits)

text \<open>\<open>fmt.Sprintf("%t", b)\<close> and \<open>strconv.FormatBool\<close>.\<close>

definition show_bool :: "bool \<Rightarrow> string" where
  "show_bool b = (if b then ''true'' else ''false'')"

lemma show_bool_inj [simp]: "show_bool a = show_bool b \<longleftrightarrow> a = b"
  by (simp add: show_bool_def)

section \<open>Decimal numbers\<close>

definition digit :: "nat \<Rightarrow> char" where
  "digit n = char_of (48 + n)"

text \<open>\<open>strconv.Itoa\<close> of a non-negative number; \<open>itoa_int\<close> of any number.\<close>

fun itoa :: "nat \<Rightarrow> string" where
  "itoa n = (if n < 10 then [digit n] else itoa (n div 10) @ [digit (n mod 10)])"

declare itoa.simps [simp del]

definition itoa_int :: "int \<Rightarrow> string" where
  "itoa_int i = (if i < 0 then CHR ''-'' # itoa (nat (- i)) else itoa (nat i))"

definition dec_value :: "string \<Rightarrow> nat" where
  "dec_value = foldl (\<lambda>a c. a * 10 + (of_char c - 48)) 0"

lemma dec_value_snoc: "dec_value (s @ [c]) = dec_value s * 10 + (of_char c - 48)"
  by (simp add: dec_value_def)

lemma of_char_digit: "n < 10 \<Longrightarrow> (of_char (digit n) :: nat) = 48 + n"
  by (simp add: digit_def of_char_of_nat)

lemma digit_0: "digit 0 = CHR ''0''"
  by code_simp

lemma is_digit_iff: "is_digit c \<longleftrightarrow> 48 \<le> (of_char c :: nat) \<and> (of_char c :: nat) \<le> 57"
  by (simp add: is_digit_def less_eq_char_def)

lemma is_lower_iff: "is_lower c \<longleftrightarrow> 97 \<le> (of_char c :: nat) \<and> (of_char c :: nat) \<le> 122"
  by (simp add: is_lower_def less_eq_char_def)

lemma is_upper_iff: "is_upper c \<longleftrightarrow> 65 \<le> (of_char c :: nat) \<and> (of_char c :: nat) \<le> 90"
  by (simp add: is_upper_def less_eq_char_def)

lemma is_digit_digit [simp]: "n < 10 \<Longrightarrow> is_digit (digit n)"
  by (simp add: is_digit_iff of_char_digit)

lemma dec_value_itoa [simp]: "dec_value (itoa n) = n"
proof (induction n rule: itoa.induct)
  case (1 n)
  show ?case
  proof (cases "n < 10")
    case True
    then show ?thesis
      by (subst itoa.simps) (simp add: dec_value_def of_char_digit)
  next
    case False
    then have "dec_value (itoa n) = dec_value (itoa (n div 10)) * 10 + n mod 10"
      by (subst itoa.simps) (simp add: dec_value_snoc of_char_digit)
    with 1 False show ?thesis by simp
  qed
qed

lemma itoa_inj [simp]: "itoa m = itoa n \<longleftrightarrow> m = n"
  by (metis dec_value_itoa)

lemma itoa_digits: "list_all is_digit (itoa n)"
proof (induction n rule: itoa.induct)
  case (1 n)
  then show ?case
    by (subst itoa.simps) (auto simp: less_imp_le)
qed

lemma itoa_not_Nil [simp]: "itoa n \<noteq> []"
  by (subst itoa.simps) simp

lemma set_itoa: "c \<in> set (itoa n) \<Longrightarrow> is_digit c"
  using itoa_digits [of n] by (auto simp: list_all_iff)

lemma not_digit_itoa [simp]: "\<not> is_digit c \<Longrightarrow> c \<notin> set (itoa n)"
  using set_itoa by blast

text \<open>
  \<open>strconv.ParseInt(s, 10, bits)\<close> (\<open>strconv.Atoi\<close> is the case of 64 bits): an optional sign,
  at least one digit, nothing else, and a value that fits. \<open>strconv.ParseUint\<close> takes no sign.
\<close>

definition digits_value :: "string \<Rightarrow> nat option" where
  "digits_value t = (if t \<noteq> [] \<and> list_all is_digit t then Some (dec_value t) else None)"

definition parse_int :: "nat \<Rightarrow> string \<Rightarrow> int option" where
  "parse_int bits s =
     (let neg = (s \<noteq> [] \<and> hd s = CHR ''-'');
          t = (if s \<noteq> [] \<and> (hd s = CHR ''-'' \<or> hd s = CHR ''+'') then tl s else s)
      in case digits_value t of
           None \<Rightarrow> None
         | Some v \<Rightarrow>
             (let n = (if neg then - int v else int v)
              in if - (2 ^ (bits - 1)) \<le> n \<and> n < 2 ^ (bits - 1) then Some n else None))"

definition parse_uint :: "nat \<Rightarrow> string \<Rightarrow> nat option" where
  "parse_uint bits s =
     (case digits_value s of
        None \<Rightarrow> None
      | Some v \<Rightarrow> if v < 2 ^ bits then Some v else None)"

lemma digits_value_itoa [simp]: "digits_value (itoa n) = Some n"
  by (simp add: digits_value_def itoa_digits)

lemma parse_uint_itoa [simp]: "parse_uint bits (itoa n) = (if n < 2 ^ bits then Some n else None)"
  by (simp add: parse_uint_def)

lemma hd_itoa_digit: "is_digit (hd (itoa n))"
  by (rule set_itoa [of _ n]) simp

lemma parse_int_itoa: "n < 2 ^ (bits - 1) \<Longrightarrow> parse_int bits (itoa n) = Some (int n)"
proof -
  assume n: "n < 2 ^ (bits - 1)"
  have "hd (itoa n) \<noteq> CHR ''-''" "hd (itoa n) \<noteq> CHR ''+''"
    using hd_itoa_digit [of n] by (auto simp: is_digit_iff)
  moreover have "int n < 2 ^ (bits - 1)"
    using n by (metis of_nat_less_iff of_nat_numeral of_nat_power)
  moreover have "- (2 ^ (bits - 1)) \<le> int n"
    by (rule order_trans [of _ 0]) simp_all
  ultimately show ?thesis by (simp add: parse_int_def Let_def)
qed

text \<open>\<open>fmt.Sprintf("%02d", n)\<close>.\<close>

definition pad2 :: "nat \<Rightarrow> string" where
  "pad2 n = (if n < 10 then CHR ''0'' # itoa n else itoa n)"

lemma pad2_eq: "n < 100 \<Longrightarrow> pad2 n = [digit (n div 10), digit (n mod 10)]"
proof (cases "n < 10")
  case True
  then show ?thesis by (simp add: pad2_def itoa.simps [of n] digit_0)
next
  case False
  assume "n < 100"
  then have "n div 10 < 10" by simp
  with False show ?thesis by (simp add: pad2_def itoa.simps [of n] itoa.simps [of "n div 10"])
qed

section \<open>Hexadecimal\<close>

definition hex_digit :: "nat \<Rightarrow> char" where
  "hex_digit n = (if n < 10 then char_of (48 + n) else char_of (87 + n))"

text \<open>\<open>hex.EncodeToString\<close> and \<open>fmt.Sprintf("%04x", v)\<close>.\<close>

definition hex_encode :: "u8 list \<Rightarrow> string" where
  "hex_encode bs = concat (map (\<lambda>b. [hex_digit (unat b div 16), hex_digit (unat b mod 16)]) bs)"

definition hex4 :: "u16 \<Rightarrow> string" where
  "hex4 v = (let n = unat v in
     [hex_digit (n div 4096), hex_digit (n div 256 mod 16), hex_digit (n div 16 mod 16), hex_digit (n mod 16)])"

lemma is_hex_lower_iff:
  "is_hex_lower c \<longleftrightarrow> is_digit c \<or> (97 \<le> (of_char c :: nat) \<and> (of_char c :: nat) \<le> 102)"
  by (simp add: is_hex_lower_def less_eq_char_def)

lemma of_char_hex_digit:
  "n < 16 \<Longrightarrow> (of_char (hex_digit n) :: nat) = (if n < 10 then 48 + n else 87 + n)"
  by (simp add: hex_digit_def of_char_of_nat)

lemma is_hex_lower_hex_digit [simp]: "n < 16 \<Longrightarrow> is_hex_lower (hex_digit n)"
  by (simp add: is_hex_lower_iff is_digit_iff of_char_hex_digit)

lemma hex_digit_inj: "m < 16 \<Longrightarrow> n < 16 \<Longrightarrow> hex_digit m = hex_digit n \<longleftrightarrow> m = n"
proof -
  assume mn: "m < 16" "n < 16"
  have "m = n" if eq: "hex_digit m = hex_digit n"
  proof -
    have "(if m < 10 then 48 + m else 87 + m) = (if n < 10 then 48 + n else 87 + n)"
      using of_char_hex_digit [OF mn(1)] of_char_hex_digit [OF mn(2)] eq by metis
    then show ?thesis using mn by (simp split: if_splits)
  qed
  then show ?thesis by blast
qed

lemma unat_u8_div16 [simp]: "unat (b :: u8) div 16 < 16"
  using unat_u8_less [of b] by linarith

lemma length_hex_encode [simp]: "length (hex_encode bs) = 2 * length bs"
  by (induction bs) (auto simp: hex_encode_def)

lemma hex_encode_lower: "list_all is_hex_lower (hex_encode bs)"
  by (induction bs) (auto simp: hex_encode_def)

lemma length_hex4 [simp]: "length (hex4 v) = 4"
  by (simp add: hex4_def Let_def)

lemma hex4_lower: "list_all is_hex_lower (hex4 v)"
proof -
  have "unat v div 4096 < 16" using unat_u16_less [of v] by linarith
  then show ?thesis by (simp add: hex4_def Let_def)
qed

lemma hex4_inj [simp]: "hex4 v = hex4 w \<longleftrightarrow> v = w"
proof
  assume eq: "hex4 v = hex4 w"
  have small: "unat v div 4096 < 16" "unat w div 4096 < 16"
    using unat_u16_less [of v] unat_u16_less [of w] by linarith+
  with eq have d: "unat v div 4096 = unat w div 4096"
    "unat v div 256 mod 16 = unat w div 256 mod 16"
    "unat v div 16 mod 16 = unat w div 16 mod 16" "unat v mod 16 = unat w mod 16"
    by (simp_all add: hex4_def Let_def hex_digit_inj)
  have "n = ((n div 4096 * 16 + n div 256 mod 16) * 16 + n div 16 mod 16) * 16 + n mod 16" for n :: nat
  proof -
    have "n div 4096 = n div 256 div 16" "n div 256 = n div 16 div 16"
      by (simp_all add: div_mult2_eq [symmetric])
    then show ?thesis by simp
  qed
  with d have "unat v = unat w" by metis
  then show "v = w" by (simp add: word_unat_eq_iff)
qed simp

section \<open>Prefixes, suffixes, substrings\<close>

text \<open>\<open>strings.HasPrefix\<close>, \<open>strings.HasSuffix\<close> and \<open>strings.Contains\<close>.\<close>

definition has_prefix :: "string \<Rightarrow> string \<Rightarrow> bool" where
  "has_prefix s p \<longleftrightarrow> take (length p) s = p"

definition has_suffix :: "string \<Rightarrow> string \<Rightarrow> bool" where
  "has_suffix s p \<longleftrightarrow> length p \<le> length s \<and> drop (length s - length p) s = p"

fun contains_str :: "string \<Rightarrow> string \<Rightarrow> bool" where
  "contains_str [] p \<longleftrightarrow> p = []"
| "contains_str (x # xs) p \<longleftrightarrow> has_prefix (x # xs) p \<or> contains_str xs p"

text \<open>\<open>strings.TrimRight(s, cutset)\<close> for a cutset of ASCII bytes.\<close>

definition trim_right :: "(char \<Rightarrow> bool) \<Rightarrow> string \<Rightarrow> string" where
  "trim_right p s = rev (dropWhile p (rev s))"

lemma has_prefix_iff: "has_prefix s p \<longleftrightarrow> prefix p s"
  unfolding has_prefix_def by (metis append_eq_conv_conj append_take_drop_id prefix_def)

lemma has_suffix_iff: "has_suffix s p \<longleftrightarrow> suffix p s"
proof
  assume "has_suffix s p"
  then show "suffix p s"
    unfolding has_suffix_def by (metis suffix_drop)
next
  assume "suffix p s"
  then show "has_suffix s p"
    by (auto simp: has_suffix_def suffix_def)
qed

lemma contains_str_iff: "contains_str s p \<longleftrightarrow> sublist p s"
  by (induction s) (auto simp: has_prefix_iff sublist_Cons_right)

end
