(* ===== verification/Utf8.thy ===== *)
theory Utf8
  imports Go_Strings
begin

text \<open>
  Go strings as text: UTF-8 decoding with Go's replacement of invalid bytes, \<open>strings.Map\<close>,
  \<open>strings.TrimSpace\<close>, \<open>strings.Fields\<close> and the part of \<open>strings.ToUpper\<close> that can produce
  ASCII. A rune is a number; decoding works on byte codes below 256.
\<close>

section \<open>Encoding and decoding\<close>

type_synonym rune = nat

definition RuneError :: rune where
  "RuneError = 0xFFFD"

text \<open>A Unicode scalar value: in range and not a surrogate.\<close>

definition scalar :: "rune \<Rightarrow> bool" where
  "scalar r \<longleftrightarrow> r < 0xD800 \<or> (0xE000 \<le> r \<and> r < 0x110000)"

definition encode_rune :: "rune \<Rightarrow> nat list" where
  "encode_rune r =
     (if r < 0x80 then [r]
      else if r < 0x800 then [0xC0 + r div 64, 0x80 + r mod 64]
      else if \<not> scalar r then [0xEF, 0xBF, 0xBD]
      else if r < 0x10000 then [0xE0 + r div 4096, 0x80 + r div 64 mod 64, 0x80 + r mod 64]
      else [0xF0 + r div 262144, 0x80 + r div 4096 mod 64, 0x80 + r div 64 mod 64, 0x80 + r mod 64])"

definition cont :: "nat \<Rightarrow> bool" where
  "cont b \<longleftrightarrow> 0x80 \<le> b \<and> b < 0xC0"

text \<open>
  \<open>utf8.DecodeRune\<close>: the rune at the front and its width; an invalid first byte, a wrong or a
  missing continuation byte give \<open>RuneError\<close> with width 1. The bounds on the second byte
  exclude overlong forms, surrogates and values above \<open>0x10FFFF\<close>.
\<close>

fun decode_rune :: "nat list \<Rightarrow> rune \<times> nat" where
  "decode_rune [] = (RuneError, 0)"
| "decode_rune (a # s) =
     (if a < 0x80 then (a, 1)
      else if 0xC2 \<le> a \<and> a < 0xE0 then
        (case s of b # _ \<Rightarrow> if cont b then ((a - 0xC0) * 64 + (b - 0x80), 2) else (RuneError, 1)
         | _ \<Rightarrow> (RuneError, 1))
      else if 0xE0 \<le> a \<and> a < 0xF0 then
        (case s of b # c # _ \<Rightarrow>
           if cont b \<and> cont c \<and> (a = 0xE0 \<longrightarrow> 0xA0 \<le> b) \<and> (a = 0xED \<longrightarrow> b < 0xA0)
           then ((a - 0xE0) * 4096 + (b - 0x80) * 64 + (c - 0x80), 3) else (RuneError, 1)
         | _ \<Rightarrow> (RuneError, 1))
      else if 0xF0 \<le> a \<and> a < 0xF5 then
        (case s of b # c # d # _ \<Rightarrow>
           if cont b \<and> cont c \<and> cont d \<and> (a = 0xF0 \<longrightarrow> 0x90 \<le> b) \<and> (a = 0xF4 \<longrightarrow> b < 0x90)
           then ((a - 0xF0) * 262144 + (b - 0x80) * 4096 + (c - 0x80) * 64 + (d - 0x80), 4)
           else (RuneError, 1)
         | _ \<Rightarrow> (RuneError, 1))
      else (RuneError, 1))"

lemma decode_width: "s \<noteq> [] \<Longrightarrow> 0 < snd (decode_rune s) \<and> snd (decode_rune s) \<le> length s"
  by (cases s) (auto split: list.splits)

text \<open>The runes of a text, as \<open>for _, c := range s\<close> visits them.\<close>

function code_runes :: "nat list \<Rightarrow> rune list" where
  "code_runes s = (if s = [] then [] else fst (decode_rune s) # code_runes (drop (snd (decode_rune s)) s))"
  by pat_completeness auto
termination
  by (relation "measure length") (auto simp: decode_width)

declare code_runes.simps [simp del]

lemma code_runes_Nil [simp]: "code_runes [] = []"
  by (simp add: code_runes.simps)

definition codes :: "string \<Rightarrow> nat list" where
  "codes s = map of_char s"

definition string_of_codes :: "nat list \<Rightarrow> string" where
  "string_of_codes cs = map char_of cs"

definition runes :: "string \<Rightarrow> rune list" where
  "runes s = code_runes (codes s)"

definition string_of_runes :: "rune list \<Rightarrow> string" where
  "string_of_runes rs = string_of_codes (concat (map encode_rune rs))"

text \<open>\<open>strings.Map\<close>; \<open>None\<close> is the negative result that drops the rune.\<close>

definition map_runes :: "(rune \<Rightarrow> rune option) \<Rightarrow> string \<Rightarrow> string" where
  "map_runes f s = string_of_runes (List.map_filter f (runes s))"

subsection \<open>Round trips\<close>

lemma encode_rune_bytes: "b \<in> set (encode_rune r) \<Longrightarrow> b < 256"
  by (auto simp: encode_rune_def scalar_def split: if_splits)

lemma encode_rune_not_Nil [simp]: "encode_rune r \<noteq> []"
  by (simp add: encode_rune_def)

lemma div_mod_64: "(r div 64) * 64 + r mod 64 = (r :: nat)"
  by (rule div_mult_mod_eq)

lemma three_parts:
  fixes r :: nat
  shows "r div 4096 * 4096 + r div 64 mod 64 * 64 + r mod 64 = r"
proof -
  have "r div 4096 = r div 64 div 64" by (simp add: div_mult2_eq [symmetric])
  then show ?thesis using div_mult_mod_eq [of "r div 64" 64] div_mult_mod_eq [of r 64] by linarith
qed

lemma four_parts:
  fixes r :: nat
  shows "r div 262144 * 262144 + r div 4096 mod 64 * 4096 + r div 64 mod 64 * 64 + r mod 64 = r"
proof -
  have "r div 262144 = r div 4096 div 64" by (simp add: div_mult2_eq [symmetric])
  then show ?thesis using div_mult_mod_eq [of "r div 4096" 64] three_parts [of r] by linarith
qed

lemma decode_encode:
  assumes "scalar r"
  shows "decode_rune (encode_rune r @ s) = (r, length (encode_rune r))"
proof -
  have m: "r mod 64 < 64" "r div 64 mod 64 < 64" "r div 4096 mod 64 < 64" by simp_all
  consider "r < 0x80" | "0x80 \<le> r" "r < 0x800" | "0x800 \<le> r" "r < 0x10000" | "0x10000 \<le> r"
    by linarith
  then show ?thesis
  proof cases
    case 2
    then have "2 \<le> r div 64" "r div 64 < 32" by auto
    with 2 m show ?thesis by (simp add: encode_rune_def cont_def)
  next
    case 3
    then have hi: "r div 4096 < 16" by auto
    have "r div 4096 = 0 \<Longrightarrow> 32 \<le> r div 64 mod 64"
      using 3 three_parts [of r] m by linarith
    moreover have "r div 4096 = 13 \<Longrightarrow> r div 64 mod 64 < 32"
      using 3 assms three_parts [of r] m by (simp add: scalar_def)
    ultimately show ?thesis
      using 3 assms m hi three_parts [of r] by (auto simp: encode_rune_def cont_def)
  next
    case 4
    then have r: "r < 0x110000" using assms by (simp add: scalar_def)
    then have hi: "r div 262144 < 5" by auto
    have "r div 262144 = 0 \<Longrightarrow> 16 \<le> r div 4096 mod 64"
      using 4 four_parts [of r] m by linarith
    moreover have "r div 262144 = 4 \<Longrightarrow> r div 4096 mod 64 < 16"
      using r four_parts [of r] m by linarith
    ultimately show ?thesis
      using 4 assms m hi four_parts [of r] by (auto simp: encode_rune_def cont_def)
  qed (simp add: encode_rune_def)
qed

lemma scalar_RuneError [simp]: "scalar RuneError"
  by (simp add: scalar_def RuneError_def)

lemma scalar_2: "a < 0xE0 \<Longrightarrow> cont b \<Longrightarrow> scalar ((a - 0xC0) * 64 + (b - 0x80))"
proof -
  assume "a < 0xE0" "cont b"
  then have "a - 0xC0 < 32" "b - 0x80 < 64" by (auto simp: cont_def)
  then show ?thesis unfolding scalar_def by linarith
qed

lemma scalar_3:
  assumes "0xE0 \<le> a" "a < 0xF0" "cont b" "cont c" "a = 0xED \<longrightarrow> b < 0xA0"
  shows "scalar ((a - 0xE0) * 4096 + (b - 0x80) * 64 + (c - 0x80))"
proof -
  define x y z where d: "x = a - 0xE0" "y = b - 0x80" "z = c - 0x80"
  have "x < 16" "y < 64" "z < 64" "x = 13 \<longrightarrow> y < 32"
    using assms by (auto simp: d cont_def)
  then consider "x \<le> 12" "y < 64" "z < 64" | "x = 13" "y < 32" "z < 64" | "14 \<le> x" "x < 16"  "y < 64" "z < 64"
    by linarith
  then have "scalar (x * 4096 + y * 64 + z)"
    unfolding scalar_def by cases linarith+
  then show ?thesis by (simp add: d)
qed

lemma scalar_4:
  assumes "0xF0 \<le> a" "a < 0xF5" "cont b" "cont c" "cont d" "a = 0xF0 \<longrightarrow> 0x90 \<le> b" "a = 0xF4 \<longrightarrow> b < 0x90"
  shows "scalar ((a - 0xF0) * 262144 + (b - 0x80) * 4096 + (c - 0x80) * 64 + (d - 0x80))"
proof -
  define x y z w where d: "x = a - 0xF0" "y = b - 0x80" "z = c - 0x80" "w = d - 0x80"
  have b: "x < 5" "y < 64" "z < 64" "w < 64" "x = 0 \<longrightarrow> 16 \<le> y" "x = 4 \<longrightarrow> y < 16"
    using assms by (auto simp: d cont_def)
  then have "0xE000 \<le> x * 262144 + y * 4096 + z * 64 + w"
    by (cases "x = 0") linarith+
  moreover have "x * 262144 + y * 4096 + z * 64 + w < 0x110000"
  proof (cases "x = 4")
    case False
    with b show ?thesis by linarith
  qed (use b in linarith)
  ultimately show ?thesis by (simp add: d scalar_def)
qed

lemma decode_scalar: "scalar (fst (decode_rune s))"
proof (cases s)
  case (Cons a t)
  have "a < 0x80 \<Longrightarrow> scalar a" by (simp add: scalar_def)
  then show ?thesis
    unfolding Cons by (auto simp: scalar_2 scalar_3 scalar_4 split: list.split)
qed simp

lemma code_runes_encode:
  assumes "scalar r"
  shows "code_runes (encode_rune r @ s) = r # code_runes s"
  using decode_encode [OF assms] by (subst code_runes.simps) simp

lemma code_runes_concat: "list_all scalar rs \<Longrightarrow> code_runes (concat (map encode_rune rs)) = rs"
  by (induction rs) (simp_all add: code_runes_encode code_runes.simps [of "[]"])

lemma code_runes_scalar: "r \<in> set (code_runes s) \<Longrightarrow> scalar r"
proof (induction s rule: code_runes.induct)
  case (1 s)
  then show ?case
    using decode_scalar [of s] by (cases "s = []") (auto simp: code_runes.simps [of s])
qed

lemma codes_bytes: "b \<in> set (codes s) \<Longrightarrow> b < 256"
  by (auto simp: codes_def)

lemma runes_scalar: "r \<in> set (runes s) \<Longrightarrow> scalar r"
  unfolding runes_def by (rule code_runes_scalar)

lemma codes_of_string_of_codes: "(\<forall>b \<in> set cs. b < 256) \<Longrightarrow> codes (string_of_codes cs) = cs"
  by (induction cs) (simp_all add: codes_def string_of_codes_def of_char_of_nat)

lemma runes_string_of_runes: "list_all scalar rs \<Longrightarrow> runes (string_of_runes rs) = rs"
  unfolding runes_def string_of_runes_def
  by (subst codes_of_string_of_codes) (auto simp: code_runes_concat dest: encode_rune_bytes)

text \<open>What \<open>strings.Map\<close> leaves are exactly the mapped runes, when they are scalar values.\<close>

lemma runes_map_runes:
  assumes "\<And>r r'. scalar r \<Longrightarrow> f r = Some r' \<Longrightarrow> scalar r'"
  shows "runes (map_runes f s) = List.map_filter f (runes s)"
  unfolding map_runes_def
  by (rule runes_string_of_runes)
    (auto simp: list_all_iff List.map_filter_def dest!: runes_scalar dest: assms)

section \<open>White space and case\<close>

text \<open>The text cut into its runes, each with the bytes it was decoded from.\<close>

lemma codes_Nil_iff [simp]: "codes s = [] \<longleftrightarrow> s = []"
  by (simp add: codes_def)

lemma length_codes [simp]: "length (codes s) = length s"
  by (simp add: codes_def)

lemma decode_width_pos [simp]: "s \<noteq> [] \<Longrightarrow> 0 < snd (decode_rune (codes s))"
  using decode_width [of "codes s"] by simp

function segments :: "string \<Rightarrow> (rune \<times> string) list" where
  "segments s =
     (if s = [] then []
      else (let d = decode_rune (codes s) in
        (fst d, take (snd d) s) # segments (drop (snd d) s)))"
  by pat_completeness auto
termination
  by (relation "measure length") auto

declare segments.simps [simp del]

lemma segments_Nil [simp]: "segments [] = []"
  by (simp add: segments.simps)

lemma concat_segments [simp]: "concat (map snd (segments s)) = s"
proof (induction s rule: segments.induct)
  case (1 s)
  then show ?case
    by (cases "s = []") (auto simp: segments.simps [of s] Let_def)
qed

text \<open>\<open>unicode.IsSpace\<close>.\<close>

definition IsSpace :: "rune \<Rightarrow> bool" where
  "IsSpace r \<longleftrightarrow> (9 \<le> r \<and> r \<le> 13) \<or> r = 32 \<or> r = 0x85 \<or> r = 0xA0 \<or> r = 0x1680 \<or>
     (0x2000 \<le> r \<and> r \<le> 0x200A) \<or> r = 0x2028 \<or> r = 0x2029 \<or> r = 0x202F \<or> r = 0x205F \<or> r = 0x3000"

definition TrimSpace :: "string \<Rightarrow> string" where
  "TrimSpace s =
     (let sp = (\<lambda>x. IsSpace (fst x)) in
      concat (map snd (rev (dropWhile sp (rev (dropWhile sp (segments s)))))))"

text \<open>\<open>strings.Fields\<close>: the maximal runs of segments that are not space.\<close>

function fields_of :: "(rune \<times> string) list \<Rightarrow> string list" where
  "fields_of xs =
     (let ys = dropWhile (\<lambda>x. IsSpace (fst x)) xs in
      if ys = [] then []
      else concat (map snd (takeWhile (\<lambda>x. \<not> IsSpace (fst x)) ys)) #
        fields_of (dropWhile (\<lambda>x. \<not> IsSpace (fst x)) ys))"
  by pat_completeness auto
termination
proof (relation "measure length")
  fix xs ys :: "(rune \<times> string) list"
  assume ys: "ys = dropWhile (\<lambda>x. IsSpace (fst x)) xs" "ys \<noteq> []"
  then have "\<not> IsSpace (fst (hd ys))" using hd_dropWhile by blast
  with ys(2) have "length (dropWhile (\<lambda>x. \<not> IsSpace (fst x)) ys) < length ys"
    by (cases ys) (auto simp: le_imp_less_Suc length_dropWhile_le)
  also have "\<dots> \<le> length xs" by (simp add: ys length_dropWhile_le)
  finally show "(dropWhile (\<lambda>x. \<not> IsSpace (fst x)) ys, xs) \<in> measure length" by simp
qed simp

declare fields_of.simps [simp del]

definition Fields :: "string \<Rightarrow> string list" where
  "Fields s = fields_of (segments s)"

text \<open>
  \<open>unicode.ToUpper\<close> as far as ASCII results go: besides \<open>a\<close> to \<open>z\<close>, two runes have an ASCII
  upper case, the dotless i (U+0131) and the long s (U+017F). Other runes stay outside ASCII,
  and the program only compares the result with ASCII words.
\<close>

definition upper_rune :: "rune \<Rightarrow> rune" where
  "upper_rune r = (if 97 \<le> r \<and> r \<le> 122 then r - 32 else if r = 0x131 then 0x49
     else if r = 0x17F then 0x53 else r)"

definition ToUpper :: "string \<Rightarrow> string" where
  "ToUpper s = map_runes (\<lambda>r. Some (upper_rune r)) s"

text \<open>
  \<open>strings.ToLower\<close> as far as ASCII results go: besides \<open>A\<close> to \<open>Z\<close>, the dotted capital I (U+0130)
  and the Kelvin sign (U+212A) have an ASCII lower case. \<open>strings.EqualFold\<close> against an ASCII
  word folds the long s (U+017F) and the Kelvin sign.
\<close>

definition lower_rune :: "rune \<Rightarrow> rune" where
  "lower_rune r = (if 65 \<le> r \<and> r \<le> 90 then r + 32 else if r = 0x130 then 0x69
     else if r = 0x212A then 0x6B else r)"

definition ToLower :: "string \<Rightarrow> string" where
  "ToLower s = map_runes (\<lambda>r. Some (lower_rune r)) s"

definition fold_rune :: "rune \<Rightarrow> rune" where
  "fold_rune r = (if 65 \<le> r \<and> r \<le> 90 then r + 32 else if r = 0x17F then 0x73
     else if r = 0x212A then 0x6B else r)"

definition EqualFold :: "string \<Rightarrow> string \<Rightarrow> bool" where
  "EqualFold s t = (map fold_rune (runes s) = map fold_rune (runes t))"

definition is_ascii :: "string \<Rightarrow> bool" where
  "is_ascii s = list_all (\<lambda>c. (of_char c :: nat) < 128) s"

lemma code_runes_ascii: "list_all (\<lambda>b. b < 128) cs \<Longrightarrow> code_runes cs = cs"
  by (induction cs) (simp_all add: code_runes.simps [of "_ # _"])

lemma runes_ascii: "is_ascii s \<Longrightarrow> runes s = codes s"
  unfolding runes_def codes_def is_ascii_def
  by (rule code_runes_ascii) (simp add: list_all_iff)

lemma string_of_runes_ascii: "list_all (\<lambda>r. r < 128) rs \<Longrightarrow> string_of_runes rs = map char_of rs"
  by (induction rs) (simp_all add: string_of_runes_def string_of_codes_def encode_rune_def)

end
