(* ===== verification/Log_Text.thy ===== *)
theory Log_Text
  imports Utf8
begin

text \<open>
  Text of a client on its way to a log line or a chat message: \<open>sanitizeLog\<close> and
  \<open>sanitizeAlertField\<close> of \<open>proxy.go\<close>.
\<close>

definition log_control :: "rune \<Rightarrow> bool" where
  "log_control r \<longleftrightarrow> r < 0x20 \<or> (0x7f \<le> r \<and> r \<le> 0x9f)"

definition sanitizeLog :: "string \<Rightarrow> string" where
  "sanitizeLog s = map_runes (\<lambda>r. if log_control r then None else Some r) s"

definition alert_unsafe :: "rune \<Rightarrow> bool" where
  "alert_unsafe r \<longleftrightarrow> r < 0x20 \<or> r = 0x7f \<or> r = of_char (CHR 0x60)"

definition sanitizeAlertField :: "string \<Rightarrow> string" where
  "sanitizeAlertField s = map_runes (\<lambda>r. if alert_unsafe r then None else Some r) s"

lemma map_filter_drop: "List.map_filter (\<lambda>r. if P r then None else Some r) xs = filter (\<lambda>r. \<not> P r) xs"
  by (induction xs) (simp_all add: List.map_filter_simps)

lemma runes_drop:
  "runes (map_runes (\<lambda>r. if P r then None else Some r) s) = filter (\<lambda>r. \<not> P r) (runes s)"
  by (subst runes_map_runes) (auto simp: map_filter_drop split: if_splits)

text \<open>
  What reaches a log line is the client's text without its control characters, and
  nothing else changed: \<open>sanitizeLog\<close> drops exactly the C0 controls, DEL and the C1 range,
  keeps the order of the rest, and reads malformed UTF-8 as the replacement character, so
  no byte of it can be a raw C1 control either. An alert field also loses its backticks.
\<close>

theorem sanitized_text:
  "runes (sanitizeLog s) = filter (\<lambda>r. \<not> log_control r) (runes s) \<and>
   runes (sanitizeAlertField s) = filter (\<lambda>r. \<not> alert_unsafe r) (runes s)"
  by (simp add: sanitizeLog_def sanitizeAlertField_def runes_drop)

lemma sanitizeLog_idem: "sanitizeLog (sanitizeLog s) = sanitizeLog s"
proof -
  have "runes (sanitizeLog s) = filter (\<lambda>r. \<not> log_control r) (runes s)"
    by (simp add: sanitizeLog_def runes_drop)
  then show ?thesis
    unfolding sanitizeLog_def [of s] sanitizeLog_def [of "map_runes _ _"]
    by (simp add: map_runes_def map_filter_drop sanitizeLog_def)
qed

text \<open>
  The comment of \<open>sanitizeAlertField\<close> says that it works on top of stripping control
  characters; the C1 range, which \<open>sanitizeLog\<close> strips because terminals act on CSI (0x9b),
  stays in an alert.
\<close>

lemma sanitizeAlertField_keeps_c1:
  "sanitizeAlertField [CHR 0xC2, CHR 0x9B] = [CHR 0xC2, CHR 0x9B] \<and>
   sanitizeLog [CHR 0xC2, CHR 0x9B] = []"
proof -
  have "runes [CHR 0xC2, CHR 0x9B] = [0x9B]"
    by (simp add: runes_def codes_def code_runes.simps cont_def)
  moreover have "char_of (194 :: nat) = CHR 0xC2" "char_of (155 :: nat) = CHR 0x9B"
    by code_simp+
  ultimately show ?thesis
    by (simp add: sanitizeAlertField_def sanitizeLog_def map_runes_def map_filter_drop alert_unsafe_def
        log_control_def string_of_runes_def string_of_codes_def encode_rune_def)
qed

end
