(* ===== verification/Go_Quote.thy ===== *)
theory Go_Quote
  imports Log_Text
begin

text \<open>
  \<open>strconv.Quote\<close>, which \<open>fmt\<close> applies for the verb \<open>q\<close>, up to the table of printable characters,
  which is an argument; that a quoted text determines the text, whatever bytes it holds; and
  that it has no control characters if none is printable.
\<close>

section \<open>Quoting\<close>

text \<open>The last \<open>k\<close> hexadecimal digits.\<close>

primrec hexn :: "nat \<Rightarrow> nat \<Rightarrow> string" where
  "hexn 0 n = []"
| "hexn (Suc k) n = hexn k (n div 16) @ [hex_digit (n mod 16)]"

text \<open>
  A rune and the bytes it was decoded from: the letter of its escape sequence, with how many
  digits of which number, or \<open>None\<close> if it is copied.
\<close>

definition escape_of :: "(rune \<Rightarrow> bool) \<Rightarrow> rune \<times> string \<Rightarrow> (char \<times> nat \<times> nat) option" where
  "escape_of is_print x =
     (case x of (r, b) \<Rightarrow>
       if r = RuneError \<and> length b = 1 then Some (CHR ''x'', 2, of_char (hd b))
       else if r = 0x22 then Some (CHR 0x22, 0, 0)
       else if r = 0x5C then Some (CHR 0x5C, 0, 0)
       else if is_print r then None
       else if r = 7 then Some (CHR ''a'', 0, 0)
       else if r = 8 then Some (CHR ''b'', 0, 0)
       else if r = 12 then Some (CHR ''f'', 0, 0)
       else if r = 10 then Some (CHR ''n'', 0, 0)
       else if r = 13 then Some (CHR ''r'', 0, 0)
       else if r = 9 then Some (CHR ''t'', 0, 0)
       else if r = 11 then Some (CHR ''v'', 0, 0)
       else if r < 0x20 \<or> r = 0x7F then Some (CHR ''x'', 2, r)
       else if r < 0x10000 then Some (CHR ''u'', 4, r)
       else Some (CHR ''U'', 8, r))"

definition quote_rune :: "(rune \<Rightarrow> bool) \<Rightarrow> rune \<times> string \<Rightarrow> string" where
  "quote_rune is_print x =
     (case escape_of is_print x of
        None \<Rightarrow> string_of_codes (encode_rune (fst x))
      | Some (c, k, n) \<Rightarrow> CHR 0x5C # c # hexn k n)"

definition Quote :: "(rune \<Rightarrow> bool) \<Rightarrow> string \<Rightarrow> string" where
  "Quote is_print s = CHR 0x22 # concat (map (quote_rune is_print) (segments s)) @ [CHR 0x22]"

subsection \<open>Quoted texts are unambiguous\<close>

lemma length_hexn [simp]: "length (hexn k n) = k"
  by (induction k arbitrary: n) simp_all

lemma hexn_inj: "hexn k m = hexn k n \<Longrightarrow> m < 16 ^ k \<Longrightarrow> n < 16 ^ k \<Longrightarrow> m = n"
proof (induction k arbitrary: m n)
  case (Suc k)
  then have "hexn k (m div 16) = hexn k (n div 16)" "hex_digit (m mod 16) = hex_digit (n mod 16)" by simp_all
  moreover have "m div 16 < 16 ^ k" "n div 16 < 16 ^ k" using Suc.prems(2,3) by (simp_all add: less_mult_imp_div_less mult.commute)
  ultimately have "m div 16 = n div 16" "m mod 16 = n mod 16" using Suc.IH by (simp_all add: hex_digit_inj)
  then show ?case by (metis div_mult_mod_eq)
qed simp

text \<open>A piece of a text: an invalid byte, or a scalar value with its encoding.\<close>

definition piece :: "rune \<times> string \<Rightarrow> bool" where
  "piece x \<longleftrightarrow> (fst x = RuneError \<and> (\<exists>c. snd x = [c] \<and> 0x80 \<le> (of_char c :: nat))) \<or>
     (scalar (fst x) \<and> codes (snd x) = encode_rune (fst x))"

lemma cont_low:
  assumes "cont b"
  obtains l where "b = 0x80 + l" "l < 64"
  using assms that [of "b - 0x80"] by (auto simp: cont_def)

lemma decode_piece:
  assumes "cs \<noteq> []"
  shows "(fst (decode_rune cs) = RuneError \<and> snd (decode_rune cs) = 1 \<and> 0x80 \<le> hd cs) \<or>
    (scalar (fst (decode_rune cs)) \<and> take (snd (decode_rune cs)) cs = encode_rune (fst (decode_rune cs)))"
proof -
  obtain a s where cs: "cs = a # s" using assms by (cases cs) auto
  consider "a < 0x80" | "0x80 \<le> a" "snd (decode_rune cs) = 1" | "0xC2 \<le> a" "a < 0xE0" "snd (decode_rune cs) \<noteq> 1"
    | "0xE0 \<le> a" "a < 0xF0" "snd (decode_rune cs) \<noteq> 1" | "0xF0 \<le> a" "a < 0xF5" "snd (decode_rune cs) \<noteq> 1"
    by (cases "a < 0x80"; cases "0xC2 \<le> a"; cases "a < 0xE0"; cases "a < 0xF0"; cases "a < 0xF5")
      (fastforce simp: cs)+
  then show ?thesis
  proof cases
    case 1
    then show ?thesis by (simp add: cs encode_rune_def scalar_def)
  next
    case 2
    then show ?thesis by (auto simp: cs split: if_splits list.splits)
  next
    case 3
    then obtain b t where s: "s = b # t" "cont b" by (auto simp: cs split: if_splits list.splits)
    then obtain l where l: "b = 0x80 + l" "l < 64" by (blast elim: cont_low)
    define r where "r = (a - 0xC0) * 64 + (b - 0x80)"
    have r: "r < 0x800" "0x80 \<le> r" "scalar r" using 3 l s scalar_2 [of a b] by (auto simp: r_def)
    have parts: "r div 64 = a - 0xC0" "r mod 64 = b - 0x80" using l unfolding r_def by simp_all
    have "decode_rune cs = (r, 2)" using 3 s by (simp add: cs r_def)
    then show ?thesis using 3 s l r parts by (simp add: cs encode_rune_def)
  next
    case 4
    then obtain b c t where s: "s = b # c # t" "cont b" "cont c" "a = 0xE0 \<longrightarrow> 0xA0 \<le> b" "a = 0xED \<longrightarrow> b < 0xA0"
      by (auto simp: cs split: if_splits list.splits)
    then obtain l m where l: "b = 0x80 + l" "l < 64" "c = 0x80 + m" "m < 64" by (blast elim: cont_low)
    define r where "r = (a - 0xE0) * 4096 + (b - 0x80) * 64 + (c - 0x80)"
    have r: "r < 0x10000" "0x800 \<le> r" "scalar r" using 4 l s scalar_3 [of a b c] by (auto simp: r_def)
    have "r = ((a - 0xE0) * 64 + l) * 64 + m" using l by (simp add: r_def add_mult_distrib)
    then have "r div 64 = (a - 0xE0) * 64 + l" "r mod 64 = m" using l by (simp_all only: div_mult_self3 mod_mult_self3 div_less mod_less add_0_right add_0)
    then have parts: "r div 4096 = a - 0xE0" "r div 64 mod 64 = l" "r mod 64 = m"
      using l div_mult2_eq [of r 64 64] by simp_all
    have "decode_rune cs = (r, 3)" using 4 s by (simp add: cs r_def)
    then show ?thesis using 4 s l r parts by (simp add: cs encode_rune_def)
  next
    case 5
    then obtain b c d t where s: "s = b # c # d # t" "cont b" "cont c" "cont d" "a = 0xF0 \<longrightarrow> 0x90 \<le> b" "a = 0xF4 \<longrightarrow> b < 0x90"
      by (auto simp: cs split: if_splits list.splits)
    then obtain l m n where l: "b = 0x80 + l" "l < 64" "c = 0x80 + m" "m < 64" "d = 0x80 + n" "n < 64" by (blast elim: cont_low)
    define r where "r = (a - 0xF0) * 262144 + (b - 0x80) * 4096 + (c - 0x80) * 64 + (d - 0x80)"
    have r: "0x10000 \<le> r" "scalar r" using 5 l s scalar_4 [of a b c d] by (auto simp: r_def)
    have "r = (((a - 0xF0) * 64 + l) * 64 + m) * 64 + n" using l by (simp add: r_def add_mult_distrib)
    then have "r div 64 = ((a - 0xF0) * 64 + l) * 64 + m" "r mod 64 = n" using l by (simp_all only: div_mult_self3 mod_mult_self3 div_less mod_less add_0_right add_0)
    moreover from this have "r div 4096 = (a - 0xF0) * 64 + l" using l div_mult2_eq [of r 64 64] by simp
    moreover from calculation(1) have "r div 64 mod 64 = m" using l by (simp only: mod_mult_self3 mod_less)
    ultimately have parts: "r div 262144 = a - 0xF0" "r div 4096 mod 64 = l" "r div 64 mod 64 = m" "r mod 64 = n"
      using l div_mult2_eq [of r 4096 64] by simp_all
    have "decode_rune cs = (r, 4)" using 5 s by (simp add: cs r_def)
    then show ?thesis using 5 s l r parts by (simp add: cs encode_rune_def)
  qed
qed

lemma segments_pieces: "x \<in> set (segments s) \<Longrightarrow> piece x"
proof (induction s rule: segments.induct)
  case (1 s)
  show ?case
  proof (cases "s = []")
    case False
    let ?d = "decode_rune (codes s)"
    have "piece (fst ?d, take (snd ?d) s)"
    proof -
      have "hd (codes s) = of_char (hd s)" using False by (cases s) (simp_all add: codes_def)
      moreover have "take 1 s = [hd s]" using False by (cases s) simp_all
      moreover have "codes (take n s) = take n (codes s)" for n by (simp add: codes_def take_map)
      ultimately show ?thesis using decode_piece [of "codes s"] False by (auto simp: piece_def)
    qed
    then show ?thesis using 1 False by (auto simp: segments.simps [of s] Let_def)
  qed (use 1 in simp)
qed

text \<open>The escape sequence determines the piece.\<close>

definition unescape :: "char \<times> nat \<times> nat \<Rightarrow> rune \<times> string" where
  "unescape e =
     (case e of (c, k, n) \<Rightarrow>
       let r = (if k \<noteq> 0 then n else if c = CHR ''a'' then 7 else if c = CHR ''b'' then 8 else if c = CHR ''f'' then 12
           else if c = CHR ''n'' then 10 else if c = CHR ''r'' then 13 else if c = CHR ''t'' then 9 else if c = CHR ''v'' then 11
           else of_char c)
       in if k = 2 \<and> 0x80 \<le> n then (RuneError, [char_of n]) else (r, string_of_codes (encode_rune r)))"

lemma string_of_codes_codes [simp]: "string_of_codes (codes b) = b"
  by (induction b) (simp_all add: codes_def string_of_codes_def)

lemma unescape_escape:
  assumes "piece x" "escape_of is_print x = Some e"
  shows "unescape e = x" and "snd (snd e) < 16 ^ fst (snd e)"
    and "fst (snd e) = (if fst e = CHR ''x'' then 2 else if fst e = CHR ''u'' then 4 else if fst e = CHR ''U'' then 8 else 0)"
proof -
  obtain r b where x: "x = (r, b)" by (cases x)
  have "length (encode_rune RuneError) = 3" by (simp add: encode_rune_def RuneError_def scalar_def)
  then have three: "length b = 3" if "codes b = encode_rune RuneError" using that by (metis length_codes)
  let ?claim = "unescape e = x \<and> snd (snd e) < 16 ^ fst (snd e) \<and>
    fst (snd e) = (if fst e = CHR ''x'' then 2 else if fst e = CHR ''u'' then 4 else if fst e = CHR ''U'' then 8 else 0)"
  have all: ?claim
  proof (cases "r = RuneError \<and> length b = 1")
    case True
    then obtain c where c: "b = [c]" "0x80 \<le> (of_char c :: nat)" using assms(1) three by (auto simp: x piece_def)
    then have "e = (CHR ''x'', 2, of_char c)" using assms(2) True by (simp add: x escape_of_def)
    moreover have "(of_char c :: nat) < 256" by simp
    ultimately show ?thesis using True c by (simp add: unescape_def x)
  next
    case False
    then have "scalar r" "codes b = encode_rune r" using assms(1) by (auto simp: x piece_def)
    then have b: "b = string_of_codes (encode_rune r)" by (metis string_of_codes_codes)
    have big: "r < 0x110000" using \<open>scalar r\<close> by (auto simp: scalar_def)
    from assms(2) False consider  (short) c where "e = (c, 0, 0)" "(r, c) \<in> {(7, CHR ''a''), (8, CHR ''b''), (12, CHR ''f''), (10, CHR ''n''), (13, CHR ''r''),
          (9, CHR ''t''), (11, CHR ''v''), (0x22, CHR 0x22), (0x5C, CHR 0x5C)}"
      | (hex) "e = (CHR ''x'', 2, r)" "r < 0x80" | (u) "e = (CHR ''u'', 4, r)" "r < 0x10000" | (U) "e = (CHR ''U'', 8, r)"
      by (auto simp: x escape_of_def split: if_splits)
    then show ?thesis
    proof cases
      case short
      then show ?thesis by (elim insertE emptyE) (simp_all add: unescape_def Let_def x b)
    qed (use big in \<open>simp_all add: unescape_def Let_def x b\<close>)
  qed
  show "unescape e = x" "snd (snd e) < 16 ^ fst (snd e)"
    "fst (snd e) = (if fst e = CHR ''x'' then 2 else if fst e = CHR ''u'' then 4 else if fst e = CHR ''U'' then 8 else 0)"
    using all by blast+
qed

text \<open>What the quoted text of two pieces starts with tells them apart.\<close>

lemma copied_piece:
  assumes "piece x" "escape_of is_print x = None"
  shows "scalar (fst x)" and "quote_rune is_print x = snd x" and "codes (snd x) = encode_rune (fst x)"
    and "fst x \<noteq> 0x22" and "fst x \<noteq> 0x5C"
proof -
  have x: "\<not> (fst x = RuneError \<and> length (snd x) = 1)" "fst x \<noteq> 0x22" "fst x \<noteq> 0x5C"
    using assms(2) by (auto simp: escape_of_def split: prod.splits if_splits)
  then have "scalar (fst x) \<and> codes (snd x) = encode_rune (fst x)" using assms(1) by (auto simp: piece_def)
  then show "scalar (fst x)" "quote_rune is_print x = snd x" "codes (snd x) = encode_rune (fst x)" "fst x \<noteq> 0x22" "fst x \<noteq> 0x5C"
    using x assms(2) string_of_codes_codes [of "snd x"] by (simp_all add: quote_rune_def del: string_of_codes_codes)
qed

lemma codes_append: "codes (a @ b) = codes a @ codes b"
  by (simp add: codes_def)

lemma codes_inj: "codes a = codes b \<longleftrightarrow> a = b"
  by (metis string_of_codes_codes)

lemma decode_copied:
  assumes "piece x" "escape_of is_print x = None"
  shows "fst (decode_rune (codes (quote_rune is_print x @ rest))) = fst x"
  using copied_piece [OF assms] decode_encode [of "fst x" "codes rest"] by (simp add: codes_append)

lemma decode_escaped:
  assumes "escape_of is_print x = Some e"
  shows "fst (decode_rune (codes (quote_rune is_print x @ rest))) = 0x5C"
  using assms by (cases e) (simp add: quote_rune_def codes_def)

lemma decode_end: "fst (decode_rune (codes (CHR 0x22 # u))) = 0x22"
  by (simp add: codes_def)

lemma quote_rune_inj:
  assumes "piece x" "piece y" "quote_rune is_print x @ xs = quote_rune is_print y @ ys"
  shows "x = y \<and> xs = ys"
proof -
  have same: "fst (decode_rune (codes (quote_rune is_print x @ xs))) = fst (decode_rune (codes (quote_rune is_print y @ ys)))"
    using assms(3) by simp
  show ?thesis
  proof (cases "escape_of is_print x")
    case None
    note cx = copied_piece [OF assms(1) None]
    have "escape_of is_print y = None"
      using same cx decode_copied [OF assms(1) None, of xs] decode_escaped [of is_print y _ ys] by (cases "escape_of is_print y") auto
    note cy = copied_piece [OF assms(2) this] and dy = decode_copied [OF assms(2) this, of ys]
    have "fst x = fst y" using same decode_copied [OF assms(1) None, of xs] dy by simp
    then have "snd x = snd y" using cx(3) cy(3) codes_inj by metis
    then show ?thesis using \<open>fst x = fst y\<close> assms(3) cx(2) cy(2) by (simp add: prod_eq_iff)
  next
    case (Some e)
    have "escape_of is_print y \<noteq> None"
    proof
      assume none: "escape_of is_print y = None"
      show False
        using same decode_escaped [OF Some, of xs] copied_piece(5) [OF assms(2) none] decode_copied [OF assms(2) none, of ys] by simp
    qed
    then obtain e' where e': "escape_of is_print y = Some e'" by blast
    obtain c k n c' k' n' where e: "e = (c, k, n)" "e' = (c', k', n')" by (metis prod_cases3)
    have eq: "c = c'" "hexn k n @ xs = hexn k' n' @ ys" using assms(3) Some e' e by (simp_all add: quote_rune_def)
    note ux = unescape_escape [OF assms(1) Some] and uy = unescape_escape [OF assms(2) e']
    have "k = k'" using ux(3) uy(3) eq(1) unfolding e prod.sel by (simp only:)
    then have "hexn k n = hexn k' n'" "xs = ys" using eq(2) by (simp_all add: append_eq_append_conv)
    then have "n = n'" using \<open>k = k'\<close> ux(2) uy(2) e hexn_inj [of k n n'] by simp
    then show ?thesis using ux(1) uy(1) e eq(1) \<open>k = k'\<close> \<open>xs = ys\<close> by simp
  qed
qed

lemma quoted_end:
  assumes "piece x"
  shows "quote_rune is_print x @ xs \<noteq> CHR 0x22 # u"
proof
  assume "quote_rune is_print x @ xs = CHR 0x22 # u"
  then have "fst (decode_rune (codes (quote_rune is_print x @ xs))) = 0x22" using decode_end by metis
  then show False
    using decode_escaped [of is_print x _ xs] decode_copied [OF assms, of is_print xs] copied_piece(4) [OF assms, of is_print]
    by (cases "escape_of is_print x") auto
qed

lemma quoted_inj:
  assumes "\<forall>x \<in> set xs. piece x" "\<forall>y \<in> set ys. piece y"
    and "concat (map (quote_rune is_print) xs) @ CHR 0x22 # u = concat (map (quote_rune is_print) ys) @ CHR 0x22 # v"
  shows "xs = ys \<and> u = v"
  using assms
proof (induction xs arbitrary: ys)
  case Nil
  show ?case
  proof (cases ys)
    case (Cons y ys')
    then show ?thesis using Nil quoted_end [of y is_print "concat (map (quote_rune is_print) ys') @ CHR 0x22 # v" u] by simp
  qed (use Nil in simp)
next
  case (Cons x xs)
  have "ys \<noteq> []" using Cons.prems(1,3) quoted_end [of x is_print "concat (map (quote_rune is_print) xs) @ CHR 0x22 # u" v] by auto
  then obtain y ys' where ys: "ys = y # ys'" by (cases ys) auto
  then have "x = y \<and> concat (map (quote_rune is_print) xs) @ CHR 0x22 # u = concat (map (quote_rune is_print) ys') @ CHR 0x22 # v"
    using Cons.prems quote_rune_inj [of x y is_print] by simp
  then show ?case using Cons.IH [of ys'] Cons.prems ys by simp
qed

text \<open>A quoted text at the start of a line determines the text and the rest of the line.\<close>

lemma Quote_split: "Quote is_print a @ u = Quote is_print b @ v \<longleftrightarrow> a = b \<and> u = v"
proof
  assume "Quote is_print a @ u = Quote is_print b @ v"
  then have "segments a = segments b \<and> u = v"
    using segments_pieces by (intro quoted_inj [of _ _ is_print]) (auto simp: Quote_def)
  then show "a = b \<and> u = v" by (metis concat_segments)
qed simp

lemma Quote_inj: "Quote is_print a = Quote is_print b \<longleftrightarrow> a = b"
  using Quote_split [of is_print a "[]" b "[]"] by simp

subsection \<open>Quoted texts have no control characters\<close>

text \<open>No control character is printable, as in Go's table: neither C0 nor DEL nor C1.\<close>

definition print_table :: "(rune \<Rightarrow> bool) \<Rightarrow> bool" where
  "print_table is_print \<longleftrightarrow> (\<forall>r. is_print r \<longrightarrow> \<not> log_control r)"

text \<open>
  A text that is the encoding of runes none of which is a control character. Such a text has no
  byte outside of an encoded rune either, so no C1 control that is a byte by itself.
\<close>

definition plain :: "string \<Rightarrow> bool" where
  "plain s \<longleftrightarrow> (\<exists>rs. s = string_of_runes rs \<and> (\<forall>r \<in> set rs. scalar r \<and> \<not> log_control r))"

lemma plain_runes: "plain s \<Longrightarrow> \<forall>r \<in> set (runes s). \<not> log_control r"
  by (auto simp: plain_def runes_string_of_runes list_all_iff)

lemma plain_append: "plain a \<Longrightarrow> plain b \<Longrightarrow> plain (a @ b)"
  unfolding plain_def by (elim exE conjE, rule_tac x = "rs @ rsa" in exI) (auto simp: string_of_runes_def string_of_codes_def)

lemma plain_ascii: "list_all (\<lambda>c. 0x20 \<le> (of_char c :: nat) \<and> (of_char c :: nat) < 0x7F) s \<Longrightarrow> plain s"
proof -
  assume s: "list_all (\<lambda>c. 0x20 \<le> (of_char c :: nat) \<and> (of_char c :: nat) < 0x7F) s"
  have "list_all (\<lambda>r. r < 128) (codes s)" using s by (auto simp: codes_def list_all_iff)
  from string_of_runes_ascii [OF this] have "s = string_of_runes (codes s)" by (simp add: codes_def o_def)
  moreover have "\<forall>r \<in> set (codes s). scalar r \<and> \<not> log_control r"
    using s by (auto simp: codes_def list_all_iff scalar_def log_control_def)
  ultimately show ?thesis unfolding plain_def by blast
qed

lemma plain_Nil [simp]: "plain []"
  by (rule plain_ascii) simp

lemma plain_concat: "(\<And>x. x \<in> set xs \<Longrightarrow> plain x) \<Longrightarrow> plain (concat xs)"
  by (induction xs) (auto intro: plain_append)

lemma hexn_plain: "list_all (\<lambda>c. 0x20 \<le> (of_char c :: nat) \<and> (of_char c :: nat) < 0x7F) (hexn k n)"
proof (induction k arbitrary: n)
  case (Suc k)
  have "n mod 16 < 16" by simp
  then show ?case using Suc by (auto simp: of_char_hex_digit simp del: pos_mod_bound)
qed simp

lemma quote_rune_plain:
  assumes "print_table is_print" "piece x"
  shows "plain (quote_rune is_print x)"
proof (cases "escape_of is_print x")
  case None
  then have "is_print (fst x)" by (auto simp: escape_of_def split: prod.splits if_splits)
  then have "\<not> log_control (fst x)" using assms(1) by (auto simp: print_table_def)
  moreover have "scalar (fst x)" using copied_piece(1) [OF assms(2) None] .
  moreover have "quote_rune is_print x = string_of_runes [fst x]" using None by (simp add: quote_rune_def string_of_runes_def)
  ultimately show ?thesis unfolding plain_def by (intro exI [of _ "[fst x]"]) simp
next
  case (Some e)
  obtain l k n where e: "e = (l, k, n)" by (metis prod_cases3)
  then have "l \<in> {CHR ''x'', CHR 0x22, CHR 0x5C, CHR ''a'', CHR ''b'', CHR ''f'', CHR ''n'', CHR ''r'', CHR ''t'', CHR ''v'', CHR ''u'', CHR ''U''}"
    using Some by (auto simp: escape_of_def split: prod.splits if_splits)
  then have "0x20 \<le> (of_char l :: nat) \<and> (of_char l :: nat) < 0x7F" by auto
  then show ?thesis using Some e hexn_plain by (intro plain_ascii) (simp add: quote_rune_def)
qed

lemma plain_Quote: "print_table is_print \<Longrightarrow> plain (Quote is_print s)"
proof -
  assume table: "print_table is_print"
  have "plain (concat (map (quote_rune is_print) (segments s)))"
    using quote_rune_plain [OF table] segments_pieces by (intro plain_concat) auto
  moreover have "plain [CHR 0x22]" by (rule plain_ascii) simp
  ultimately have "plain ([CHR 0x22] @ concat (map (quote_rune is_print) (segments s)) @ [CHR 0x22])"
    by (intro plain_append)
  then show ?thesis by (simp add: Quote_def)
qed

end
