(* ===== verification/Metrics_Text.thy ===== *)
theory Metrics_Text
  imports Metrics Go_Quote
begin

text \<open>
  What a scrape of the metrics returns: \<open>ServeHTTP\<close> and \<open>metricLabel\<close> of \<open>metrics.go\<close>, on the
  registry of \<open>Metrics\<close>. The theorem: the text does not depend on the order of Go's map, every
  listener has its samples in it, and two listeners never share a label.
\<close>

section \<open>The text\<close>

definition metricLabel :: "(rune \<Rightarrow> bool) \<Rightarrow> string \<Rightarrow> string" where
  "metricLabel = Quote"

definition sample :: "(rune \<Rightarrow> bool) \<Rightarrow> string \<Rightarrow> string \<Rightarrow> string \<Rightarrow> string \<Rightarrow> string" where
  "sample is_print start name port val =
     start @ ''listener='' @ metricLabel is_print name @ '',port='' @ metricLabel is_print port @ ''} '' @ val"

text \<open>One family: its two comment lines, what comes first in it, and a sample for each listener.\<close>

definition metric_family ::
  "(rune \<Rightarrow> bool) \<Rightarrow> traffic_metrics \<Rightarrow> string list \<Rightarrow> string list \<Rightarrow> string \<Rightarrow> (route_metrics \<Rightarrow> string) \<Rightarrow> string list" where
  "metric_family is_print m names header start val =
     header @ map (\<lambda>name. sample is_print start name (m_port (the (m name))) (val (the (m name)))) names"

definition u64_text :: "u64 \<Rightarrow> string" where
  "u64_text n = itoa (unat n)"

definition metrics_lines :: "(rune \<Rightarrow> bool) \<Rightarrow> traffic_metrics \<Rightarrow> u64 \<Rightarrow> string list \<Rightarrow> string list" where
  "metrics_lines is_print m overload keys =
     (let names = sort keys in
      metric_family is_print m names
        [''# HELP tlsgate_connections_active Connections currently handled by TLSGate.'',
         ''# TYPE tlsgate_connections_active gauge''] ''tlsgate_connections_active{'' (\<lambda>r. itoa_int (m_active r)) @
      metric_family is_print m names
        [''# HELP tlsgate_connections_total Connections admitted by the global and route capacity guards.'',
         ''# TYPE tlsgate_connections_total counter''] ''tlsgate_connections_total{'' (\<lambda>r. u64_text (m_total r)) @
      metric_family is_print m names
        [''# HELP tlsgate_rate_limited_total Connections rejected by the per-source-IP rate limit.'',
         ''# TYPE tlsgate_rate_limited_total counter''] ''tlsgate_rate_limited_total{'' (\<lambda>r. u64_text (m_rateLimited r)) @
      metric_family is_print m names
        [''# HELP tlsgate_overload_total Connections rejected because a capacity limit was full.'',
         ''# TYPE tlsgate_overload_total counter'',
         ''tlsgate_overload_total{scope='' @ [CHR 0x22] @ ''global'' @ [CHR 0x22] @ '',listener='' @ [CHR 0x22, CHR 0x22] @ ''} '' @ u64_text overload]
        (''tlsgate_overload_total{scope='' @ [CHR 0x22] @ ''route'' @ [CHR 0x22] @ '','') (\<lambda>r. u64_text (m_overloaded r)) @
      metric_family is_print m names
        [''# HELP tlsgate_route_max_concurrent Configured per-route concurrent connection limit; zero means only the global limit applies.'',
         ''# TYPE tlsgate_route_max_concurrent gauge''] ''tlsgate_route_max_concurrent{'' (\<lambda>r. itoa_int (m_maxConcurrent r)) @
      metric_family is_print m names
        [''# HELP tlsgate_backend_connection_failures_total Backend TCP connection attempts that failed.'',
         ''# TYPE tlsgate_backend_connection_failures_total counter''] ''tlsgate_backend_connection_failures_total{''
         (\<lambda>r. u64_text (m_backendFailures r)))"

definition ServeHTTP :: "(rune \<Rightarrow> bool) \<Rightarrow> traffic_metrics \<Rightarrow> u64 \<Rightarrow> string list \<Rightarrow> string" where
  "ServeHTTP is_print m overload keys = concat (map (\<lambda>l. l @ [CHR 0x0A]) (metrics_lines is_print m overload keys))"

section \<open>What a scrape shows\<close>

text \<open>The samples of one listener.\<close>

definition listener_samples :: "(rune \<Rightarrow> bool) \<Rightarrow> string \<Rightarrow> route_metrics \<Rightarrow> string list" where
  "listener_samples is_print name r =
     [sample is_print ''tlsgate_connections_active{'' name (m_port r) (itoa_int (m_active r)),
      sample is_print ''tlsgate_connections_total{'' name (m_port r) (u64_text (m_total r)),
      sample is_print ''tlsgate_rate_limited_total{'' name (m_port r) (u64_text (m_rateLimited r)),
      sample is_print (''tlsgate_overload_total{scope='' @ [CHR 0x22] @ ''route'' @ [CHR 0x22] @ '','') name (m_port r) (u64_text (m_overloaded r)),
      sample is_print ''tlsgate_route_max_concurrent{'' name (m_port r) (itoa_int (m_maxConcurrent r)),
      sample is_print ''tlsgate_backend_connection_failures_total{'' name (m_port r) (u64_text (m_backendFailures r))]"

lemma metric_family_sample:
  "name \<in> set names \<Longrightarrow> sample is_print start name (m_port (the (m name))) (val (the (m name))) \<in>
    set (metric_family is_print m names header start val)"
  by (auto simp: metric_family_def)

text \<open>
  C19: a scrape shows every listener's counters, unambiguously. The text does not depend on the
  order in which Go ranges over the map; it has, for every listener in the registry, the six
  samples with the values of its own counters; and the label of a listener determines its
  address, whatever bytes an address holds, so that no two listeners' samples are ever
  merged.
\<close>

theorem metrics_scrape:
  assumes "mset keys' = mset keys"
  shows "ServeHTTP is_print m overload keys' = ServeHTTP is_print m overload keys \<and>
     (\<forall>name r. name \<in> set keys \<and> m name = Some r \<longrightarrow>
        set (listener_samples is_print name r) \<subseteq> set (metrics_lines is_print m overload keys)) \<and>
     (\<forall>a b. metricLabel is_print a = metricLabel is_print b \<longrightarrow> a = b)"
proof (intro conjI allI impI)
  have "sort keys' = sort keys" using assms by (metis mset_sort properties_for_sort sorted_sort)
  then show "ServeHTTP is_print m overload keys' = ServeHTTP is_print m overload keys"
    by (simp add: ServeHTTP_def metrics_lines_def)
  show "a = b" if "metricLabel is_print a = metricLabel is_print b" for a b
    using that by (simp add: metricLabel_def Quote_inj)
  fix name r
  assume name: "name \<in> set keys \<and> m name = Some r"
  then have "name \<in> set (sort keys)" by simp
  from metric_family_sample [OF this, of is_print _ m] name
  show "set (listener_samples is_print name r) \<subseteq> set (metrics_lines is_print m overload keys)"
    unfolding listener_samples_def metrics_lines_def Let_def set_append by (intro subsetI) (force simp del: set_sort)
qed

lemma metrics_scrape_witness:
  "ServeHTTP (\<lambda>r. 32 \<le> r) (\<lambda>n. Some (new_route_metrics ''1'' 0)) 0 [''b'', ''a''] =
     ServeHTTP (\<lambda>r. 32 \<le> r) (\<lambda>n. Some (new_route_metrics ''1'' 0)) 0 [''a'', ''b''] \<and>
   sample (\<lambda>r. 32 \<le> r) ''tlsgate_connections_total{'' ''a'' ''1'' ''0'' \<in>
     set (metrics_lines (\<lambda>r. 32 \<le> r) (\<lambda>n. Some (new_route_metrics ''1'' 0)) 0 [''a'', ''b''])"
proof -
  let ?p = "\<lambda>r :: nat. 32 \<le> r" and ?m = "\<lambda>n :: string. Some (new_route_metrics ''1'' 0)"
  have "mset [''b'', ''a''] = mset [''a'', ''b'']" by simp
  note scrape = metrics_scrape [OF this, of ?p ?m 0]
  have "set (listener_samples ?p ''a'' (new_route_metrics ''1'' 0)) \<subseteq> set (metrics_lines ?p ?m 0 [''a'', ''b''])"
    using scrape by simp
  moreover have "sample ?p ''tlsgate_connections_total{'' ''a'' ''1'' ''0'' \<in> set (listener_samples ?p ''a'' (new_route_metrics ''1'' 0))"
    by (simp add: listener_samples_def new_route_metrics_def u64_text_def itoa.simps digit_0)
  ultimately show ?thesis using scrape by blast
qed

end
