(* ===== verification/Client_Hello.thy ===== *)
theory Client_Hello
  imports Go_Strings
begin

text \<open>
  The ClientHello parser of \<open>ja3.go\<close>: \<open>parseClientHello\<close> with its extension parsers,
  written with the source's positions, bounds checks and loops. Every index and every slice
  is checked, so a read past the end is the value \<open>Inl Panic\<close>; the first theorems show that
  no input reaches it. What a ClientHello means, and that parsing undoes encoding, is the
  subject of \<open>Hello_Encoding\<close>.
\<close>

section \<open>Data\<close>

record client_hello =
  ch_version :: u16
  cipherSuites :: "u16 list"
  extensions :: "u16 list"
  ellipticCurves :: "u16 list"
  ecPointFormats :: "u8 list"
  serverName :: string
  alpnProtocols :: "string list"
  supportedVersions :: "u16 list"
  signatureAlgorithms :: "u16 list"

text \<open>One constructor per error message of \<open>parseClientHello\<close>.\<close>

datatype hello_error =
    NotClientHello
  | TruncatedClientHello nat nat
  | MalformedVersion
  | MalformedRandom
  | MalformedSessionIdLength
  | MalformedSessionId
  | MalformedCipherSuitesLength
  | MalformedCipherSuites
  | MalformedCompressionLength
  | MalformedCompressionMethods
  | MalformedExtensionsLength
  | ExtensionsOverrun
  | MalformedExtensionBody u16

type_synonym 'a hello_go = "(hello_error, 'a) go"

section \<open>Reading fields\<close>

definition u16_at :: "u8 list \<Rightarrow> nat \<Rightarrow> u16 hello_go" where
  "u16_at d p = ebind (byte_at d p) (\<lambda>a. ebind (byte_at d (p + 1)) (\<lambda>b. Inr (be16 a b)))"

definition len16_at :: "u8 list \<Rightarrow> nat \<Rightarrow> nat hello_go" where
  "len16_at d p = ebind (byte_at d p) (\<lambda>a. ebind (byte_at d (p + 1)) (\<lambda>b. Inr (be16n a b)))"

text \<open>
  The loop that reads consecutive 16-bit values of an extension body, from position \<open>i\<close>
  while a whole value fits below \<open>limit\<close> and inside the body.
\<close>

function u16_loop :: "u8 list \<Rightarrow> nat \<Rightarrow> nat \<Rightarrow> u16 list \<Rightarrow> u16 list hello_go" where
  "u16_loop ext limit i acc =
     (if i + 2 \<le> limit \<and> i + 2 \<le> length ext
      then ebind (u16_at ext i) (\<lambda>v. u16_loop ext limit (i + 2) (acc @ [v]))
      else Inr acc)"
  by pat_completeness auto
termination
  by (relation "measure (\<lambda>(ext, limit, i, acc). length ext - i)") auto

declare u16_loop.simps [simp del]

section \<open>Extension bodies\<close>

text \<open>\<open>parseSNI\<close>.\<close>

function sni_loop :: "u8 list \<Rightarrow> nat \<Rightarrow> nat \<Rightarrow> string hello_go" where
  "sni_loop ext stop pos =
     (if pos + 3 \<le> stop then
        ebind (byte_at ext pos) (\<lambda>nameType.
        ebind (len16_at ext (pos + 1)) (\<lambda>nameLen.
          if pos + 3 + nameLen > stop then Inr []
          else if nameType = 0 then
            ebind (slice ext (pos + 3) (pos + 3 + nameLen)) (\<lambda>b. Inr (string_of_bytes b))
          else sni_loop ext stop (pos + 3 + nameLen)))
      else Inr [])"
  by pat_completeness auto
termination
  by (relation "measure (\<lambda>(ext, stop, pos). stop - pos)") auto

declare sni_loop.simps [simp del]

definition parseSNI :: "u8 list \<Rightarrow> string hello_go" where
  "parseSNI ext =
     (if length ext < 2 then Inr []
      else ebind (len16_at ext 0) (\<lambda>listLen. sni_loop ext (min (length ext) (2 + listLen)) 2))"

text \<open>\<open>parseALPN\<close>.\<close>

function alpn_loop :: "u8 list \<Rightarrow> nat \<Rightarrow> nat \<Rightarrow> string list \<Rightarrow> string list hello_go" where
  "alpn_loop ext stop pos protocols =
     (if pos < stop then
        ebind (byte_at ext pos) (\<lambda>b.
          let protoLen = unat b in
          if pos + 1 + protoLen > stop then Inr protocols
          else ebind (slice ext (pos + 1) (pos + 1 + protoLen)) (\<lambda>p.
            alpn_loop ext stop (pos + 1 + protoLen) (protocols @ [string_of_bytes p])))
      else Inr protocols)"
  by pat_completeness auto
termination
  by (relation "measure (\<lambda>(ext, stop, pos, protocols). stop - pos)") auto

declare alpn_loop.simps [simp del]

definition parseALPN :: "u8 list \<Rightarrow> string list hello_go" where
  "parseALPN ext =
     (if length ext < 2 then Inr []
      else ebind (len16_at ext 0) (\<lambda>listLen. alpn_loop ext (min (length ext) (2 + listLen)) 2 []))"

text \<open>\<open>parseSupportedVersions\<close>: a two-byte body is the server's form, one value.\<close>

definition parseSupportedVersions :: "u8 list \<Rightarrow> u16 list hello_go" where
  "parseSupportedVersions ext =
     (if length ext = 2 then ebind (u16_at ext 0) (\<lambda>v. Inr [v])
      else if length ext < 1 then Inr []
      else ebind (byte_at ext 0) (\<lambda>b. u16_loop ext (1 + unat b) 1 []))"

text \<open>\<open>parseU16List\<close>.\<close>

definition parseU16List :: "u8 list \<Rightarrow> u16 list hello_go" where
  "parseU16List ext =
     (if length ext < 2 then Inr []
      else ebind (len16_at ext 0) (\<lambda>listLen. u16_loop ext (2 + listLen) 2 []))"

text \<open>The \<open>ec_point_formats\<close> loop.\<close>

function point_loop :: "u8 list \<Rightarrow> nat \<Rightarrow> u8 list \<Rightarrow> u8 list hello_go" where
  "point_loop ext i acc =
     ebind (byte_at ext 0) (\<lambda>n.
       if i \<le> unat n \<and> i < length ext
       then ebind (byte_at ext i) (\<lambda>b. point_loop ext (i + 1) (acc @ [b]))
       else Inr acc)"
  by pat_completeness auto
termination
  by (relation "measure (\<lambda>(ext, i, acc). length ext - i)") auto

declare point_loop.simps [simp del]

text \<open>
  The \<open>switch extType\<close> of the extension loop. The curve and point-format lists are
  appended to, the other fields are overwritten, as in the source.
\<close>

definition parse_ext :: "u16 \<Rightarrow> u8 list \<Rightarrow> client_hello \<Rightarrow> client_hello hello_go" where
  "parse_ext extType ext ch =
     (if extType = 0x0000 then
        ebind (parseSNI ext) (\<lambda>s. Inr (ch\<lparr>serverName := s\<rparr>))
      else if extType = 0x000a then
        (if length ext \<ge> 2 then
           ebind (len16_at ext 0) (\<lambda>listLen.
           ebind (u16_loop ext (2 + listLen) 2 (ellipticCurves ch)) (\<lambda>vs.
             Inr (ch\<lparr>ellipticCurves := vs\<rparr>)))
         else Inr ch)
      else if extType = 0x000b then
        (if length ext \<ge> 1 then
           ebind (point_loop ext 1 (ecPointFormats ch)) (\<lambda>vs. Inr (ch\<lparr>ecPointFormats := vs\<rparr>))
         else Inr ch)
      else if extType = 0x000d then
        ebind (parseU16List ext) (\<lambda>vs. Inr (ch\<lparr>signatureAlgorithms := vs\<rparr>))
      else if extType = 0x0010 then
        ebind (parseALPN ext) (\<lambda>ps. Inr (ch\<lparr>alpnProtocols := ps\<rparr>))
      else if extType = 0x002b then
        ebind (parseSupportedVersions ext) (\<lambda>vs. Inr (ch\<lparr>supportedVersions := vs\<rparr>))
      else Inr ch)"

section \<open>The message\<close>

text \<open>The cipher suite loop: \<open>for i := 0; i < cipherLen; i += 2\<close>.\<close>

function cipher_loop :: "u8 list \<Rightarrow> nat \<Rightarrow> nat \<Rightarrow> nat \<Rightarrow> u16 list \<Rightarrow> (u16 list \<times> nat) hello_go" where
  "cipher_loop data cipherLen i pos acc =
     (if i < cipherLen
      then ebind (u16_at data pos) (\<lambda>v. cipher_loop data cipherLen (i + 2) (pos + 2) (acc @ [v]))
      else Inr (acc, pos))"
  by pat_completeness auto
termination
  by (relation "measure (\<lambda>(data, cipherLen, i, pos, acc). cipherLen - i)") auto

declare cipher_loop.simps [simp del]

text \<open>
  The stages of \<open>parseClientHello\<close>, each from a position \<open>pos\<close> up to the end \<open>stop\<close> of the
  handshake message (the source's \<open>end\<close>); \<open>need n\<close> is \<open>pos + n \<le> stop\<close>. Each returns the
  position it stopped at.
\<close>

definition parse_version :: "u8 list \<Rightarrow> nat \<Rightarrow> nat \<Rightarrow> (u16 \<times> nat) hello_go" where
  "parse_version data stop pos =
     (if \<not> pos + 2 \<le> stop then fail MalformedVersion
      else ebind (u16_at data pos) (\<lambda>v.
        if \<not> pos + 2 + 32 \<le> stop then fail MalformedRandom
        else Inr (v, pos + 2 + 32)))"

definition skip_session_id :: "u8 list \<Rightarrow> nat \<Rightarrow> nat \<Rightarrow> nat hello_go" where
  "skip_session_id data stop pos =
     (if \<not> pos + 1 \<le> stop then fail MalformedSessionIdLength
      else ebind (byte_at data pos) (\<lambda>b.
        let sidLen = unat b in
        if \<not> pos + 1 + sidLen \<le> stop then fail MalformedSessionId
        else Inr (pos + 1 + sidLen)))"

definition parse_ciphers :: "u8 list \<Rightarrow> nat \<Rightarrow> nat \<Rightarrow> (u16 list \<times> nat) hello_go" where
  "parse_ciphers data stop pos =
     (if \<not> pos + 2 \<le> stop then fail MalformedCipherSuitesLength
      else ebind (len16_at data pos) (\<lambda>cipherLen.
        if cipherLen mod 2 \<noteq> 0 \<or> \<not> pos + 2 + cipherLen \<le> stop then fail MalformedCipherSuites
        else cipher_loop data cipherLen 0 (pos + 2) []))"

definition skip_compression :: "u8 list \<Rightarrow> nat \<Rightarrow> nat \<Rightarrow> nat hello_go" where
  "skip_compression data stop pos =
     (if \<not> pos + 1 \<le> stop then fail MalformedCompressionLength
      else ebind (byte_at data pos) (\<lambda>b.
        let compLen = unat b in
        if \<not> pos + 1 + compLen \<le> stop then fail MalformedCompressionMethods
        else Inr (pos + 1 + compLen)))"

text \<open>The extension loop: \<open>for pos+4 <= extEnd\<close>.\<close>

function ext_loop :: "u8 list \<Rightarrow> nat \<Rightarrow> nat \<Rightarrow> client_hello \<Rightarrow> client_hello hello_go" where
  "ext_loop data extEnd pos ch =
     (if pos + 4 \<le> extEnd then
        ebind (u16_at data pos) (\<lambda>extType.
        ebind (len16_at data (pos + 2)) (\<lambda>extLen.
          if pos + 4 + extLen > extEnd then fail (MalformedExtensionBody extType)
          else ebind (slice data (pos + 4) (pos + 4 + extLen)) (\<lambda>ext.
            ebind (parse_ext extType ext (ch\<lparr>extensions := extensions ch @ [extType]\<rparr>)) (\<lambda>ch'.
              ext_loop data extEnd (pos + 4 + extLen) ch'))))
      else Inr ch)"
  by pat_completeness auto
termination
  by (relation "measure (\<lambda>(data, extEnd, pos, ch). extEnd - pos)") auto

declare ext_loop.simps [simp del]

definition parse_extensions :: "u8 list \<Rightarrow> nat \<Rightarrow> nat \<Rightarrow> client_hello \<Rightarrow> client_hello hello_go" where
  "parse_extensions data stop pos ch =
     (if pos = stop then Inr ch
      else if \<not> pos + 2 \<le> stop then fail MalformedExtensionsLength
      else ebind (len16_at data pos) (\<lambda>n.
        let extEnd = pos + 2 + n in
        if extEnd > stop then fail ExtensionsOverrun
        else ext_loop data extEnd (pos + 2) ch))"

definition hello_init :: "u16 \<Rightarrow> u16 list \<Rightarrow> client_hello" where
  "hello_init v cs =
     \<lparr>ch_version = v, cipherSuites = cs, extensions = [], ellipticCurves = [],
      ecPointFormats = [], serverName = [], alpnProtocols = [], supportedVersions = [],
      signatureAlgorithms = []\<rparr>"

definition parse_body :: "u8 list \<Rightarrow> nat \<Rightarrow> client_hello hello_go" where
  "parse_body data stop =
     ebind (parse_version data stop 9) (\<lambda>(v, pos).
     ebind (skip_session_id data stop pos) (\<lambda>pos.
     ebind (parse_ciphers data stop pos) (\<lambda>(cs, pos).
     ebind (skip_compression data stop pos) (\<lambda>pos.
     parse_extensions data stop pos (hello_init v cs)))))"

definition parseClientHello :: "u8 list \<Rightarrow> client_hello hello_go" where
  "parseClientHello data =
     (if length data < 9 then fail NotClientHello
      else ebind (byte_at data 0) (\<lambda>b0. ebind (byte_at data 5) (\<lambda>b5.
        if b0 \<noteq> 0x16 \<or> b5 \<noteq> 0x01 then fail NotClientHello
        else ebind (byte_at data 6) (\<lambda>b6. ebind (byte_at data 7) (\<lambda>b7. ebind (byte_at data 8) (\<lambda>b8.
          let hsLen = be24n b6 b7 b8; stop = 9 + hsLen in
          if length data < stop then fail (TruncatedClientHello (length data - 9) hsLen)
          else parse_body data stop))))))"

section \<open>What the loops compute\<close>

text \<open>The 16-bit values of a byte list, read from its front.\<close>

fun u16_pairs :: "u8 list \<Rightarrow> u16 list" where
  "u16_pairs (a # b # r) = be16 a b # u16_pairs r"
| "u16_pairs _ = []"

lemma u16_pairs_put [simp]: "u16_pairs (put16 v @ r) = v # u16_pairs r"
  by (simp add: put16_def put16n_def be16_put)

lemma u16_pairs_concat [simp]: "u16_pairs (concat (map put16 vs)) = vs"
  by (induction vs) simp_all

lemma length_concat_put16 [simp]: "length (concat (map put16 vs)) = 2 * length vs"
  by (induction vs) simp_all

lemma u16_at_in: "p + 1 < length d \<Longrightarrow> u16_at d p = Inr (be16 (d ! p) (d ! (p + 1)))"
  by (simp add: u16_at_def)

lemma len16_at_in: "p + 1 < length d \<Longrightarrow> len16_at d p = Inr (be16n (d ! p) (d ! (p + 1)))"
  by (simp add: len16_at_def)

lemma safe_u16_at [simp]: "p + 1 < length d \<Longrightarrow> safe (u16_at d p)"
  by (simp add: u16_at_in)

lemma safe_len16_at [simp]: "p + 1 < length d \<Longrightarrow> safe (len16_at d p)"
  by (simp add: len16_at_in)

lemma u16_pairs_take_drop:
  "i + 2 \<le> m \<Longrightarrow> i + 2 \<le> length d \<Longrightarrow>
   u16_pairs (take (m - i) (drop i d)) =
     be16 (d ! i) (d ! (i + 1)) # u16_pairs (take (m - (i + 2)) (drop (i + 2) d))"
proof -
  assume i: "i + 2 \<le> m" "i + 2 \<le> length d"
  then have "drop i d = d ! i # d ! (i + 1) # drop (i + 2) d"
    by (metis Cons_nth_drop_Suc Suc_1 Suc_eq_plus1 Suc_le_lessD add.assoc add_Suc_right add_leD1 numeral_2_eq_2 order.strict_trans2 lessI)
  moreover have "m - i = Suc (Suc (m - (i + 2)))" using i by linarith
  ultimately show ?thesis by simp
qed

lemma u16_pairs_short: "length xs < 2 \<Longrightarrow> u16_pairs xs = []"
  by (cases xs rule: u16_pairs.cases) auto

lemma u16_loop_eq: "u16_loop ext limit i acc = Inr (acc @ u16_pairs (take (limit - i) (drop i ext)))"
proof (induction ext limit i acc rule: u16_loop.induct)
  case (1 ext limit i acc)
  show ?case
  proof (cases "i + 2 \<le> limit \<and> i + 2 \<le> length ext")
    case True
    with "1.IH" [of "be16 (ext ! i) (ext ! (i + 1))"] show ?thesis
      by (simp add: u16_loop.simps [of ext limit i acc] u16_at_in u16_pairs_take_drop)
  next
    case False
    then have "length (take (limit - i) (drop i ext)) < 2" by auto
    with False show ?thesis
      by (auto simp: u16_loop.simps [of ext limit i acc] u16_pairs_short)
  qed
qed

lemma point_loop_eq:
  "ext \<noteq> [] \<Longrightarrow>
   point_loop ext i acc = Inr (acc @ take (Suc (unat (ext ! 0)) - i) (drop i ext))"
proof (induction ext i acc rule: point_loop.induct)
  case (1 ext i acc)
  show ?case
  proof (cases "i \<le> unat (ext ! 0) \<and> i < length ext")
    case True
    then have "drop i ext = ext ! i # drop (Suc i) ext"
      by (simp add: Cons_nth_drop_Suc)
    with True 1 show ?thesis
      by (simp add: point_loop.simps [of ext i acc] Suc_diff_le)
  next
    case False
    with 1 show ?thesis by (auto simp: point_loop.simps [of ext i acc])
  qed
qed

lemma cipher_loop_eq:
  "pos + (n - i) \<le> length data \<Longrightarrow> even (n - i) \<Longrightarrow>
   cipher_loop data n i pos acc =
     Inr (acc @ u16_pairs (take (n - i) (drop pos data)), pos + (n - i))"
proof (induction data n i pos acc rule: cipher_loop.induct)
  case (1 data n i pos acc)
  show ?case
  proof (cases "i < n")
    case True
    with "1.prems" have two: "i + 2 \<le> n" by presburger
    with "1.prems" have "pos + 2 \<le> length data" by linarith
    moreover have "u16_pairs (take (n - i) (drop pos data)) =
        be16 (data ! pos) (data ! (pos + 1)) # u16_pairs (take (n - (i + 2)) (drop (pos + 2) data))"
      using u16_pairs_take_drop [of pos "pos + (n - i)" data] two calculation
      by (simp add: diff_diff_add)
    ultimately show ?thesis
      using "1.IH" [OF True, of "be16 (data ! pos) (data ! (pos + 1))"] "1.prems" two
      by (simp add: cipher_loop.simps [of data n i pos acc] True u16_at_in diff_diff_add)
  next
    case False
    then show ?thesis by (simp add: cipher_loop.simps [of data n i pos acc])
  qed
qed

section \<open>No panic\<close>

lemma safe_sni_loop: "stop \<le> length ext \<Longrightarrow> safe (sni_loop ext stop pos)"
proof (induction ext stop pos rule: sni_loop.induct)
  case (1 ext stop pos)
  show ?case
    by (subst sni_loop.simps)
      (use 1 in \<open>auto intro!: safe_ebind simp: not_less\<close>)
qed

lemma safe_parseSNI [simp]: "safe (parseSNI ext)"
  unfolding parseSNI_def by (auto intro!: safe_ebind safe_sni_loop)

lemma safe_alpn_loop: "stop \<le> length ext \<Longrightarrow> safe (alpn_loop ext stop pos ps)"
proof (induction ext stop pos ps rule: alpn_loop.induct)
  case (1 ext stop pos ps)
  show ?case
    by (subst alpn_loop.simps)
      (use 1 in \<open>auto intro!: safe_ebind simp: Let_def not_less\<close>)
qed

lemma safe_parseALPN [simp]: "safe (parseALPN ext)"
  unfolding parseALPN_def by (auto intro!: safe_ebind safe_alpn_loop)

lemma safe_parseSupportedVersions [simp]: "safe (parseSupportedVersions ext)"
  unfolding parseSupportedVersions_def
  by (auto intro!: safe_ebind simp: u16_loop_eq)

lemma safe_parseU16List [simp]: "safe (parseU16List ext)"
  unfolding parseU16List_def by (auto intro!: safe_ebind simp: u16_loop_eq)

lemma safe_parse_ext: "safe (parse_ext t ext ch)"
  unfolding parse_ext_def
  by (auto intro!: safe_ebind simp: u16_loop_eq point_loop_eq Suc_le_eq)

lemma safe_parse_version: "stop \<le> length data \<Longrightarrow> safe (parse_version data stop pos)"
  unfolding parse_version_def by (auto intro!: safe_ebind)

lemma safe_skip_session_id: "stop \<le> length data \<Longrightarrow> safe (skip_session_id data stop pos)"
  unfolding skip_session_id_def by (auto intro!: safe_ebind simp: Let_def)

lemma safe_parse_ciphers: "stop \<le> length data \<Longrightarrow> safe (parse_ciphers data stop pos)"
  unfolding parse_ciphers_def by (auto intro!: safe_ebind simp: cipher_loop_eq even_iff_mod_2_eq_zero)

lemma safe_skip_compression: "stop \<le> length data \<Longrightarrow> safe (skip_compression data stop pos)"
  unfolding skip_compression_def by (auto intro!: safe_ebind simp: Let_def)

lemma safe_ext_loop: "extEnd \<le> length data \<Longrightarrow> safe (ext_loop data extEnd pos ch)"
proof (induction data extEnd pos ch rule: ext_loop.induct)
  case (1 data extEnd pos ch)
  show ?case
    by (subst ext_loop.simps)
      (use 1 in \<open>auto intro!: safe_ebind safe_parse_ext simp: not_less\<close>)
qed

lemma safe_parse_extensions: "stop \<le> length data \<Longrightarrow> safe (parse_extensions data stop pos ch)"
  unfolding parse_extensions_def
  by (auto intro!: safe_ebind safe_ext_loop simp: Let_def not_less)

lemmas safe_stages =
  safe_parse_version safe_skip_session_id safe_parse_ciphers safe_skip_compression safe_parse_extensions

lemma safe_parse_body: "stop \<le> length data \<Longrightarrow> safe (parse_body data stop)"
  unfolding parse_body_def by (auto intro!: safe_ebind safe_stages split: prod.splits)

text \<open>
  C3: the ClientHello parser never indexes or slices outside its input, whatever bytes a
  client sends: no input makes it panic.
\<close>

theorem parseClientHello_no_panic: "parseClientHello data \<noteq> Inl Panic"
proof -
  have "safe (parseClientHello data)"
    unfolding parseClientHello_def
    by (auto intro!: safe_ebind safe_parse_body simp: Let_def not_less)
  then show ?thesis by (simp add: safe_def)
qed

end
