(* ===== verification/Hello_Encoding.thy ===== *)
theory Hello_Encoding
  imports Client_Hello
begin

text \<open>
  What a ClientHello means: typed messages, their wire encoding (RFC 8446, section 4.1.2, and
  the extension formats the parser knows), and the record the parser should produce for them.
  The encoder is the specification; the theorems say that \<open>parseClientHello\<close> inverts it, that
  it reads nothing but the declared handshake message, and that every cut of an accepted
  message is refused.
\<close>

section \<open>Typed messages\<close>

datatype hello_ext =
    ServerName string
  | Groups "u16 list"
  | PointFormats "u8 list"
  | SigAlgs "u16 list"
  | Alpn "string list"
  | Versions "u16 list"
  | OtherExt u16 "u8 list"

fun ext_type :: "hello_ext \<Rightarrow> u16" where
  "ext_type (ServerName _) = 0x0000"
| "ext_type (Groups _) = 0x000a"
| "ext_type (PointFormats _) = 0x000b"
| "ext_type (SigAlgs _) = 0x000d"
| "ext_type (Alpn _) = 0x0010"
| "ext_type (Versions _) = 0x002b"
| "ext_type (OtherExt t _) = t"

definition enc_proto :: "string \<Rightarrow> u8 list" where
  "enc_proto p = put8 (length p) # bytes_of_string p"

fun ext_body :: "hello_ext \<Rightarrow> u8 list" where
  "ext_body (ServerName h) = put16n (3 + length h) @ 0 # put16n (length h) @ bytes_of_string h"
| "ext_body (Groups vs) = put16n (2 * length vs) @ concat (map put16 vs)"
| "ext_body (PointFormats fs) = put8 (length fs) # fs"
| "ext_body (SigAlgs vs) = put16n (2 * length vs) @ concat (map put16 vs)"
| "ext_body (Alpn ps) =
     put16n (length (concat (map enc_proto ps))) @ concat (map enc_proto ps)"
| "ext_body (Versions vs) = put8 (2 * length vs) # concat (map put16 vs)"
| "ext_body (OtherExt _ b) = b"

definition known_ext_types :: "u16 list" where
  "known_ext_types = [0x0000, 0x000a, 0x000b, 0x000d, 0x0010, 0x002b]"

fun wf_ext :: "hello_ext \<Rightarrow> bool" where
  "wf_ext (ServerName h) \<longleftrightarrow> length h + 5 < 65536"
| "wf_ext (Groups vs) \<longleftrightarrow> 2 * length vs + 2 < 65536"
| "wf_ext (PointFormats fs) \<longleftrightarrow> length fs < 256"
| "wf_ext (SigAlgs vs) \<longleftrightarrow> 2 * length vs + 2 < 65536"
| "wf_ext (Alpn ps) \<longleftrightarrow>
     list_all (\<lambda>p. length p < 256) ps \<and> length (concat (map enc_proto ps)) + 2 < 65536"
| "wf_ext (Versions vs) \<longleftrightarrow> 2 * length vs < 256"
| "wf_ext (OtherExt t b) \<longleftrightarrow> t \<notin> set known_ext_types \<and> length b < 65536"

text \<open>What one extension adds to the parsed record.\<close>

fun ext_value :: "hello_ext \<Rightarrow> client_hello \<Rightarrow> client_hello" where
  "ext_value (ServerName h) ch = ch\<lparr>serverName := h\<rparr>"
| "ext_value (Groups vs) ch = ch\<lparr>ellipticCurves := ellipticCurves ch @ vs\<rparr>"
| "ext_value (PointFormats fs) ch = ch\<lparr>ecPointFormats := ecPointFormats ch @ fs\<rparr>"
| "ext_value (SigAlgs vs) ch = ch\<lparr>signatureAlgorithms := vs\<rparr>"
| "ext_value (Alpn ps) ch = ch\<lparr>alpnProtocols := ps\<rparr>"
| "ext_value (Versions vs) ch = ch\<lparr>supportedVersions := vs\<rparr>"
| "ext_value (OtherExt _ _) ch = ch"

definition ext_meaning :: "hello_ext \<Rightarrow> client_hello \<Rightarrow> client_hello" where
  "ext_meaning e ch = ext_value e (ch\<lparr>extensions := extensions ch @ [ext_type e]\<rparr>)"

definition encode_ext :: "hello_ext \<Rightarrow> u8 list" where
  "encode_ext e = put16 (ext_type e) @ put16n (length (ext_body e)) @ ext_body e"

record hello_msg =
  hm_version :: u16
  hm_random :: "u8 list"
  hm_session :: "u8 list"
  hm_ciphers :: "u16 list"
  hm_compression :: "u8 list"
  hm_exts :: "hello_ext list option"

definition encode_exts :: "hello_ext list option \<Rightarrow> u8 list" where
  "encode_exts eo = (case eo of None \<Rightarrow> []
     | Some es \<Rightarrow> (let b = concat (map encode_ext es) in put16n (length b) @ b))"

definition encode_body :: "hello_msg \<Rightarrow> u8 list" where
  "encode_body m =
     put16 (hm_version m) @ hm_random m @
     put8 (length (hm_session m)) # hm_session m @
     put16n (2 * length (hm_ciphers m)) @ concat (map put16 (hm_ciphers m)) @
     put8 (length (hm_compression m)) # hm_compression m @
     encode_exts (hm_exts m)"

text \<open>The handshake message with its four-byte header.\<close>

definition encode_handshake :: "hello_msg \<Rightarrow> u8 list" where
  "encode_handshake m = 1 # put24n (length (encode_body m)) @ encode_body m"

definition wf_msg :: "hello_msg \<Rightarrow> bool" where
  "wf_msg m \<longleftrightarrow>
     length (hm_random m) = 32 \<and> length (hm_session m) < 256 \<and>
     2 * length (hm_ciphers m) < 65536 \<and> length (hm_compression m) < 256 \<and>
     (case hm_exts m of None \<Rightarrow> True
      | Some es \<Rightarrow> list_all wf_ext es \<and> length (concat (map encode_ext es)) < 65536) \<and>
     length (encode_body m) < 16777216"

definition msg_meaning :: "hello_msg \<Rightarrow> client_hello" where
  "msg_meaning m =
     fold ext_meaning (case hm_exts m of None \<Rightarrow> [] | Some es \<Rightarrow> es)
       (hello_init (hm_version m) (hm_ciphers m))"

section \<open>Reading at a position\<close>

text \<open>
  The proofs follow the bytes that are left: \<open>drop pos data\<close> starts with the next field.
\<close>

lemma byte_at_drop: "drop p d = a # r \<Longrightarrow> byte_at d p = Inr a"
  by (metis byte_at_in drop_all leI list.distinct(1) nth_via_drop)

lemma len16_at_drop: "drop p d = a # b # r \<Longrightarrow> len16_at d p = Inr (be16n a b)"
proof -
  assume "drop p d = a # b # r"
  then have "drop (p + 1) d = b # r" by (metis add.commute drop_drop drop0 drop_Suc_Cons One_nat_def)
  with \<open>drop p d = a # b # r\<close> show ?thesis by (simp add: len16_at_def byte_at_drop)
qed

lemma u16_at_drop: "drop p d = a # b # r \<Longrightarrow> u16_at d p = Inr (be16 a b)"
proof -
  assume "drop p d = a # b # r"
  then have "drop (p + 1) d = b # r" by (metis add.commute drop_drop drop0 drop_Suc_Cons One_nat_def)
  with \<open>drop p d = a # b # r\<close> show ?thesis by (simp add: u16_at_def byte_at_drop)
qed

lemma len16_at_put: "drop p d = put16n n @ r \<Longrightarrow> n < 65536 \<Longrightarrow> len16_at d p = Inr n"
  by (simp add: put16n_def len16_at_drop be16n_put)

lemma u16_at_put: "drop p d = put16 v @ r \<Longrightarrow> u16_at d p = Inr v"
  by (simp add: put16_def put16n_def u16_at_drop be16_put)

lemma len16_at_put0 [simp]: "n < 65536 \<Longrightarrow> len16_at (put16n n @ r) 0 = Inr n"
  by (rule len16_at_put) simp_all

lemma drop_append_advance: "drop p d = xs @ r \<Longrightarrow> drop (p + length xs) d = r"
  by (metis add.commute append_eq_conv_conj drop_drop)

lemma drop_to: "drop p d = xs @ r \<Longrightarrow> q = p + length xs \<Longrightarrow> drop q d = r"
  by (simp add: drop_append_advance)

lemma drop_Cons_advance: "drop p d = x # r \<Longrightarrow> drop (p + 1) d = r"
  using drop_append_advance [of p d "[x]" r] by simp

lemma drop_bound: "drop p d = xs @ r \<Longrightarrow> xs \<noteq> [] \<Longrightarrow> p + length xs \<le> length d"
proof -
  assume eq: "drop p d = xs @ r" and ne: "xs \<noteq> []"
  then have "length d - p = length xs + length r"
    by (metis length_append length_drop)
  moreover have "0 < length xs" using ne by simp
  ultimately show ?thesis by linarith
qed

lemma slice_drop:
  assumes "drop p d = xs @ r" and "p \<le> length d"
  shows "slice d p (p + length xs) = Inr xs"
proof -
  have "length d - p = length xs + length r"
    using assms(1) by (metis length_append length_drop)
  then have "p + length xs \<le> length d" using assms(2) by linarith
  then show ?thesis using assms by simp
qed

section \<open>Extension bodies\<close>

lemma length_bytes_of_string [simp]: "length (bytes_of_string s) = length s"
  by (simp add: bytes_of_string_def)

lemma parseSNI_body: "length h + 5 < 65536 \<Longrightarrow> parseSNI (ext_body (ServerName h)) = Inr h"
proof -
  assume h: "length h + 5 < 65536"
  define e where "e = ext_body (ServerName h)"
  have e: "e = put16n (3 + length h) @ 0 # put16n (length h) @ bytes_of_string h"
    by (simp add: e_def)
  have len: "length e = 5 + length h" by (simp add: e)
  have "len16_at e 0 = Inr (3 + length h)"
    using h by (intro len16_at_put) (simp_all add: e)
  moreover have "byte_at e 2 = (Inr 0 :: u8 hello_go)"
    by (rule byte_at_drop) (simp add: e put16n_def)
  moreover have "len16_at e 3 = Inr (length h)"
    using h by (intro len16_at_put [where r = "bytes_of_string h"]) (simp_all add: e put16n_def)
  moreover have "slice e 5 (5 + length h) = (Inr (bytes_of_string h) :: u8 list hello_go)"
    using slice_drop [of 5 e "bytes_of_string h" "[]"] by (simp add: e put16n_def)
  ultimately have "parseSNI e = Inr h"
    by (simp add: parseSNI_def len sni_loop.simps [of e _ 2] min_def)
  then show ?thesis by (simp add: e_def)
qed

lemma alpn_loop_body:
  "drop pos e = concat (map enc_proto ps) \<Longrightarrow> list_all (\<lambda>p. length p < 256) ps \<Longrightarrow> pos \<le> length e \<Longrightarrow>
   alpn_loop e (length e) pos acc = Inr (acc @ ps)"
proof (induction ps arbitrary: pos acc)
  case Nil
  then show ?case by (simp add: alpn_loop.simps [of e])
next
  case (Cons p ps)
  let ?rest = "concat (map enc_proto ps)"
  have d: "drop pos e = put8 (length p) # bytes_of_string p @ ?rest"
    using Cons.prems(1) by (simp add: enc_proto_def [of p])
  have d1: "drop (pos + 1) e = bytes_of_string p @ ?rest" by (rule drop_Cons_advance [OF d])
  have d2: "drop (pos + 1 + length p) e = ?rest"
    using drop_append_advance [OF d1] by simp
  have "length e - pos = 1 + length p + length ?rest"
    using arg_cong [OF d, of length] by simp
  then have bound: "pos + 1 + length p \<le> length e" by linarith
  have "slice e (pos + 1) (pos + 1 + length p) = (Inr (bytes_of_string p) :: u8 list hello_go)"
    using slice_drop [OF d1] bound by simp
  then show ?case
    using Cons.IH [OF d2 _ bound, of "acc @ [p]"] Cons.prems(2) bound
    by (simp add: alpn_loop.simps [of e "length e" pos acc] byte_at_drop [OF d])
qed

lemma parseALPN_body: "wf_ext (Alpn ps) \<Longrightarrow> parseALPN (ext_body (Alpn ps)) = Inr ps"
proof -
  assume wf: "wf_ext (Alpn ps)"
  define e where "e = ext_body (Alpn ps)"
  have e: "e = put16n (length (concat (map enc_proto ps))) @ concat (map enc_proto ps)"
    by (simp add: e_def)
  have d: "drop 2 e = concat (map enc_proto ps)" by (simp add: e put16n_def)
  have len: "length e = 2 + length (concat (map enc_proto ps))" by (simp add: e)
  have "len16_at e 0 = Inr (length (concat (map enc_proto ps)))"
    using wf by (intro len16_at_put) (simp_all add: e)
  moreover have "alpn_loop e (length e) 2 [] = Inr ps"
    using alpn_loop_body [OF d] wf len by simp
  ultimately have "parseALPN e = Inr ps"
    using len by (simp add: parseALPN_def)
  then show ?thesis by (simp add: e_def)
qed

lemma parseU16List_body:
  "2 * length vs + 2 < 65536 \<Longrightarrow> parseU16List (ext_body (SigAlgs vs)) = Inr vs"
  by (simp add: parseU16List_def u16_loop_eq)

lemma parseSupportedVersions_body:
  "2 * length vs < 256 \<Longrightarrow> parseSupportedVersions (ext_body (Versions vs)) = Inr vs"
proof -
  assume vs: "2 * length vs < 256"
  have "Suc (2 * length vs) \<noteq> 2" by presburger
  with vs show ?thesis
    by (simp add: parseSupportedVersions_def u16_loop_eq)
qed

lemma parse_ext_value: "wf_ext e \<Longrightarrow> parse_ext (ext_type e) (ext_body e) ch = Inr (ext_value e ch)"
proof (cases e)
  case (ServerName h)
  assume "wf_ext e"
  with ServerName show ?thesis
    using parseSNI_body [of h] by (simp add: parse_ext_def)
next
  case (Groups vs)
  assume "wf_ext e"
  with Groups show ?thesis
    by (simp add: parse_ext_def u16_loop_eq)
next
  case (PointFormats fs)
  assume "wf_ext e"
  with PointFormats show ?thesis
    by (simp add: parse_ext_def point_loop_eq)
next
  case (SigAlgs vs)
  assume "wf_ext e"
  with SigAlgs show ?thesis
    using parseU16List_body [of vs] by (simp add: parse_ext_def)
next
  case (Alpn ps)
  assume "wf_ext e"
  with Alpn show ?thesis
    using parseALPN_body [of ps] by (simp add: parse_ext_def)
next
  case (Versions vs)
  assume "wf_ext e"
  with Versions show ?thesis
    using parseSupportedVersions_body [of vs] by (simp add: parse_ext_def)
next
  case (OtherExt t b)
  assume "wf_ext e"
  with OtherExt show ?thesis by (simp add: parse_ext_def known_ext_types_def)
qed

section \<open>The whole message\<close>

lemma length_ext_body: "wf_ext e \<Longrightarrow> length (ext_body e) < 65536"
  by (cases e) auto

lemma ext_loop_encode:
  "drop pos data = concat (map encode_ext es) @ r \<Longrightarrow> list_all wf_ext es \<Longrightarrow>
   stop = pos + length (concat (map encode_ext es)) \<Longrightarrow> pos \<le> length data \<Longrightarrow>
   ext_loop data stop pos ch = Inr (fold ext_meaning es ch)"
proof (induction es arbitrary: pos ch)
  case Nil
  then show ?case by (simp add: ext_loop.simps [of data])
next
  case (Cons e es)
  let ?b = "ext_body e" and ?rest = "concat (map encode_ext es) @ r"
  have wf: "wf_ext e" "length ?b < 65536" "list_all wf_ext es"
    using Cons.prems(2) length_ext_body by auto
  have d0: "drop pos data = put16 (ext_type e) @ put16n (length ?b) @ ?b @ ?rest"
    using Cons.prems(1) by (simp add: encode_ext_def [of e])
  have d2: "drop (pos + 2) data = put16n (length ?b) @ ?b @ ?rest"
    by (rule drop_to [OF d0]) simp
  have d4: "drop (pos + 4) data = ?b @ ?rest"
    by (rule drop_to [OF d2]) simp
  have d: "drop (pos + 4 + length ?b) data = ?rest"
    by (rule drop_to [OF d4]) simp
  have stop: "stop = pos + 4 + length ?b + length (concat (map encode_ext es))"
    using Cons.prems(3) by (simp add: encode_ext_def [of e])
  have "length data - pos = 4 + length ?b + length ?rest"
    using arg_cong [OF d0, of length] by simp
  then have bound: "pos + 4 + length ?b \<le> length data" by linarith
  have "slice data (pos + 4) (pos + 4 + length ?b) = (Inr ?b :: u8 list hello_go)"
    using slice_drop [OF d4] bound by simp
  moreover have "len16_at data (pos + 2) = Inr (length ?b)"
    by (rule len16_at_put [OF d2 wf(2)])
  ultimately have "ext_loop data stop pos ch = ext_loop data stop (pos + 4 + length ?b) (ext_meaning e ch)"
    unfolding ext_loop.simps [of data stop pos ch]
    by (simp add: stop u16_at_put [OF d0] parse_ext_value wf ext_meaning_def)
  with Cons.IH [OF d wf(3) stop bound] show ?case by simp
qed

lemma parse_version_encode:
  "drop pos data = put16 v @ r \<Longrightarrow> pos + 34 \<le> stop \<Longrightarrow>
   parse_version data stop pos = Inr (v, pos + 34)"
  by (simp add: parse_version_def u16_at_put)

lemma skip_session_id_encode:
  "drop pos data = put8 n # r \<Longrightarrow> n < 256 \<Longrightarrow> pos + 1 + n \<le> stop \<Longrightarrow>
   skip_session_id data stop pos = Inr (pos + 1 + n)"
  by (simp add: skip_session_id_def byte_at_drop)

lemma skip_compression_encode:
  "drop pos data = put8 n # r \<Longrightarrow> n < 256 \<Longrightarrow> pos + 1 + n \<le> stop \<Longrightarrow>
   skip_compression data stop pos = Inr (pos + 1 + n)"
  by (simp add: skip_compression_def byte_at_drop)

lemma parse_ciphers_encode:
  assumes d: "drop pos data = put16n (2 * length cs) @ concat (map put16 cs) @ r"
    and n: "2 * length cs < 65536" and stop: "pos + 2 + 2 * length cs \<le> stop" "stop \<le> length data"
  shows "parse_ciphers data stop pos = Inr (cs, pos + 2 + 2 * length cs)"
proof -
  have d2: "drop (pos + 2) data = concat (map put16 cs) @ r"
    by (rule drop_to [OF d]) simp
  show ?thesis
    using stop by (simp add: parse_ciphers_def len16_at_put [OF d n] cipher_loop_eq d2 [simplified])
qed

lemma parse_extensions_encode:
  assumes d: "drop pos data = encode_exts eo @ r" and stop: "stop = pos + length (encode_exts eo)"
    and wf: "case eo of None \<Rightarrow> True
      | Some es \<Rightarrow> list_all wf_ext es \<and> length (concat (map encode_ext es)) < 65536"
    and pos: "pos \<le> length data"
  shows "parse_extensions data stop pos ch =
    Inr (fold ext_meaning (case eo of None \<Rightarrow> [] | Some es \<Rightarrow> es) ch)"
proof (cases eo)
  case None
  then show ?thesis using stop by (simp add: parse_extensions_def encode_exts_def)
next
  case (Some es)
  let ?b = "concat (map encode_ext es)"
  have d0: "drop pos data = put16n (length ?b) @ ?b @ r"
    using d Some by (simp add: encode_exts_def Let_def)
  have d2: "drop (pos + 2) data = ?b @ r" by (rule drop_to [OF d0]) simp
  have "length data - pos = 2 + length ?b + length r"
    using arg_cong [OF d0, of length] by simp
  then have "pos + 2 \<le> length data" by linarith
  moreover have "stop = pos + 2 + length ?b"
    using stop Some by (simp add: encode_exts_def Let_def)
  moreover have "len16_at data pos = Inr (length ?b)"
    using wf Some by (intro len16_at_put [OF d0]) simp
  ultimately show ?thesis
    using ext_loop_encode [OF d2] wf Some by (simp add: parse_extensions_def Let_def)
qed

lemma parse_body_encode:
  assumes d: "drop 9 data = encode_body m @ r" and wf: "wf_msg m"
  shows "parse_body data (9 + length (encode_body m)) = Inr (msg_meaning m)"
proof -
  let ?sid = "hm_session m" and ?cs = "hm_ciphers m" and ?comp = "hm_compression m"
  let ?stop = "9 + length (encode_body m)"
  note lens = wf [unfolded wf_msg_def]
  have len: "length (encode_body m) =
      34 + (1 + length ?sid) + (2 + 2 * length ?cs) + (1 + length ?comp) + length (encode_exts (hm_exts m))"
    using lens by (simp add: encode_body_def)
  have "encode_body m \<noteq> []" using len by auto
  then have le: "?stop \<le> length data" by (rule drop_bound [OF d])
  have d0: "drop 9 data = put16 (hm_version m) @ hm_random m @ put8 (length ?sid) # ?sid @
      put16n (2 * length ?cs) @ concat (map put16 ?cs) @ put8 (length ?comp) # ?comp @
      encode_exts (hm_exts m) @ r"
    using d by (simp add: encode_body_def)
  have d1: "drop (9 + 34) data = put8 (length ?sid) # ?sid @ put16n (2 * length ?cs) @
      concat (map put16 ?cs) @ put8 (length ?comp) # ?comp @ encode_exts (hm_exts m) @ r"
    by (rule drop_to [of 9 data "put16 (hm_version m) @ hm_random m"]) (use d0 lens in simp_all)
  let ?p2 = "9 + 34 + 1 + length ?sid"
  have d2: "drop ?p2 data = put16n (2 * length ?cs) @
      concat (map put16 ?cs) @ put8 (length ?comp) # ?comp @ encode_exts (hm_exts m) @ r"
    by (rule drop_to [of "9 + 34" data "put8 (length ?sid) # ?sid"]) (use d1 in simp_all)
  let ?p3 = "?p2 + 2 + 2 * length ?cs"
  have d3: "drop ?p3 data = put8 (length ?comp) # ?comp @ encode_exts (hm_exts m) @ r"
    by (rule drop_to [of ?p2 data "put16n (2 * length ?cs) @ concat (map put16 ?cs)"]) (use d2 in simp_all)
  let ?p4 = "?p3 + 1 + length ?comp"
  have d4: "drop ?p4 data = encode_exts (hm_exts m) @ r"
    by (rule drop_to [of ?p3 data "put8 (length ?comp) # ?comp"]) (use d3 in simp_all)
  have "parse_version data ?stop 9 = Inr (hm_version m, 9 + 34)"
    using parse_version_encode [OF d0, of ?stop] len by simp
  moreover have "skip_session_id data ?stop (9 + 34) = Inr ?p2"
    using skip_session_id_encode [OF d1, of ?stop] len lens by simp
  moreover have "parse_ciphers data ?stop ?p2 = Inr (?cs, ?p3)"
    using lens len le by (intro parse_ciphers_encode [OF d2]) auto
  moreover have "skip_compression data ?stop ?p3 = Inr ?p4"
    using lens len by (intro skip_compression_encode [OF d3]) auto
  moreover have "parse_extensions data ?stop ?p4 (hello_init (hm_version m) ?cs) = Inr (msg_meaning m)"
    unfolding msg_meaning_def using lens len le by (intro parse_extensions_encode [OF d4]) auto
  ultimately show ?thesis by (simp add: parse_body_def)
qed

lemma parse_encoded:
  assumes "wf_msg m" and "length h4 = 4"
  shows "parseClientHello (0x16 # h4 @ encode_handshake m @ rest) = Inr (msg_meaning m)"
proof -
  let ?n = "length (encode_body m)"
  define data where "data = 0x16 # h4 @ encode_handshake m @ rest"
  have small: "?n < 16777216" using assms(1) by (simp add: wf_msg_def)
  obtain a b c d where h4: "h4 = [a, b, c, d]"
    using assms(2) by (auto simp: length_Suc_conv numeral_eq_Suc)
  have data: "data = [0x16, a, b, c, d, 1] @ put24n ?n @ encode_body m @ rest"
    by (simp add: data_def h4 encode_handshake_def)
  have bytes: "data ! 0 = 0x16" "data ! 5 = 1" "be24n (data ! 6) (data ! 7) (data ! 8) = ?n"
    using be24n_put [OF small] by (simp_all add: data put24n_def)
  have len: "length data = 9 + ?n + length rest" by (simp add: data)
  have "drop 9 data = encode_body m @ rest" by (simp add: data put24n_def)
  then have "parse_body data (9 + ?n) = Inr (msg_meaning m)"
    by (rule parse_body_encode [OF _ assms(1)])
  then have "parseClientHello data = Inr (msg_meaning m)"
    using bytes len by (simp add: parseClientHello_def Let_def)
  then show ?thesis by (simp add: data_def)
qed

text \<open>
  C5: parsing undoes encoding. For every well-formed ClientHello message, whatever the four
  remaining record-header bytes and whatever follows the message, \<open>parseClientHello\<close> returns
  exactly the version, cipher suites, extension types, curves, point formats, server name,
  ALPN protocols, supported versions and signature algorithms of the message.
\<close>

theorem parseClientHello_encode:
  assumes "wf_msg m" and "length h4 = 4"
  shows "parseClientHello (0x16 # h4 @ encode_handshake m @ rest) = Inr (msg_meaning m)"
  by (rule parse_encoded [OF assms])

definition sample_msg :: hello_msg where
  "sample_msg = \<lparr>hm_version = 0x0303, hm_random = replicate 32 7, hm_session = [9, 9],
     hm_ciphers = [0x1301, 0x1302], hm_compression = [0],
     hm_exts = Some [ServerName ''mail.ex'', Groups [29, 23], PointFormats [0], SigAlgs [0x0403],
       Alpn [''h2'', ''x''], OtherExt 0x0017 [], Versions [0x0304, 0x0303]]\<rparr>"

lemma parseClientHello_encode_witness:
  "parseClientHello (0x16 # [3, 1, 0, 0] @ encode_handshake sample_msg @ [0xff]) = Inr
     \<lparr>ch_version = 0x0303, cipherSuites = [0x1301, 0x1302],
      extensions = [0x0000, 0x000a, 0x000b, 0x000d, 0x0010, 0x0017, 0x002b],
      ellipticCurves = [29, 23], ecPointFormats = [0], serverName = ''mail.ex'',
      alpnProtocols = [''h2'', ''x''], supportedVersions = [0x0304, 0x0303],
      signatureAlgorithms = [0x0403]\<rparr>"
proof -
  have "wf_msg sample_msg"
    by (simp add: sample_msg_def wf_msg_def encode_body_def encode_exts_def encode_ext_def enc_proto_def known_ext_types_def)
  from parseClientHello_encode [OF this, of "[3, 1, 0, 0]" "[0xff]"] show ?thesis
    by (simp add: sample_msg_def msg_meaning_def ext_meaning_def hello_init_def)
qed

section \<open>Only the declared message is read\<close>

text \<open>
  \<open>grows m m'\<close>: \<open>m'\<close> is the same computation on a longer input; it can differ only where
  \<open>m\<close> read past its end.
\<close>

definition grows :: "('e, 'a) go \<Rightarrow> ('e, 'a) go \<Rightarrow> bool" where
  "grows m m' \<longleftrightarrow> m = Inl Panic \<or> m' = m"

lemma grows_refl [simp, intro]: "grows m m"
  by (simp add: grows_def)

lemma grows_ebind:
  "grows m m' \<Longrightarrow> (\<And>x. m = Inr x \<Longrightarrow> grows (f x) (f' x)) \<Longrightarrow> grows (ebind m f) (ebind m' f')"
  by (cases m) (auto simp: grows_def)

lemma grows_if [intro]:
  "(c \<Longrightarrow> grows a a') \<Longrightarrow> (\<not> c \<Longrightarrow> grows b b') \<Longrightarrow> grows (if c then a else b) (if c then a' else b')"
  by simp

lemma grows_byte_at [simp]: "grows (byte_at d i) (byte_at (d @ x) i)"
  by (auto simp: grows_def byte_at_def nth_append)

lemma grows_slice [simp]: "grows (slice d i j) (slice (d @ x) i j)"
  by (auto simp: grows_def slice_def)

lemma grows_u16_at [simp]: "grows (u16_at d i) (u16_at (d @ x) i)"
  unfolding u16_at_def by (intro grows_ebind) simp_all

lemma grows_len16_at [simp]: "grows (len16_at d i) (len16_at (d @ x) i)"
  unfolding len16_at_def by (intro grows_ebind) simp_all

lemma grows_cipher_loop [simp]: "grows (cipher_loop d n i pos acc) (cipher_loop (d @ x) n i pos acc)"
proof (induction d n i pos acc rule: cipher_loop.induct)
  case (1 d n i pos acc)
  then show ?case
    unfolding cipher_loop.simps [of _ n i pos acc] by (intro grows_if grows_ebind) auto
qed

lemma grows_ext_loop [simp]: "grows (ext_loop d stop pos ch) (ext_loop (d @ x) stop pos ch)"
proof (induction d stop pos ch rule: ext_loop.induct)
  case (1 d stop pos ch)
  then show ?case
    unfolding ext_loop.simps [of _ stop pos ch] by (intro grows_if grows_ebind) auto
qed

lemma grows_stages [simp]:
  "grows (parse_version d stop pos) (parse_version (d @ x) stop pos)"
  "grows (skip_session_id d stop pos) (skip_session_id (d @ x) stop pos)"
  "grows (parse_ciphers d stop pos) (parse_ciphers (d @ x) stop pos)"
  "grows (skip_compression d stop pos) (skip_compression (d @ x) stop pos)"
  "grows (parse_extensions d stop pos ch) (parse_extensions (d @ x) stop pos ch)"
  unfolding parse_version_def skip_session_id_def parse_ciphers_def skip_compression_def
    parse_extensions_def Let_def
  by (intro grows_if grows_ebind grows_refl; simp)+

lemma grows_parse_body [simp]: "grows (parse_body d stop) (parse_body (d @ x) stop)"
  unfolding parse_body_def by (auto intro!: grows_ebind split: prod.splits)

lemma parse_body_append: "stop \<le> length d \<Longrightarrow> parse_body (d @ x) stop = parse_body d stop"
  using safe_parse_body [of stop d] grows_parse_body [of d stop x]
  by (auto simp: safe_def grows_def)

text \<open>The handshake length a message declares.\<close>

definition declared_len :: "u8 list \<Rightarrow> nat" where
  "declared_len data = be24n (data ! 6) (data ! 7) (data ! 8)"

lemma parseClientHello_eq:
  "parseClientHello data =
    (if length data < 9 \<or> data ! 0 \<noteq> 0x16 \<or> data ! 5 \<noteq> 1 then fail NotClientHello
     else if length data < 9 + declared_len data
     then fail (TruncatedClientHello (length data - 9) (declared_len data))
     else parse_body data (9 + declared_len data))"
proof (cases "length data < 9")
  case False
  then have "data \<noteq> []" "5 < length data" "6 < length data" "7 < length data" "8 < length data"
    by auto
  with False show ?thesis by (simp add: parseClientHello_def declared_len_def Let_def)
qed (simp add: parseClientHello_def)

lemma parseClientHello_Inr_iff:
  "parseClientHello data = Inr ch \<longleftrightarrow>
     9 + declared_len data \<le> length data \<and> data ! 0 = 0x16 \<and> data ! 5 = 1 \<and>
     parse_body data (9 + declared_len data) = Inr ch"
  by (auto simp: parseClientHello_eq)

text \<open>
  C8: an accepted ClientHello is complete. If \<open>parseClientHello\<close> accepts \<open>data\<close>, then \<open>data\<close>
  holds the whole declared handshake message, the result depends on these bytes only
  (anything may follow them), and every proper cut of the message is refused, as a
  truncated ClientHello once the nine header bytes are there. No partial handshake can
  reach the fingerprint store.
\<close>

theorem parseClientHello_complete:
  assumes "parseClientHello data = Inr ch"
  shows "9 + declared_len data \<le> length data \<and>
    parseClientHello (take (9 + declared_len data) data @ junk) = Inr ch \<and>
    (\<forall>k < 9 + declared_len data. parseClientHello (take k data) =
       fail (if k < 9 then NotClientHello else TruncatedClientHello (k - 9) (declared_len data)))"
proof (intro conjI allI impI)
  let ?n = "9 + declared_len data" and ?msg = "take (9 + declared_len data) data"
  note acc = assms [unfolded parseClientHello_Inr_iff]
  then show "?n \<le> length data" by simp
  have msg: "length ?msg = ?n" "declared_len (?msg @ junk) = declared_len data"
    using acc by (simp_all add: declared_len_def nth_append)
  have "parse_body (?msg @ drop ?n data) ?n = parse_body ?msg ?n"
    using msg by (intro parse_body_append) simp
  then have "parse_body ?msg ?n = Inr ch" using acc by simp
  then have "parse_body (?msg @ junk) ?n = Inr ch"
    using msg parse_body_append [of ?n ?msg junk] by simp
  then show "parseClientHello (?msg @ junk) = Inr ch"
    using acc msg by (simp add: parseClientHello_Inr_iff nth_append)
next
  fix k
  assume "k < 9 + declared_len data"
  then show "parseClientHello (take k data) =
      fail (if k < 9 then NotClientHello else TruncatedClientHello (k - 9) (declared_len data))"
    using assms [unfolded parseClientHello_Inr_iff]
    by (auto simp: parseClientHello_eq declared_len_def)
qed

section \<open>A small ClientHello\<close>

text \<open>
  One record with a 50-byte message: TLS 1.2, one cipher suite and \<open>supported_versions\<close>
  offering TLS 1.3. The examples of later theories use it.
\<close>

definition small_bytes :: "u8 list" where
  "small_bytes = [0x16, 3, 1, 0, 54, 1, 0, 0, 50, 3, 3] @ replicate 32 7 @
     [0, 0, 2, 0x13, 1, 1, 0, 0, 7, 0, 0x2b, 0, 3, 2, 3, 4]"

definition small_ch :: client_hello where
  "small_ch = \<lparr>ch_version = 0x0303, cipherSuites = [0x1301], extensions = [0x002b], ellipticCurves = [],
     ecPointFormats = [], serverName = [], alpnProtocols = [], supportedVersions = [0x0304],
     signatureAlgorithms = []\<rparr>"

lemma small_stages:
  "length small_bytes = 59" "declared_len small_bytes = 50"
  "small_bytes ! 0 = 0x16" "small_bytes ! 5 = 1"
  "parse_version small_bytes 59 9 = Inr (0x0303, 43)"
  "skip_session_id small_bytes 59 43 = Inr 44"
  "parse_ciphers small_bytes 59 44 = Inr ([0x1301], 48)"
  "skip_compression small_bytes 59 48 = Inr 50"
  "parse_extensions small_bytes 59 50 (hello_init 0x0303 [0x1301]) = Inr small_ch"
  by (simp_all add: small_bytes_def parse_version_def skip_session_id_def parse_ciphers_def skip_compression_def
   u16_at_def len16_at_def cipher_loop.simps nth_append be16_def be16n_def Let_def declared_len_def be24n_def
   parse_extensions_def ext_loop.simps slice_def parse_ext_def parseSupportedVersions_def u16_loop.simps
   hello_init_def small_ch_def)

lemma small_parse: "parseClientHello small_bytes = Inr small_ch"
  by (simp add: parseClientHello_eq small_stages parse_body_def)

lemma parseClientHello_complete_witness:
  "parseClientHello (take 59 small_bytes @ [1, 2, 3]) = Inr small_ch \<and>
   parseClientHello (take 58 small_bytes) = fail (TruncatedClientHello 49 50)"
  using parseClientHello_complete [OF small_parse, of "[1, 2, 3]"] by (simp add: small_stages)

end
