(* ===== verification/Digest.thy ===== *)
theory Digest
  imports Go_Strings
begin

text \<open>
  The two digests of the Go standard library that the fingerprints use: \<open>crypto/md5\<close> for
  JA3 and \<open>crypto/sha256\<close> for JA4 and for the SMTP behaviour fingerprint. Both are the
  published algorithms (RFC 1321, FIPS 180-4) over 32-bit words; the components rely on
  nothing but the length of the result, which is what the lemmas here state. With the
  digests defined, every fingerprint of the model is a closed executable term.
\<close>

section \<open>Padding and words\<close>

definition pad_zeros :: "nat \<Rightarrow> nat" where
  "pad_zeros n = (119 - n mod 64) mod 64"

fun be_bytes :: "nat \<Rightarrow> nat \<Rightarrow> u8 list" where
  "be_bytes 0 n = []"
| "be_bytes (Suc k) n = be_bytes k (n div 256) @ [word_of_nat (n mod 256)]"

definition le_bytes :: "nat \<Rightarrow> nat \<Rightarrow> u8 list" where
  "le_bytes k n = rev (be_bytes k n)"

definition be_value :: "u8 list \<Rightarrow> nat" where
  "be_value = foldl (\<lambda>a b. a * 256 + unat b) 0"

lemma length_be_bytes [simp]: "length (be_bytes k n) = k"
  by (induction k arbitrary: n) auto

lemma length_le_bytes [simp]: "length (le_bytes k n) = k"
  by (simp add: le_bytes_def)

text \<open>Cut a byte list into blocks of \<open>n\<close> bytes.\<close>

fun blocks :: "nat \<Rightarrow> 'a list \<Rightarrow> 'a list list" where
  "blocks n xs = (if n = 0 \<or> xs = [] then [] else take n xs # blocks n (drop n xs))"

declare blocks.simps [simp del]

section \<open>SHA-256\<close>

record sha_state =
  sha_a :: u32
  sha_b :: u32
  sha_c :: u32
  sha_d :: u32
  sha_e :: u32
  sha_f :: u32
  sha_g :: u32
  sha_h :: u32

definition sha_init :: sha_state where
  "sha_init = \<lparr>sha_a = 0x6a09e667, sha_b = 0xbb67ae85, sha_c = 0x3c6ef372, sha_d = 0xa54ff53a,
     sha_e = 0x510e527f, sha_f = 0x9b05688c, sha_g = 0x1f83d9ab, sha_h = 0x5be0cd19\<rparr>"

text \<open>The first 32 bits of the fractional parts of the cube roots of the first 64 primes.\<close>

definition sha_k :: "u32 list" where
  "sha_k =
    [1116352408, 1899447441, 3049323471, 3921009573, 961987163, 1508970993, 2453635748, 2870763221,
     3624381080, 310598401, 607225278, 1426881987, 1925078388, 2162078206, 2614888103, 3248222580,
     3835390401, 4022224774, 264347078, 604807628, 770255983, 1249150122, 1555081692, 1996064986,
     2554220882, 2821834349, 2952996808, 3210313671, 3336571891, 3584528711, 113926993, 338241895,
     666307205, 773529912, 1294757372, 1396182291, 1695183700, 1986661051, 2177026350, 2456956037,
     2730485921, 2820302411, 3259730800, 3345764771, 3516065817, 3600352804, 4094571909, 275423344,
     430227734, 506948616, 659060556, 883997877, 958139571, 1322822218, 1537002063, 1747873779,
     1955562222, 2024104815, 2227730452, 2361852424, 2428436474, 2756734187, 3204031479, 3329325298]"

fun sha_schedule :: "nat \<Rightarrow> u32 list \<Rightarrow> u32 list" where
  "sha_schedule 0 ws = ws"
| "sha_schedule (Suc n) ws =
     (let t = length ws; x = ws ! (t - 15); y = ws ! (t - 2);
          s0 = ((word_rotr 7 x XOR word_rotr 18 x) XOR drop_bit 3 x);
          s1 = ((word_rotr 17 y XOR word_rotr 19 y) XOR drop_bit 10 y)
      in sha_schedule n (ws @ [ws ! (t - 16) + s0 + ws ! (t - 7) + s1]))"

definition sha_round :: "sha_state \<Rightarrow> u32 \<times> u32 \<Rightarrow> sha_state" where
  "sha_round s kw =
     (let e = sha_e s; a = sha_a s;
          big1 = ((word_rotr 6 e XOR word_rotr 11 e) XOR word_rotr 25 e);
          ch = ((e AND sha_f s) XOR (NOT e AND sha_g s));
          t1 = sha_h s + big1 + ch + fst kw + snd kw;
          big0 = ((word_rotr 2 a XOR word_rotr 13 a) XOR word_rotr 22 a);
          maj = (((a AND sha_b s) XOR (a AND sha_c s)) XOR (sha_b s AND sha_c s))
      in \<lparr>sha_a = t1 + (big0 + maj), sha_b = a, sha_c = sha_b s, sha_d = sha_c s,
          sha_e = sha_d s + t1, sha_f = e, sha_g = sha_f s, sha_h = sha_g s\<rparr>)"

definition sha_block :: "sha_state \<Rightarrow> u8 list \<Rightarrow> sha_state" where
  "sha_block s b =
     (let ws = sha_schedule 48 (map (\<lambda>c. word_of_nat (be_value c)) (blocks 4 b));
          r = foldl sha_round s (zip sha_k ws)
      in \<lparr>sha_a = sha_a s + sha_a r, sha_b = sha_b s + sha_b r, sha_c = sha_c s + sha_c r, sha_d = sha_d s + sha_d r,
          sha_e = sha_e s + sha_e r, sha_f = sha_f s + sha_f r, sha_g = sha_g s + sha_g r, sha_h = sha_h s + sha_h r\<rparr>)"

text \<open>\<open>sha256.Sum256([]byte(s))\<close>.\<close>

definition sha256 :: "string \<Rightarrow> u8 list" where
  "sha256 m =
     (let bs = bytes_of_string m; n = length bs;
          padded = bs @ [0x80] @ replicate (pad_zeros n) 0 @ be_bytes 8 (8 * n);
          r = foldl sha_block sha_init (blocks 64 padded)
      in concat (map (\<lambda>w. be_bytes 4 (unat w)) [sha_a r, sha_b r, sha_c r, sha_d r, sha_e r, sha_f r, sha_g r, sha_h r]))"

lemma length_sha256 [simp]: "length (sha256 m) = 32"
  by (simp add: sha256_def Let_def)

section \<open>MD5\<close>

type_synonym md5_state = "u32 \<times> u32 \<times> u32 \<times> u32"

definition md5_k :: "u32 list" where
  "md5_k =
    [0xd76aa478, 0xe8c7b756, 0x242070db, 0xc1bdceee, 0xf57c0faf, 0x4787c62a,
     0xa8304613, 0xfd469501, 0x698098d8, 0x8b44f7af, 0xffff5bb1, 0x895cd7be,
     0x6b901122, 0xfd987193, 0xa679438e, 0x49b40821, 0xf61e2562, 0xc040b340,
     0x265e5a51, 0xe9b6c7aa, 0xd62f105d, 0x02441453, 0xd8a1e681, 0xe7d3fbc8,
     0x21e1cde6, 0xc33707d6, 0xf4d50d87, 0x455a14ed, 0xa9e3e905, 0xfcefa3f8,
     0x676f02d9, 0x8d2a4c8a, 0xfffa3942, 0x8771f681, 0x6d9d6122, 0xfde5380c,
     0xa4beea44, 0x4bdecfa9, 0xf6bb4b60, 0xbebfbc70, 0x289b7ec6, 0xeaa127fa,
     0xd4ef3085, 0x04881d05, 0xd9d4d039, 0xe6db99e5, 0x1fa27cf8, 0xc4ac5665,
     0xf4292244, 0x432aff97, 0xab9423a7, 0xfc93a039, 0x655b59c3, 0x8f0ccc92,
     0xffeff47d, 0x85845dd1, 0x6fa87e4f, 0xfe2ce6e0, 0xa3014314, 0x4e0811a1,
     0xf7537e82, 0xbd3af235, 0x2ad7d2bb, 0xeb86d391]"

definition md5_shift :: "nat list" where
  "md5_shift = concat (replicate 4 [7, 12, 17, 22] @ replicate 4 [5, 9, 14, 20] @
     replicate 4 [4, 11, 16, 23] @ replicate 4 [6, 10, 15, 21])"

definition md5_round :: "u32 list \<Rightarrow> md5_state \<Rightarrow> nat \<Rightarrow> md5_state" where
  "md5_round ws st i = (case st of (a, b, c, d) \<Rightarrow>
     (let f = (if i < 16 then ((b AND c) OR (NOT b AND d))
               else if i < 32 then ((d AND b) OR (NOT d AND c))
               else if i < 48 then ((b XOR c) XOR d)
               else (c XOR (b OR NOT d)));
          g = (if i < 16 then i
               else if i < 32 then (5 * i + 1) mod 16
               else if i < 48 then (3 * i + 5) mod 16
               else (7 * i) mod 16)
      in (d, b + word_rotl (md5_shift ! i) (f + a + md5_k ! i + ws ! g), b, c)))"

definition md5_block :: "md5_state \<Rightarrow> u8 list \<Rightarrow> md5_state" where
  "md5_block st blk =
     (let ws = map (\<lambda>c. word_of_nat (be_value (rev c))) (blocks 4 blk)
      in case (st, foldl (md5_round ws) st [0..<64]) of
           ((a0, b0, c0, d0), (a, b, c, d)) \<Rightarrow> (a0 + a, b0 + b, c0 + c, d0 + d))"

text \<open>\<open>md5.Sum([]byte(s))\<close>.\<close>

definition md5 :: "string \<Rightarrow> u8 list" where
  "md5 m =
     (let bs = bytes_of_string m; n = length bs;
          padded = bs @ [0x80] @ replicate (pad_zeros n) 0 @ le_bytes 8 (8 * n)
      in case foldl md5_block (0x67452301, 0xefcdab89, 0x98badcfe, 0x10325476) (blocks 64 padded) of
           (a, b, c, d) \<Rightarrow> concat (map (\<lambda>w. le_bytes 4 (unat w)) [a, b, c, d]))"

lemma length_md5 [simp]: "length (md5 m) = 16"
  by (simp add: md5_def Let_def split: prod.split)

end
