(* ===== verification/Fingerprints.thy ===== *)
theory Fingerprints
  imports Hello_Encoding Digest
begin

text \<open>
  The two TLS client fingerprints: JA3 (\<open>ja3FromHello\<close> in \<open>ja3.go\<close>) and JA4 (\<open>computeJA4\<close>
  in \<open>ja4.go\<close>), the shape checks \<open>isJA3Fingerprint\<close> and \<open>isJA4Fingerprint\<close>, and
  \<open>extractTLSMetadata\<close>, which selects the store key. The lemmas say what each fingerprint
  identifies and what it ignores. The locale \<open>fingerprint_format\<close> is the contract between a
  fingerprint and the check that admits it as a command-line argument; both methods
  interpret it.
\<close>

section \<open>Definitions\<close>

text \<open>\<open>type FingerprintMethod string\<close>.\<close>

type_synonym fingerprint_method = string

definition MethodJA3 :: fingerprint_method where
  "MethodJA3 = ''ja3''"

definition MethodJA4 :: fingerprint_method where
  "MethodJA4 = ''ja4''"

datatype method_error = UnknownMethod string

definition ParseFingerprintMethod :: "string \<Rightarrow> method_error + fingerprint_method" where
  "ParseFingerprintMethod s =
     (if s = MethodJA3 then Inr MethodJA3
      else if s = MethodJA4 then Inr MethodJA4
      else Inl (UnknownMethod s))"

record tls_metadata =
  JA3 :: string
  JA4 :: string
  SNI :: string
  ALPN :: "string list"
  SupportedVersions :: "u16 list"
  SignatureAlgorithms :: "u16 list"

definition isLowerHex :: "string \<Rightarrow> bool" where
  "isLowerHex s = list_all is_hex_lower s"

definition isJA3Fingerprint :: "string \<Rightarrow> bool" where
  "isJA3Fingerprint s = (if length s \<noteq> 32 then False else isLowerHex s)"

definition isGREASE :: "u16 \<Rightarrow> bool" where
  "isGREASE v \<longleftrightarrow> v AND 0xff = drop_bit 8 v \<and> v AND 0x0f = 0x0a"

definition u16str :: "u16 list \<Rightarrow> bool \<Rightarrow> string" where
  "u16str vals skipGREASE =
     join ''-'' (map (\<lambda>v. itoa (unat v)) (filter (\<lambda>v. \<not> (skipGREASE \<and> isGREASE v)) vals))"

definition u8str :: "u8 list \<Rightarrow> string" where
  "u8str vals = join ''-'' (map (\<lambda>v. itoa (unat v)) vals)"

definition ja3_parts :: "client_hello \<Rightarrow> string list" where
  "ja3_parts ch =
     [itoa (unat (ch_version ch)), u16str (cipherSuites ch) True, u16str (extensions ch) True,
      u16str (ellipticCurves ch) True, u8str (ecPointFormats ch)]"

definition ja3FromHello :: "client_hello \<Rightarrow> string \<times> string" where
  "ja3FromHello ch = (let ja3str = join '','' (ja3_parts ch) in (hex_encode (md5 ja3str), ja3str))"

definition computeJA3 :: "u8 list \<Rightarrow> (string \<times> string) hello_go" where
  "computeJA3 data = ebind (parseClientHello data) (\<lambda>ch. Inr (ja3FromHello ch))"

subsection \<open>JA4\<close>

definition asciiAlphanumeric :: "char \<Rightarrow> bool" where
  "asciiAlphanumeric b \<longleftrightarrow> is_digit b \<or> is_upper b \<or> is_lower b"

text \<open>The fold over \<open>supported_versions\<close>: skip GREASE, keep the larger value.\<close>

definition ja4_max_version :: "client_hello \<Rightarrow> u16" where
  "ja4_max_version ch =
     foldl (\<lambda>v sv. if isGREASE sv then v else if sv > v then sv else v)
       (ch_version ch) (supportedVersions ch)"

definition version_code :: "u16 \<Rightarrow> string" where
  "version_code v =
     (if v = 0x0304 then ''13''
      else if v = 0x0303 then ''12''
      else if v = 0x0302 then ''11''
      else if v = 0x0301 then ''10''
      else if v = 0x0300 then ''s3''
      else if v = 0x0002 then ''s2''
      else ''00'')"

definition ja4Version :: "client_hello \<Rightarrow> string" where
  "ja4Version ch = version_code (ja4_max_version ch)"

definition ja4Count :: "nat \<Rightarrow> string" where
  "ja4Count n = pad2 (if n > 99 then 99 else n)"

definition ja4ALPN :: "string list \<Rightarrow> string" where
  "ja4ALPN protocols =
     (if protocols = [] \<or> hd protocols = [] then ''00''
      else (let p = hd protocols; first = hd p; last = last p
            in if asciiAlphanumeric first \<and> asciiAlphanumeric last then [first, last]
               else [hex_digit (of_char first div 16), hex_digit (of_char last mod 16)]))"

definition sortU16 :: "u16 list \<Rightarrow> u16 list" where
  "sortU16 vals = sort vals"

definition ja4HexList :: "u16 list \<Rightarrow> string" where
  "ja4HexList vals = join '','' (map hex4 vals)"

definition ja4Hash12 :: "string \<Rightarrow> string" where
  "ja4Hash12 s = take 12 (hex_encode (sha256 s))"

definition ja4HashSection :: "string \<Rightarrow> string" where
  "ja4HashSection s = (if s = [] then ''000000000000'' else ja4Hash12 s)"

text \<open>The three lists \<open>computeJA4\<close> collects, and the count of all non-GREASE extensions.\<close>

definition ja4_ciphers :: "client_hello \<Rightarrow> u16 list" where
  "ja4_ciphers ch = filter (\<lambda>c. \<not> isGREASE c) (cipherSuites ch)"

definition ja4_all_exts :: "client_hello \<Rightarrow> u16 list" where
  "ja4_all_exts ch = filter (\<lambda>e. \<not> isGREASE e) (extensions ch)"

definition ja4_exts :: "client_hello \<Rightarrow> u16 list" where
  "ja4_exts ch = filter (\<lambda>e. \<not> (e = 0x0000 \<or> e = 0x0010)) (ja4_all_exts ch)"

definition ja4_sigalgs :: "client_hello \<Rightarrow> u16 list" where
  "ja4_sigalgs ch = filter (\<lambda>s. \<not> isGREASE s) (signatureAlgorithms ch)"

definition ja4_a :: "client_hello \<Rightarrow> string" where
  "ja4_a ch = ''t'' @ ja4Version ch @ (if serverName ch \<noteq> [] then ''d'' else ''i'') @
     ja4Count (length (ja4_ciphers ch)) @ ja4Count (length (ja4_all_exts ch)) @
     ja4ALPN (alpnProtocols ch)"

definition ja4_raw_b :: "client_hello \<Rightarrow> string" where
  "ja4_raw_b ch = ja4HexList (sortU16 (ja4_ciphers ch))"

definition ja4_raw_c :: "client_hello \<Rightarrow> string" where
  "ja4_raw_c ch = ja4HexList (sortU16 (ja4_exts ch)) @ ''_'' @ ja4HexList (ja4_sigalgs ch)"

definition computeJA4 :: "client_hello \<Rightarrow> string" where
  "computeJA4 ch =
     ja4_a ch @ ''_'' @ ja4HashSection (ja4_raw_b ch) @ ''_'' @ ja4HashSection (ja4_raw_c ch)"

definition isJA4Fingerprint :: "string \<Rightarrow> bool" where
  "isJA4Fingerprint s =
     (let parts = split_char (CHR ''_'') s in
      if length parts \<noteq> 3 then False
      else (let a = parts ! 0 in
        if length a \<noteq> 10 \<or> a ! 0 \<noteq> CHR ''t'' then False
        else if \<not> list_all (\<lambda>r. is_digit r \<or> is_lower r) a then False
        else length (parts ! 1) = 12 \<and> isLowerHex (parts ! 1) \<and>
             length (parts ! 2) = 12 \<and> isLowerHex (parts ! 2)))"

definition extractTLSMetadata :: "u8 list \<Rightarrow> fingerprint_method \<Rightarrow> (string \<times> tls_metadata) hello_go" where
  "extractTLSMetadata data method =
     ebind (parseClientHello data) (\<lambda>ch.
       let (ja3fp, ja3str) = ja3FromHello ch;
           meta = \<lparr>JA3 = ja3str, JA4 = computeJA4 ch, SNI = serverName ch, ALPN = alpnProtocols ch,
                   SupportedVersions = supportedVersions ch,
                   SignatureAlgorithms = signatureAlgorithms ch\<rparr>
       in if method = MethodJA4 then Inr (JA4 meta, meta) else Inr (ja3fp, meta))"

text \<open>\<open>validFingerprintForMethod\<close> of \<open>main.go\<close>.\<close>

definition validFingerprintForMethod :: "string \<Rightarrow> fingerprint_method \<Rightarrow> bool" where
  "validFingerprintForMethod fp method =
     (if method = MethodJA3 then isJA3Fingerprint fp
      else if method = MethodJA4 then isJA4Fingerprint fp
      else isJA3Fingerprint fp \<or> isJA4Fingerprint fp)"

section \<open>What JA3 identifies\<close>

definition no_grease :: "u16 list \<Rightarrow> u16 list" where
  "no_grease vs = filter (\<lambda>v. \<not> isGREASE v) vs"

lemma u16str_chars: "c \<in> set (u16str vs g) \<Longrightarrow> is_digit c \<or> c = CHR ''-''"
  unfolding u16str_def
  by (drule subsetD [OF set_join]) (auto dest: set_itoa)

lemma u8str_chars: "c \<in> set (u8str vs) \<Longrightarrow> is_digit c \<or> c = CHR ''-''"
  unfolding u8str_def
  by (drule subsetD [OF set_join]) (auto dest: set_itoa)

lemma not_digit_simps [simp]:
  "\<not> is_digit (CHR '','')" "\<not> is_digit (CHR ''-'')" "\<not> is_digit (CHR ''_'')" "\<not> is_digit (CHR '':'')"
  by (simp_all add: is_digit_def)

lemma map_itoa_unat_inj:
  "map (\<lambda>v. itoa (unat (v :: 'a::len word))) xs = map (\<lambda>v. itoa (unat v)) ys \<longleftrightarrow> xs = ys"
  by (rule inj_map_eq_map) (auto simp: inj_def word_unat_eq_iff)

lemma u16str_inj: "u16str vs True = u16str ws True \<longleftrightarrow> no_grease vs = no_grease ws"
proof -
  have "u16str vs True = u16str ws True \<longleftrightarrow>
      map (\<lambda>v. itoa (unat v)) (no_grease vs) = map (\<lambda>v. itoa (unat v)) (no_grease ws)"
    unfolding u16str_def no_grease_def by (subst join_parts_inj) auto
  then show ?thesis by (simp add: map_itoa_unat_inj)
qed

lemma u8str_inj: "u8str vs = u8str ws \<longleftrightarrow> vs = ws"
proof -
  have "u8str vs = u8str ws \<longleftrightarrow>
      map (\<lambda>v. itoa (unat v)) vs = map (\<lambda>v. itoa (unat v)) ws"
    unfolding u8str_def by (subst join_parts_inj) auto
  then show ?thesis by (simp add: map_itoa_unat_inj)
qed

lemma ja3_parts_sep: "p \<in> set (ja3_parts ch) \<Longrightarrow> CHR '','' \<notin> set p"
  by (auto simp: ja3_parts_def dest: u16str_chars u8str_chars)

text \<open>
  The canonical JA3 string identifies exactly the version, the non-GREASE cipher
  suites, extension types and curves in the order the client sent them, and the point
  formats: two ClientHellos have the same JA3 string just when these five agree. GREASE
  values never show, and no two different lists print alike.
\<close>

theorem ja3_string_identifies:
  "snd (ja3FromHello a) = snd (ja3FromHello b) \<longleftrightarrow>
     ch_version a = ch_version b \<and>
     no_grease (cipherSuites a) = no_grease (cipherSuites b) \<and>
     no_grease (extensions a) = no_grease (extensions b) \<and>
     no_grease (ellipticCurves a) = no_grease (ellipticCurves b) \<and>
     ecPointFormats a = ecPointFormats b"
proof -
  have "ja3_parts ch \<noteq> []" for ch by (simp add: ja3_parts_def)
  then have "snd (ja3FromHello a) = snd (ja3FromHello b) \<longleftrightarrow> ja3_parts a = ja3_parts b"
    unfolding ja3FromHello_def Let_def snd_conv by (metis join_inj ja3_parts_sep)
  then show ?thesis
    by (auto simp: ja3_parts_def u16str_inj u8str_inj word_unat_eq_iff)
qed

section \<open>What JA4 identifies\<close>

lemma ja4_lists_no_grease:
  "ja4_ciphers ch = no_grease (cipherSuites ch)" "ja4_all_exts ch = no_grease (extensions ch)"
  "ja4_sigalgs ch = no_grease (signatureAlgorithms ch)"
  by (simp_all add: ja4_ciphers_def ja4_all_exts_def ja4_sigalgs_def no_grease_def)

lemma hex4_chars: "c \<in> set (hex4 v) \<Longrightarrow> is_hex_lower c"
  using hex4_lower [of v] by (auto simp: list_all_iff)

lemma not_hex_simps [simp]:
  "\<not> is_hex_lower (CHR '','')" "\<not> is_hex_lower (CHR ''_'')"
  by (simp_all add: char_class_defs)

lemma ja4HexList_chars: "c \<in> set (ja4HexList vs) \<Longrightarrow> is_hex_lower c \<or> c = CHR '',''"
  unfolding ja4HexList_def
  by (drule subsetD [OF set_join]) (auto dest: hex4_chars)

lemma ja4HexList_inj: "ja4HexList vs = ja4HexList ws \<longleftrightarrow> vs = ws"
proof -
  have ne: "hex4 v \<noteq> []" for v using length_hex4 [of v] by (metis list.size(3) zero_neq_numeral)
  have "ja4HexList vs = ja4HexList ws \<longleftrightarrow> map hex4 vs = map hex4 ws"
    unfolding ja4HexList_def by (subst join_parts_inj) (auto simp: ne dest: hex4_chars)
  also have "\<dots> \<longleftrightarrow> vs = ws" by (rule inj_map_eq_map) (simp add: inj_def)
  finally show ?thesis .
qed

lemma sortU16_eq_iff: "sortU16 vs = sortU16 ws \<longleftrightarrow> mset vs = mset ws"
  unfolding sortU16_def by (metis mset_sort properties_for_sort sorted_sort)

lemma ja4_raw_b_iff:
  "ja4_raw_b a = ja4_raw_b b \<longleftrightarrow> mset (no_grease (cipherSuites a)) = mset (no_grease (cipherSuites b))"
  by (simp add: ja4_raw_b_def ja4HexList_inj sortU16_eq_iff ja4_lists_no_grease)

lemma ja4_raw_c_iff:
  "ja4_raw_c a = ja4_raw_c b \<longleftrightarrow>
     mset (ja4_exts a) = mset (ja4_exts b) \<and>
     no_grease (signatureAlgorithms a) = no_grease (signatureAlgorithms b)"
proof -
  have "CHR ''_'' \<notin> set (ja4HexList vs)" for vs
    using ja4HexList_chars [of "CHR ''_''" vs] by auto
  then show ?thesis
    unfolding ja4_raw_c_def by (simp add: append_sep_inj ja4HexList_inj sortU16_eq_iff ja4_lists_no_grease)
qed

text \<open>
  The texts JA4 hashes identify what they should and nothing else. Section b is a
  faithful name for the multiset of non-GREASE cipher suites; section c is a faithful name
  for the multiset of non-GREASE extensions other than SNI and ALPN together with the
  signature algorithms in the order sent. Hash collisions apart, JA4 merges exactly the
  clients that differ in order only.
\<close>

theorem ja4_sections_identify:
  "(ja4_raw_b a = ja4_raw_b b \<longleftrightarrow> mset (no_grease (cipherSuites a)) = mset (no_grease (cipherSuites b))) \<and>
   (ja4_raw_c a = ja4_raw_c b \<longleftrightarrow>
      mset (ja4_exts a) = mset (ja4_exts b) \<and>
      no_grease (signatureAlgorithms a) = no_grease (signatureAlgorithms b))"
  by (simp add: ja4_raw_b_iff ja4_raw_c_iff)

lemma ja4_max_version_eq:
  "foldl (\<lambda>v sv. if isGREASE sv then v else if sv > v then sv else v) w vs =
     foldl max w (no_grease vs)"
  by (induction vs arbitrary: w) (auto simp: no_grease_def max_def)

lemma foldl_max_mset:
  fixes w :: "'a::linorder"
  assumes "mset xs = mset ys"
  shows "foldl max w xs = foldl max w ys"
proof -
  have "foldl max w zs = Max (set (w # zs))" for zs
    unfolding Max.set_eq_fold foldl_conv_fold by (simp add: max.commute)
  with mset_eq_setD [OF assms] show ?thesis by simp
qed

lemma mset_no_grease_length: "mset (no_grease xs) = mset (no_grease ys) \<Longrightarrow> length (no_grease xs) = length (no_grease ys)"
  by (metis size_mset)

text \<open>
  C10: JA4 is stable. Two ClientHellos that agree up to the order of cipher suites and
  extensions, the order of the supported versions, and GREASE values inserted or removed
  anywhere, have the same JA4, whatever their curves, point formats, server name (present
  in both or in neither) and later ALPN entries are.
\<close>

theorem ja4_stable:
  assumes "ch_version a = ch_version b"
    and "mset (no_grease (cipherSuites a)) = mset (no_grease (cipherSuites b))"
    and "mset (no_grease (extensions a)) = mset (no_grease (extensions b))"
    and "mset (no_grease (supportedVersions a)) = mset (no_grease (supportedVersions b))"
    and "no_grease (signatureAlgorithms a) = no_grease (signatureAlgorithms b)"
    and "serverName a = [] \<longleftrightarrow> serverName b = []"
    and "take 1 (alpnProtocols a) = take 1 (alpnProtocols b)"
  shows "computeJA4 a = computeJA4 b"
proof -
  have "mset (ja4_exts a) = mset (ja4_exts b)"
    unfolding ja4_exts_def ja4_lists_no_grease mset_filter assms(3) ..
  then have "ja4_raw_b a = ja4_raw_b b" "ja4_raw_c a = ja4_raw_c b"
    using assms(2,5) by (simp_all add: ja4_raw_b_iff ja4_raw_c_iff)
  moreover have "ja4Version a = ja4Version b"
    unfolding ja4Version_def ja4_max_version_def ja4_max_version_eq
    using assms(1) foldl_max_mset [OF assms(4)] by simp
  moreover have "ja4ALPN (alpnProtocols a) = ja4ALPN (alpnProtocols b)"
    using assms(7) by (cases "alpnProtocols a"; cases "alpnProtocols b") (auto simp: ja4ALPN_def)
  moreover note mset_no_grease_length [OF assms(2)] mset_no_grease_length [OF assms(3)]
  ultimately show ?thesis
    using assms(6) by (simp add: computeJA4_def ja4_a_def ja4_lists_no_grease)
qed

text \<open>The ClientHello of the repository's JA4 tests.\<close>

definition sampleHello :: client_hello where
  "sampleHello = \<lparr>ch_version = 0x0303, cipherSuites = [0x0a0a, 0x1302, 0x1301, 0x1303],
     extensions = [0x0a0a, 0x002b, 0x0000, 0x0010, 0x000d, 0x000a], ellipticCurves = [],
     ecPointFormats = [], serverName = ''mail.example.com'', alpnProtocols = [''h2'', ''http/1.1''],
     supportedVersions = [0x0a0a, 0x0304, 0x0303], signatureAlgorithms = [0x0403, 0x0804, 0x0a0a]\<rparr>"

lemma ja4_stable_witness:
  "computeJA4 sampleHello = computeJA4 (sampleHello\<lparr>
     cipherSuites := [0x1303, 0x1301, 0x1302, 0x1a1a],
     extensions := [0x000a, 0x0000, 0x000d, 0x0010, 0x002b],
     ellipticCurves := [29],
     supportedVersions := [0x0303, 0x0304],
     serverName := ''other.example'', alpnProtocols := [''h2'']\<rparr>)"
  by (rule ja4_stable) (simp_all add: sampleHello_def no_grease_def isGREASE_def)

section \<open>The shape of a fingerprint\<close>

lemma length_version_code: "length (version_code v) = 2"
  by (simp add: version_code_def)

lemma ja4Count_eq: "ja4Count n = [digit (min n 99 div 10), digit (min n 99 mod 10)]"
  by (auto simp: ja4Count_def pad2_eq min_def)

lemma length_ja4ALPN: "length (ja4ALPN ps) = 2"
  by (simp add: ja4ALPN_def Let_def)

lemma is_hex_lower_ascii: "is_hex_lower c \<Longrightarrow> is_digit c \<or> is_lower c"
  by (auto simp: is_hex_lower_def is_lower_def elim: order_trans)

lemma set_hex_class: "c = hex_digit n \<Longrightarrow> n < 16 \<Longrightarrow> is_digit c \<or> is_lower c"
  using is_hex_lower_ascii is_hex_lower_hex_digit by blast

lemma ja4ALPN_chars: "c \<in> set (ja4ALPN ps) \<Longrightarrow> asciiAlphanumeric c"
proof -
  have low: "(of_char x :: nat) div 16 < 16" for x :: char
    using nat_of_char_less_256 [of x] by linarith
  assume "c \<in> set (ja4ALPN ps)"
  then show ?thesis
    using set_hex_class [OF _ low] set_hex_class [of c "of_char (last (hd ps)) mod 16"]
    by (auto simp: ja4ALPN_def asciiAlphanumeric_def Let_def is_digit_def split: if_splits)
qed

lemma version_code_chars: "list_all (\<lambda>r. is_digit r \<or> is_lower r) (version_code v)"
  by (simp add: version_code_def char_class_defs)

lemma class_excludes:
  "is_digit c \<Longrightarrow> \<not> is_upper c" "is_lower c \<Longrightarrow> \<not> is_upper c"
  "is_upper c \<Longrightarrow> \<not> is_digit c" "is_upper c \<Longrightarrow> \<not> is_lower c"
  by (auto simp: is_digit_iff is_lower_iff is_upper_iff)

lemma asciiAlphanumeric_not_upper: "asciiAlphanumeric c \<Longrightarrow> (is_digit c \<or> is_lower c) \<longleftrightarrow> \<not> is_upper c"
  unfolding asciiAlphanumeric_def using class_excludes by blast

lemma ja4_a_shape:
  "length (ja4_a ch) = 10" "ja4_a ch ! 0 = CHR ''t''"
  "list_all (\<lambda>r. is_digit r \<or> is_lower r) (ja4_a ch) \<longleftrightarrow>
     (\<forall>c \<in> set (ja4ALPN (alpnProtocols ch)). \<not> is_upper c)"
  "CHR ''_'' \<notin> set (ja4_a ch)"
proof -
  have count: "list_all is_digit (ja4Count n)" for n
    by (simp add: ja4Count_eq)
  have tid: "is_lower (CHR ''t'')" "is_lower (CHR ''d'')" "is_lower (CHR ''i'')"
    by (simp_all add: is_lower_def)
  have lower_digits: "list_all (\<lambda>r. is_digit r \<or> is_lower r) (ja4Count n)" for n
    using count [of n] by (auto simp: list_all_iff)
  show "length (ja4_a ch) = 10" "ja4_a ch ! 0 = CHR ''t''"
    by (simp_all add: ja4_a_def ja4Version_def length_version_code ja4Count_eq length_ja4ALPN)
  show "list_all (\<lambda>r. is_digit r \<or> is_lower r) (ja4_a ch) \<longleftrightarrow>
     (\<forall>c \<in> set (ja4ALPN (alpnProtocols ch)). \<not> is_upper c)"
  proof -
    have "list_all (\<lambda>r. is_digit r \<or> is_lower r) (ja4ALPN ps) \<longleftrightarrow>
        (\<forall>c \<in> set (ja4ALPN ps). \<not> is_upper c)" for ps
      unfolding list_all_iff by (rule ball_cong) (simp_all add: asciiAlphanumeric_not_upper ja4ALPN_chars)
    then show ?thesis
      by (simp add: ja4_a_def ja4Version_def lower_digits version_code_chars tid)
  qed
  have "\<not> is_digit (CHR ''_'')" "\<not> is_lower (CHR ''_'')" "\<not> is_upper (CHR ''_'')"
    by (simp_all add: char_class_defs)
  then show "CHR ''_'' \<notin> set (ja4_a ch)"
    using ja4ALPN_chars [of "CHR ''_''"] version_code_chars [of "ja4_max_version ch"]
      lower_digits [of "length (ja4_ciphers ch)"] lower_digits [of "length (ja4_all_exts ch)"]
    by (auto simp: ja4_a_def ja4Version_def list_all_iff asciiAlphanumeric_def)
qed

lemma ja4HashSection_shape:
  "length (ja4HashSection s) = 12" "isLowerHex (ja4HashSection s)"
proof -
  have "list_all is_hex_lower (take 12 (hex_encode (sha256 s)))"
    using hex_encode_lower [of "sha256 s"] by (auto simp: list_all_iff dest: in_set_takeD)
  moreover have "is_hex_lower (CHR ''0'')" by (simp add: char_class_defs)
  ultimately show "length (ja4HashSection s) = 12" "isLowerHex (ja4HashSection s)"
    by (simp_all add: ja4HashSection_def ja4Hash12_def isLowerHex_def)
qed

lemma isLowerHex_no_sep: "isLowerHex s \<Longrightarrow> CHR ''_'' \<notin> set s"
  by (auto simp: isLowerHex_def list_all_iff)

lemma split_computeJA4:
  "split_char (CHR ''_'') (computeJA4 ch) =
     [ja4_a ch, ja4HashSection (ja4_raw_b ch), ja4HashSection (ja4_raw_c ch)]"
  using ja4_a_shape(4) isLowerHex_no_sep [OF ja4HashSection_shape(2)]
  by (simp add: computeJA4_def split_char_append split_char_no_sep)

lemma isJA4Fingerprint_computeJA4:
  "isJA4Fingerprint (computeJA4 ch) \<longleftrightarrow> (\<forall>c \<in> set (ja4ALPN (alpnProtocols ch)). \<not> is_upper c)"
  using ja4_a_shape [of ch] ja4HashSection_shape
  by (simp add: isJA4Fingerprint_def split_computeJA4)

lemma isJA3Fingerprint_ja3: "isJA3Fingerprint (fst (ja3FromHello ch))"
  by (simp add: isJA3Fingerprint_def ja3FromHello_def Let_def isLowerHex_def hex_encode_lower)

section \<open>The contract between a fingerprint and its shape check\<close>

text \<open>
  A fingerprint method computes a store key from a ClientHello, and the \<open>--register\<close> commands
  admit a key typed by the operator through a shape check. The contract: the check accepts
  the computed keys of all \<open>regular\<close> ClientHellos, and an accepted key is not empty and made
  of lower-case letters, digits and underscores, so that it survives shell, log and table.
\<close>

locale fingerprint_format =
  fixes compute :: "client_hello \<Rightarrow> string"
    and valid :: "string \<Rightarrow> bool"
    and regular :: "client_hello \<Rightarrow> bool"
  assumes valid_compute: "valid (compute ch) \<longleftrightarrow> regular ch"
    and valid_nonempty: "valid s \<Longrightarrow> s \<noteq> []"
    and valid_chars: "valid s \<Longrightarrow> c \<in> set s \<Longrightarrow> is_digit c \<or> is_lower c \<or> c = CHR ''_''"
begin

lemma key_nonempty: "regular ch \<Longrightarrow> compute ch \<noteq> []"
  using valid_nonempty valid_compute by blast

lemma key_printable: "regular ch \<Longrightarrow> c \<in> set (compute ch) \<Longrightarrow> 32 < (of_char c :: nat) \<and> (of_char c :: nat) < 127"
  using valid_chars [of "compute ch" c] valid_compute
  by (auto simp: is_digit_iff is_lower_iff)

end

definition ja4_regular :: "client_hello \<Rightarrow> bool" where
  "ja4_regular ch \<longleftrightarrow> list_all (\<lambda>c. \<not> is_upper c) (ja4ALPN (alpnProtocols ch))"

lemma isJA3Fingerprint_chars: "isJA3Fingerprint s \<Longrightarrow> c \<in> set s \<Longrightarrow> is_digit c \<or> is_lower c"
  by (auto simp: isJA3Fingerprint_def isLowerHex_def list_all_iff is_hex_lower_ascii split: if_splits)

lemma isJA4Fingerprint_parts:
  assumes "isJA4Fingerprint s"
  obtains a b c where "s = a @ ''_'' @ b @ ''_'' @ c" "length a = 10"
    "list_all (\<lambda>r. is_digit r \<or> is_lower r) a" "isLowerHex b" "isLowerHex c"
proof -
  obtain a b c where parts: "split_char (CHR ''_'') s = [a, b, c]"
    using assms by (auto simp: isJA4Fingerprint_def Let_def length_Suc_conv numeral_eq_Suc split: if_splits)
  have "s = a @ ''_'' @ b @ ''_'' @ c"
    using join_split_char [of "CHR ''_''" s] parts by simp
  then show thesis
    using assms parts by (intro that) (auto simp: isJA4Fingerprint_def split: if_splits)
qed

lemma isJA4Fingerprint_chars:
  assumes "isJA4Fingerprint s" and "c \<in> set s"
  shows "is_digit c \<or> is_lower c \<or> c = CHR ''_''"
proof -
  obtain x y z where "s = x @ ''_'' @ y @ ''_'' @ z" "list_all (\<lambda>r. is_digit r \<or> is_lower r) x"
    "isLowerHex y" "isLowerHex z"
    using isJA4Fingerprint_parts [OF assms(1)] by metis
  with assms(2) show ?thesis
    by (auto simp: isLowerHex_def list_all_iff dest: is_hex_lower_ascii)
qed

interpretation ja3: fingerprint_format "\<lambda>ch. fst (ja3FromHello ch)" isJA3Fingerprint "\<lambda>_. True"
proof unfold_locales
  show "isJA3Fingerprint (fst (ja3FromHello ch)) \<longleftrightarrow> True" for ch
    by (simp add: isJA3Fingerprint_ja3)
  show "s \<noteq> []" if "isJA3Fingerprint s" for s
    using that by (auto simp: isJA3Fingerprint_def)
  show "is_digit c \<or> is_lower c \<or> c = CHR ''_''" if "isJA3Fingerprint s" "c \<in> set s" for s c
    using isJA3Fingerprint_chars [OF that] by blast
qed

interpretation ja4: fingerprint_format computeJA4 isJA4Fingerprint ja4_regular
proof unfold_locales
  show "isJA4Fingerprint (computeJA4 ch) \<longleftrightarrow> ja4_regular ch" for ch
    by (simp add: isJA4Fingerprint_computeJA4 ja4_regular_def list_all_iff)
  show "s \<noteq> []" if "isJA4Fingerprint s" for s
    using that by (auto simp: isJA4Fingerprint_def Let_def)
  show "is_digit c \<or> is_lower c \<or> c = CHR ''_''" if "isJA4Fingerprint s" "c \<in> set s" for s c
    by (rule isJA4Fingerprint_chars [OF that])
qed

text \<open>The two keyspaces do not meet: a JA4 key has underscores, a JA3 key has none.\<close>

lemma keyspaces_disjoint: "isJA3Fingerprint s \<Longrightarrow> \<not> isJA4Fingerprint s"
proof
  assume "isJA3Fingerprint s" "isJA4Fingerprint s"
  moreover from this(2) have "CHR ''_'' \<in> set s"
    by (rule isJA4Fingerprint_parts) simp
  ultimately show False
    using isJA3Fingerprint_chars by (fastforce simp: is_lower_def)
qed

lemma extractTLSMetadata_Inr:
  "extractTLSMetadata data m = Inr (fp, meta) \<longleftrightarrow>
     (\<exists>ch. parseClientHello data = Inr ch \<and>
       meta = \<lparr>JA3 = snd (ja3FromHello ch), JA4 = computeJA4 ch, SNI = serverName ch,
         ALPN = alpnProtocols ch, SupportedVersions = supportedVersions ch,
         SignatureAlgorithms = signatureAlgorithms ch\<rparr> \<and>
       fp = (if m = MethodJA4 then computeJA4 ch else fst (ja3FromHello ch)))"
  by (auto simp: extractTLSMetadata_def ebind_eq_Inr Let_def case_prod_beta split: if_splits)

text \<open>The store key and the metadata of a ClientHello.\<close>

definition hello_key :: "fingerprint_method \<Rightarrow> client_hello \<Rightarrow> string" where
  "hello_key m ch = (if m = MethodJA4 then computeJA4 ch else fst (ja3FromHello ch))"

definition hello_metadata :: "client_hello \<Rightarrow> tls_metadata" where
  "hello_metadata ch =
     \<lparr>JA3 = snd (ja3FromHello ch), JA4 = computeJA4 ch, SNI = serverName ch, ALPN = alpnProtocols ch,
      SupportedVersions = supportedVersions ch, SignatureAlgorithms = signatureAlgorithms ch\<rparr>"

lemma extractTLSMetadata_eq:
  "parseClientHello data = Inr ch \<Longrightarrow> extractTLSMetadata data m = Inr (hello_key m ch, hello_metadata ch)"
  by (simp add: extractTLSMetadata_Inr hello_key_def hello_metadata_def)

text \<open>
  C13: a fingerprint that \<open>serve\<close> observed is accepted by \<open>approve --register\<close> and
  \<open>block --register\<close> on a database of the same method, with one exact exception: a JA4
  fingerprint whose two ALPN characters contain an upper-case letter, which \<open>computeJA4\<close>
  produces (as the JA4 specification asks) and \<open>isJA4Fingerprint\<close> refuses.
\<close>

theorem observed_fingerprint_valid:
  assumes "ParseFingerprintMethod s = Inr m" and "extractTLSMetadata data m = Inr (fp, meta)"
  shows "validFingerprintForMethod fp m \<longleftrightarrow>
    \<not> (m = MethodJA4 \<and> list_ex is_upper (ja4ALPN (ALPN meta)))"
proof -
  have m: "m = MethodJA3 \<or> m = MethodJA4" "MethodJA3 \<noteq> MethodJA4"
    using assms(1) by (auto simp: ParseFingerprintMethod_def MethodJA3_def MethodJA4_def split: if_splits)
  from assms(2) [unfolded extractTLSMetadata_Inr] show ?thesis
    using m ja3.valid_compute ja4.valid_compute
    by (auto simp: validFingerprintForMethod_def ja4_regular_def list_all_iff list_ex_iff)
qed

lemma observed_fingerprint_valid_witness:
  "\<exists>fp meta. extractTLSMetadata small_bytes MethodJA4 = Inr (fp, meta) \<and>
     validFingerprintForMethod fp MethodJA4"
proof -
  obtain fp meta where x: "extractTLSMetadata small_bytes MethodJA4 = Inr (fp, meta)"
    "ALPN meta = []"
    by (simp add: extractTLSMetadata_def small_parse Let_def case_prod_beta small_ch_def)
  have "ParseFingerprintMethod ''ja4'' = Inr MethodJA4"
    by (simp add: ParseFingerprintMethod_def MethodJA3_def MethodJA4_def)
  from observed_fingerprint_valid [OF this x(1)] x show ?thesis
    by (simp add: ja4ALPN_def is_upper_def)
qed

section \<open>Where the comments and the code differ\<close>

text \<open>
  A comment of \<open>computeJA4\<close> says that an empty extension list hashes to literal zeros. The
  text of section c always contains the underscore between its two lists, so the zero
  sentinel is unreachable there: a ClientHello without extensions gets a hash.
\<close>

lemma ja4_section_c_never_zero_sentinel:
  "ja4HashSection (ja4_raw_c ch) = ja4Hash12 (ja4_raw_c ch) \<and>
   (extensions ch = [] \<and> signatureAlgorithms ch = [] \<longrightarrow> ja4_raw_c ch = ''_'')"
  by (simp add: ja4HashSection_def ja4_raw_c_def ja4_exts_def ja4_all_exts_def ja4_sigalgs_def
      sortU16_def ja4HexList_def)

text \<open>
  The comment of \<open>ja4Version\<close> says that the legacy version is a fallback for a missing
  \<open>supported_versions\<close>; the code takes the larger of the two.
\<close>

lemma ja4Version_is_maximum:
  "ja4_max_version ch = Max (insert (ch_version ch) (set (no_grease (supportedVersions ch))))"
proof -
  have "foldl max w zs = Max (set (w # zs))" for w :: u16 and zs
    unfolding Max.set_eq_fold foldl_conv_fold by (simp add: max.commute)
  then show ?thesis
    unfolding ja4_max_version_def ja4_max_version_eq by simp
qed

lemma ja4Version_legacy_wins:
  "ja4Version \<lparr>ch_version = 0x0304, cipherSuites = [], extensions = [0x002b], ellipticCurves = [],
     ecPointFormats = [], serverName = [], alpnProtocols = [], supportedVersions = [0x0303],
     signatureAlgorithms = []\<rparr> = ''13''"
  by (simp add: ja4Version_def ja4_max_version_def isGREASE_def version_code_def)

end
