(* ===== verification/Smtp_Behavior.thy ===== *)
theory Smtp_Behavior
  imports Utf8 Digest
begin

text \<open>
  The content-free description of an SMTP session (\<open>smtp_behavior.go\<close>): the tracker fed with
  the client's command lines, the snapshot it gives, its fingerprint and the check
  \<open>validSMTPBehavior\<close> that the report reader applies. The theorems: every snapshot of a
  tracker passes the check, and the fingerprinted text identifies the behaviour.
\<close>

section \<open>Definitions\<close>

text \<open>A \<open>time.Time\<close> in nanoseconds; 0 is the zero time.\<close>

type_synonym time = int

definition second :: int where
  "second = 1000000000"

record smtp_behavior =
  bh_Version :: int
  bh_Fingerprint :: string
  bh_PreGreeting :: string
  bh_FirstVerb :: string
  bh_LineEndings :: string
  bh_FirstCommandTiming :: string
  bh_STARTTLSTiming :: string
  bh_VerbShape :: string
  bh_VerbOverflow :: bool
  bh_STARTTLSOutcome :: string

record behavior_tracker =
  preGreeting :: int
  firstVerb :: string
  verbs :: "string list"
  verbOverflow :: bool
  sawCRLF :: bool
  sawLF :: bool
  firstCommandAt :: time
  starttlsCommandAt :: time
  starttlsOutcome :: string

definition smtpBehaviorVersion :: int where
  "smtpBehaviorVersion = 1"

definition maxSMTPBehaviorVerbs :: nat where
  "maxSMTPBehaviorVerbs = 12"

text \<open>The zero value of the Go struct.\<close>

definition tracker_init :: behavior_tracker where
  "tracker_init =
     \<lparr>preGreeting = 0, firstVerb = [], verbs = [], verbOverflow = False, sawCRLF = False, sawLF = False,
      firstCommandAt = 0, starttlsCommandAt = 0, starttlsOutcome = []\<rparr>"

definition known_verbs :: "string list" where
  "known_verbs =
     [''HELO'', ''EHLO'', ''MAIL'', ''RCPT'', ''DATA'', ''RSET'', ''VRFY'', ''EXPN'', ''HELP'', ''NOOP'',
      ''QUIT'', ''STARTTLS'', ''AUTH'', ''BDAT'', ''BURL'', ''ATRN'', ''ETRN'', ''XCLIENT'', ''XFORWARD'']"

definition canonicalSMTPVerb :: "string \<Rightarrow> string" where
  "canonicalSMTPVerb verb = (if ToUpper verb \<in> set known_verbs then ToUpper verb else ''OTHER'')"

definition command :: "behavior_tracker \<Rightarrow> string \<Rightarrow> string \<Rightarrow> bool \<Rightarrow> time \<Rightarrow> behavior_tracker" where
  "command b raw verb greeted at =
     (let b = (if has_suffix raw [CHR 0x0D, CHR 0x0A] then b\<lparr>sawCRLF := True\<rparr> else b\<lparr>sawLF := True\<rparr>);
          verb = canonicalSMTPVerb verb;
          b = (if firstVerb b = [] then b\<lparr>firstVerb := verb, firstCommandAt := at\<rparr> else b);
          b = (if \<not> greeted then b\<lparr>preGreeting := preGreeting b + 1\<rparr> else b);
          b = (if length (verbs b) < maxSMTPBehaviorVerbs then b\<lparr>verbs := verbs b @ [verb]\<rparr>
               else b\<lparr>verbOverflow := True\<rparr>)
      in if verb = ''STARTTLS'' \<and> starttlsCommandAt b = 0 then b\<lparr>starttlsCommandAt := at\<rparr> else b)"

definition countBucket :: "int \<Rightarrow> string" where
  "countBucket n = (if n = 0 then ''none'' else if n = 1 then ''one'' else ''many'')"

definition lineEndingBucket :: "behavior_tracker \<Rightarrow> string" where
  "lineEndingBucket b =
     (if sawCRLF b \<and> sawLF b then ''mixed''
      else if sawCRLF b then ''crlf''
      else if sawLF b then ''lf''
      else ''none'')"

definition smtpTimingBucket :: "time \<Rightarrow> time \<Rightarrow> string" where
  "smtpTimingBucket start observed =
     (if start = 0 \<or> observed = 0 \<or> observed < start then ''unknown''
      else (let elapsed = observed - start in
        if elapsed < second then ''under_1s''
        else if elapsed < 5 * second then ''1s_to_5s''
        else if elapsed < 30 * second then ''5s_to_30s''
        else ''30s_or_more''))"

text \<open>The text that is hashed, a format string of nine fields.\<close>

definition behavior_canonical :: "smtp_behavior \<Rightarrow> string" where
  "behavior_canonical b =
     ''v='' @ itoa_int (bh_Version b) @ ''|pre='' @ bh_PreGreeting b @ ''|first='' @ bh_FirstVerb b @
     ''|eol='' @ bh_LineEndings b @ ''|first_timing='' @ bh_FirstCommandTiming b @
     ''|starttls_timing='' @ bh_STARTTLSTiming b @ ''|verbs='' @ bh_VerbShape b @
     ''|overflow='' @ show_bool (bh_VerbOverflow b) @ ''|starttls='' @ bh_STARTTLSOutcome b"

definition smtpBehaviorFingerprint :: "smtp_behavior \<Rightarrow> string" where
  "smtpBehaviorFingerprint b = ''smtp-behavior/v1/'' @ hex_encode (sha256 (behavior_canonical b))"

definition snapshot :: "behavior_tracker \<Rightarrow> time \<Rightarrow> bool \<Rightarrow> smtp_behavior" where
  "snapshot b start incomplete =
     (let behavior =
       \<lparr>bh_Version = smtpBehaviorVersion,
        bh_Fingerprint = [],
        bh_PreGreeting = countBucket (preGreeting b),
        bh_FirstVerb = (if firstVerb b = [] then ''NONE'' else firstVerb b),
        bh_LineEndings = lineEndingBucket b,
        bh_FirstCommandTiming = smtpTimingBucket start (firstCommandAt b),
        bh_STARTTLSTiming = smtpTimingBucket start (starttlsCommandAt b),
        bh_VerbShape = (if join ''>'' (verbs b) = [] then ''NONE'' else join ''>'' (verbs b)),
        bh_VerbOverflow = verbOverflow b,
        bh_STARTTLSOutcome =
          (if starttlsOutcome b = [] then (if incomplete then ''unknown'' else ''not_seen'')
           else starttlsOutcome b)\<rparr>
      in behavior\<lparr>bh_Fingerprint := smtpBehaviorFingerprint behavior\<rparr>)"

definition oneOf :: "string \<Rightarrow> string list \<Rightarrow> bool" where
  "oneOf value allowed = list_ex (\<lambda>candidate. value = candidate) allowed"

definition timing_words :: "string list" where
  "timing_words = [''unknown'', ''under_1s'', ''1s_to_5s'', ''5s_to_30s'', ''30s_or_more'']"

definition validSMTPBehavior :: "smtp_behavior option \<Rightarrow> bool" where
  "validSMTPBehavior behavior =
     (case behavior of None \<Rightarrow> False | Some b \<Rightarrow>
       if bh_Version b \<noteq> smtpBehaviorVersion then False
       else if \<not> oneOf (bh_PreGreeting b) [''none'', ''one'', ''many''] \<or>
         \<not> oneOf (bh_LineEndings b) [''none'', ''crlf'', ''lf'', ''mixed''] \<or>
         \<not> oneOf (bh_FirstCommandTiming b) timing_words \<or>
         \<not> oneOf (bh_STARTTLSTiming b) timing_words \<or>
         \<not> oneOf (bh_STARTTLSOutcome b) [''unknown'', ''not_seen'', ''refused'', ''accepted''] then False
       else if bh_FirstVerb b \<noteq> ''NONE'' \<and> bh_FirstVerb b \<noteq> canonicalSMTPVerb (bh_FirstVerb b) then False
       else if bh_VerbShape b = ''NONE'' \<and> (bh_FirstVerb b \<noteq> ''NONE'' \<or> bh_VerbOverflow b) then False
       else if bh_VerbShape b \<noteq> ''NONE'' \<and>
         (let vs = split_char (CHR ''>'') (bh_VerbShape b) in
          vs = [] \<or> length vs > maxSMTPBehaviorVerbs \<or> hd vs \<noteq> bh_FirstVerb b \<or>
          list_ex (\<lambda>verb. verb = ''NONE'' \<or> verb \<noteq> canonicalSMTPVerb verb) vs) then False
       else bh_Fingerprint b = smtpBehaviorFingerprint b)"

section \<open>Canonical verbs\<close>

lemma upper_rune_upper: "is_upper c \<Longrightarrow> upper_rune (of_char c) = of_char c"
  by (auto simp: upper_rune_def is_upper_iff)

lemma ToUpper_upper: "list_all is_upper s \<Longrightarrow> ToUpper s = s"
proof -
  assume up: "list_all is_upper s"
  then have ascii: "is_ascii s"
    by (auto simp: is_ascii_def list_all_iff is_upper_iff)
  have "map upper_rune (codes s) = codes s"
    using up by (auto simp: codes_def list_all_iff upper_rune_upper)
  moreover have "list_all (\<lambda>r. r < 128) (codes s)"
    using ascii by (auto simp: is_ascii_def codes_def list_all_iff)
  moreover have "ToUpper s = string_of_runes (map upper_rune (codes s))"
    by (simp add: ToUpper_def map_runes_def runes_ascii [OF ascii] List.map_filter_def o_def)
  ultimately have "ToUpper s = map char_of (codes s)"
    using string_of_runes_ascii [of "codes s"] by metis
  then show ?thesis by (simp add: codes_def o_def)
qed

lemma known_verbs_upper: "v \<in> set (''OTHER'' # known_verbs) \<Longrightarrow> list_all is_upper v"
  by (auto simp: known_verbs_def is_upper_def)

lemma canonicalSMTPVerb_in: "canonicalSMTPVerb v \<in> set (''OTHER'' # known_verbs)"
  by (simp add: canonicalSMTPVerb_def)

lemma canonicalSMTPVerb_fix: "v \<in> set (''OTHER'' # known_verbs) \<Longrightarrow> canonicalSMTPVerb v = v"
  using ToUpper_upper [OF known_verbs_upper [of v]]
  by (auto simp: canonicalSMTPVerb_def known_verbs_def)

lemma canonicalSMTPVerb_idem [simp]: "canonicalSMTPVerb (canonicalSMTPVerb v) = canonicalSMTPVerb v"
  by (rule canonicalSMTPVerb_fix [OF canonicalSMTPVerb_in])

lemma canonicalSMTPVerb_eq_iff: "v = canonicalSMTPVerb v \<longleftrightarrow> v \<in> set (''OTHER'' # known_verbs)"
  using canonicalSMTPVerb_in [of v] canonicalSMTPVerb_fix [of v] by metis

text \<open>The words of the vocabulary are not empty, not \<open>NONE\<close>, and contain no separator.\<close>

lemma known_verbs_words:
  "v \<in> set (''OTHER'' # known_verbs) \<Longrightarrow> v \<noteq> [] \<and> v \<noteq> ''NONE'' \<and> CHR ''>'' \<notin> set v \<and> CHR ''|'' \<notin> set v"
  by (auto simp: known_verbs_def)

text \<open>
  \<open>strings.ToUpper\<close> is Unicode upper-casing, so a command that starts with the long s
  (U+017F, bytes C5 BF) counts as STARTTLS, although no server takes it for one.
\<close>

lemma canonicalSMTPVerb_long_s: "canonicalSMTPVerb ([CHR 0xC5, CHR 0xBF] @ ''tarttls'') = ''STARTTLS''"
proof -
  have "runes ([CHR 0xC5, CHR 0xBF] @ ''tarttls'') = [0x17F, 116, 97, 114, 116, 116, 108, 115]"
    by (simp add: runes_def codes_def code_runes.simps cont_def)
  then have "ToUpper ([CHR 0xC5, CHR 0xBF] @ ''tarttls'') = map char_of [83, 84, 65, 82, 84, 84, 76, 83 :: nat]"
    by (simp add: ToUpper_def map_runes_def List.map_filter_def upper_rune_def string_of_runes_ascii)
  also have "\<dots> = ''STARTTLS''" by code_simp
  finally show ?thesis by (simp add: canonicalSMTPVerb_def known_verbs_def)
qed

section \<open>Every snapshot is valid\<close>

text \<open>The invariant of the tracker.\<close>

definition tracker_ok :: "behavior_tracker \<Rightarrow> bool" where
  "tracker_ok b \<longleftrightarrow>
     length (verbs b) \<le> maxSMTPBehaviorVerbs \<and>
     set (verbs b) \<subseteq> set (''OTHER'' # known_verbs) \<and>
     (verbs b = [] \<longrightarrow> firstVerb b = [] \<and> \<not> verbOverflow b) \<and>
     (verbs b \<noteq> [] \<longrightarrow> firstVerb b = hd (verbs b)) \<and>
     starttlsOutcome b \<in> {[], ''accepted'', ''refused''}"

lemma tracker_ok_init: "tracker_ok tracker_init"
  by (simp add: tracker_ok_def tracker_init_def)

lemma command_fields:
  "verbs (command b raw verb greeted at) =
     (if length (verbs b) < maxSMTPBehaviorVerbs then verbs b @ [canonicalSMTPVerb verb] else verbs b)"
  "firstVerb (command b raw verb greeted at) =
     (if firstVerb b = [] then canonicalSMTPVerb verb else firstVerb b)"
  "verbOverflow (command b raw verb greeted at) =
     (verbOverflow b \<or> \<not> length (verbs b) < maxSMTPBehaviorVerbs)"
  "starttlsOutcome (command b raw verb greeted at) = starttlsOutcome b"
  by (simp_all add: command_def Let_def)

lemma tracker_ok_command:
  assumes "tracker_ok b"
  shows "tracker_ok (command b raw verb greeted at)"
proof -
  have fv: "firstVerb b \<noteq> []" if "verbs b \<noteq> []"
    using assms that known_verbs_words [of "hd (verbs b)"] by (cases "verbs b") (auto simp: tracker_ok_def)
  show ?thesis
    using assms fv canonicalSMTPVerb_in [of verb]
    by (cases "verbs b = []") (auto simp: tracker_ok_def command_fields maxSMTPBehaviorVerbs_def)
qed

lemma smtpTimingBucket_word: "oneOf (smtpTimingBucket s t) timing_words"
  by (simp add: oneOf_def timing_words_def smtpTimingBucket_def Let_def)

lemma behavior_canonical_fingerprint [simp]:
  "smtpBehaviorFingerprint (b\<lparr>bh_Fingerprint := x\<rparr>) = smtpBehaviorFingerprint b"
  by (simp add: smtpBehaviorFingerprint_def behavior_canonical_def)

lemma verb_shape:
  assumes "tracker_ok b" "verbs b \<noteq> []"
  shows "split_char (CHR ''>'') (join ''>'' (verbs b)) = verbs b"
    "join ''>'' (verbs b) \<noteq> []" "join ''>'' (verbs b) \<noteq> ''NONE''"
proof -
  have words: "v \<noteq> [] \<and> v \<noteq> ''NONE'' \<and> CHR ''>'' \<notin> set v" if "v \<in> set (verbs b)" for v
    using assms(1) that known_verbs_words [of v] by (auto simp: tracker_ok_def)
  then show split: "split_char (CHR ''>'') (join ''>'' (verbs b)) = verbs b"
    using assms(2) by (intro split_char_join) auto
  show "join ''>'' (verbs b) \<noteq> []"
    using words assms(2) by (cases "verbs b") (auto simp: join_eq_Nil_iff)
  show "join ''>'' (verbs b) \<noteq> ''NONE''"
  proof
    assume eq: "join ''>'' (verbs b) = ''NONE''"
    have "split_char (CHR ''>'') ''NONE'' = [''NONE'']"
      by (rule split_char_no_sep) simp
    then show False using split words unfolding eq by (metis list.set_intros(1))
  qed
qed

lemma snapshot_fields:
  "bh_Version (snapshot b start i) = smtpBehaviorVersion"
  "bh_PreGreeting (snapshot b start i) = countBucket (preGreeting b)"
  "bh_FirstVerb (snapshot b start i) = (if firstVerb b = [] then ''NONE'' else firstVerb b)"
  "bh_LineEndings (snapshot b start i) = lineEndingBucket b"
  "bh_FirstCommandTiming (snapshot b start i) = smtpTimingBucket start (firstCommandAt b)"
  "bh_STARTTLSTiming (snapshot b start i) = smtpTimingBucket start (starttlsCommandAt b)"
  "bh_VerbShape (snapshot b start i) = (if join ''>'' (verbs b) = [] then ''NONE'' else join ''>'' (verbs b))"
  "bh_VerbOverflow (snapshot b start i) = verbOverflow b"
  "bh_STARTTLSOutcome (snapshot b start i) =
     (if starttlsOutcome b = [] then (if i then ''unknown'' else ''not_seen'') else starttlsOutcome b)"
  by (simp_all add: snapshot_def Let_def)

lemma snapshot_fingerprint:
  "bh_Fingerprint (snapshot b start i) = smtpBehaviorFingerprint (snapshot b start i)"
  unfolding snapshot_def Let_def by (subst behavior_canonical_fingerprint) simp

lemma snapshot_valid:
  assumes "tracker_ok b"
  shows "validSMTPBehavior (Some (snapshot b start i))"
proof (cases "verbs b = []")
  case True
  then have "firstVerb b = []" "\<not> verbOverflow b" using assms by (auto simp: tracker_ok_def)
  then show ?thesis
    using True assms smtpTimingBucket_word
    by (auto simp: validSMTPBehavior_def snapshot_fields snapshot_fingerprint oneOf_def tracker_ok_def countBucket_def lineEndingBucket_def)
next
  case False
  note shape = verb_shape [OF assms False]
  have ok: "firstVerb b = hd (verbs b)" "set (verbs b) \<subseteq> set (''OTHER'' # known_verbs)"
    "length (verbs b) \<le> maxSMTPBehaviorVerbs" "starttlsOutcome b \<in> {[], ''accepted'', ''refused''}"
    using assms False by (simp_all add: tracker_ok_def)
  have first: "firstVerb b \<noteq> []" "canonicalSMTPVerb (firstVerb b) = firstVerb b"
    using ok False known_verbs_words [of "hd (verbs b)"] canonicalSMTPVerb_fix [of "hd (verbs b)"]
    by (cases "verbs b"; auto)+
  have "\<not> list_ex (\<lambda>verb. verb = ''NONE'' \<or> verb \<noteq> canonicalSMTPVerb verb) (verbs b)"
    using ok(2) known_verbs_words canonicalSMTPVerb_fix by (auto simp: list_ex_iff simp del: set_simps)
  then show ?thesis
    using shape first ok(1,3,4) False smtpTimingBucket_word
    by (auto simp: validSMTPBehavior_def snapshot_fields snapshot_fingerprint oneOf_def countBucket_def lineEndingBucket_def)
qed

text \<open>
  A session as the observer feeds it: command lines with their verb, the greeting state and
  the time, and at most the outcome of STARTTLS.
\<close>

definition run_commands :: "(string \<times> string \<times> bool \<times> time) list \<Rightarrow> behavior_tracker" where
  "run_commands cs = foldl (\<lambda>b (raw, verb, greeted, at). command b raw verb greeted at) tracker_init cs"

lemma tracker_ok_run: "tracker_ok (run_commands cs)"
  unfolding run_commands_def
  by (induction cs rule: rev_induct) (auto simp: tracker_ok_init tracker_ok_command split: prod.split)

text \<open>
  C20: what the sensor writes, the report reader accepts. After any sequence of command
  lines, whatever bytes they hold, and any outcome of STARTTLS, the snapshot passes
  \<open>validSMTPBehavior\<close>: its words come from the closed vocabulary, at most twelve verbs are
  kept, and the fingerprint is the one of its fields. No session can make its own report
  line be rejected, and none leaks a byte of its content into it.
\<close>

theorem snapshot_always_valid:
  "validSMTPBehavior (Some (snapshot ((run_commands cs)
     \<lparr>starttlsOutcome := (case outcome of None \<Rightarrow> [] | Some True \<Rightarrow> ''accepted'' | Some False \<Rightarrow> ''refused'')\<rparr>)
     start incomplete))"
  using tracker_ok_run [of cs]
  by (intro snapshot_valid) (auto simp: tracker_ok_def split: option.split bool.split)

section \<open>The fingerprint identifies the behaviour\<close>

lemma oneOf_iff: "oneOf v ws \<longleftrightarrow> v \<in> set ws"
  by (auto simp: oneOf_def list_ex_iff)

text \<open>The early returns of the check as one conjunction.\<close>

lemma if_chain:
  "(if a then False else if b then False else if c then False else if d then False else if e then False else f) \<longleftrightarrow>
     \<not> a \<and> \<not> b \<and> \<not> c \<and> \<not> d \<and> \<not> e \<and> f"
  by simp

lemma bar_free_words:
  "w \<in> set [''none'', ''one'', ''many''] \<Longrightarrow> CHR ''|'' \<notin> set w"
  "w \<in> set [''none'', ''crlf'', ''lf'', ''mixed''] \<Longrightarrow> CHR ''|'' \<notin> set w"
  "w \<in> set timing_words \<Longrightarrow> CHR ''|'' \<notin> set w"
  by (auto simp: timing_words_def)

lemma valid_no_bar:
  assumes "validSMTPBehavior (Some b)"
  shows "CHR ''|'' \<notin> set (bh_PreGreeting b)" "CHR ''|'' \<notin> set (bh_FirstVerb b)"
    "CHR ''|'' \<notin> set (bh_LineEndings b)" "CHR ''|'' \<notin> set (bh_FirstCommandTiming b)"
    "CHR ''|'' \<notin> set (bh_STARTTLSTiming b)" "CHR ''|'' \<notin> set (bh_VerbShape b)"
    "bh_Version b = 1" "bh_Fingerprint b = smtpBehaviorFingerprint b"
proof -
  note v = assms [unfolded validSMTPBehavior_def option.case if_chain]
  then have "bh_Version b = smtpBehaviorVersion" "bh_Fingerprint b = smtpBehaviorFingerprint b"
    and first: "bh_FirstVerb b = ''NONE'' \<or> bh_FirstVerb b = canonicalSMTPVerb (bh_FirstVerb b)"
    and "oneOf (bh_PreGreeting b) [''none'', ''one'', ''many'']"
    "oneOf (bh_LineEndings b) [''none'', ''crlf'', ''lf'', ''mixed'']"
    "oneOf (bh_FirstCommandTiming b) timing_words" "oneOf (bh_STARTTLSTiming b) timing_words"
    by blast+
  then have words: "bh_PreGreeting b \<in> set [''none'', ''one'', ''many'']"
    "bh_LineEndings b \<in> set [''none'', ''crlf'', ''lf'', ''mixed'']"
    "bh_FirstCommandTiming b \<in> set timing_words" "bh_STARTTLSTiming b \<in> set timing_words"
    "bh_Version b = 1" "bh_Fingerprint b = smtpBehaviorFingerprint b"
    by (simp_all only: oneOf_iff smtpBehaviorVersion_def)
  have shape: "list_all (\<lambda>v. v = canonicalSMTPVerb v) (split_char (CHR ''>'') (bh_VerbShape b))"
    if "bh_VerbShape b \<noteq> ''NONE''"
  proof -
    have "\<not> list_ex (\<lambda>verb. verb = ''NONE'' \<or> verb \<noteq> canonicalSMTPVerb verb) (split_char (CHR ''>'') (bh_VerbShape b))"
      using v that unfolding Let_def by blast
    then show ?thesis by (auto simp: list_ex_iff list_all_iff)
  qed
  show "CHR ''|'' \<notin> set (bh_PreGreeting b)" "CHR ''|'' \<notin> set (bh_LineEndings b)"
    "CHR ''|'' \<notin> set (bh_FirstCommandTiming b)" "CHR ''|'' \<notin> set (bh_STARTTLSTiming b)"
    "bh_Version b = 1" "bh_Fingerprint b = smtpBehaviorFingerprint b"
    using words bar_free_words by blast+
  show "CHR ''|'' \<notin> set (bh_FirstVerb b)"
    using first known_verbs_words [OF canonicalSMTPVerb_in, of "bh_FirstVerb b"] by auto
  show "CHR ''|'' \<notin> set (bh_VerbShape b)"
  proof (cases "bh_VerbShape b = ''NONE''")
    case False
    have "CHR ''|'' \<notin> set v" if "v \<in> set (split_char (CHR ''>'') (bh_VerbShape b))" for v
      using shape [OF False] that known_verbs_words [OF canonicalSMTPVerb_in, of v]
      by (auto simp: list_all_iff)
    moreover have "set (bh_VerbShape b) \<subseteq> {CHR ''>''} \<union> \<Union> (set ` set (split_char (CHR ''>'') (bh_VerbShape b)))"
      using set_join [of "''>''" "split_char (CHR ''>'') (bh_VerbShape b)"] by (simp add: join_split_char)
    ultimately show ?thesis by auto
  qed auto
qed

lemma show_bool_no_bar: "CHR ''|'' \<notin> set (show_bool a)"
  by (simp add: show_bool_def)

text \<open>
  The behaviour fingerprint names the behaviour. Two behaviours that pass the check have
  the same hashed text only if they are equal in every field, so, hash collisions apart,
  equal fingerprints mean equal behaviour: no field can run into the next one.
\<close>

theorem behavior_canonical_identifies:
  assumes "validSMTPBehavior (Some a)" and "validSMTPBehavior (Some b)"
  shows "behavior_canonical a = behavior_canonical b \<longleftrightarrow> a = b"
proof
  assume "behavior_canonical a = behavior_canonical b"
  then have "bh_PreGreeting a = bh_PreGreeting b \<and> bh_FirstVerb a = bh_FirstVerb b \<and>
      bh_LineEndings a = bh_LineEndings b \<and> bh_FirstCommandTiming a = bh_FirstCommandTiming b \<and>
      bh_STARTTLSTiming a = bh_STARTTLSTiming b \<and> bh_VerbShape a = bh_VerbShape b \<and>
      bh_VerbOverflow a = bh_VerbOverflow b \<and> bh_STARTTLSOutcome a = bh_STARTTLSOutcome b"
    using valid_no_bar [OF assms(1)] valid_no_bar [OF assms(2)]
    by (simp add: behavior_canonical_def append_sep_inj show_bool_no_bar)
  moreover from this have "smtpBehaviorFingerprint a = smtpBehaviorFingerprint b"
    using valid_no_bar(7) [OF assms(1)] valid_no_bar(7) [OF assms(2)]
    by (simp add: smtpBehaviorFingerprint_def behavior_canonical_def)
  ultimately show "a = b"
    using valid_no_bar(7,8) [OF assms(1)] valid_no_bar(7,8) [OF assms(2)] by simp
qed simp

lemma behavior_canonical_identifies_witness:
  "behavior_canonical (snapshot tracker_init 5 False) \<noteq> behavior_canonical (snapshot tracker_init 5 True)"
proof -
  have "snapshot tracker_init 5 False \<noteq> snapshot tracker_init 5 True"
    using snapshot_fields(9) [of tracker_init 5 False] snapshot_fields(9) [of tracker_init 5 True]
    by (auto simp: tracker_init_def)
  then show ?thesis
    using behavior_canonical_identifies [OF snapshot_valid [OF tracker_ok_init] snapshot_valid [OF tracker_ok_init]]
    by blast
qed

end
