(* ===== verification/Record_Reassembly.thy ===== *)
theory Record_Reassembly
  imports Hello_Encoding
begin

text \<open>
  Reassembly of a ClientHello that spans several TLS records: \<open>readClientHello\<close> of
  \<open>proxy.go\<close>, which reads records from the client connection, and \<open>clientHelloFromBytes\<close> of
  \<open>smtp_proxy.go\<close>, which looks at a growing buffer. The theorems say that reassembly is
  lossless whenever it succeeds, bounded, independent of the way the message is cut into
  records, and that the two readers agree.
\<close>

section \<open>The connection\<close>

definition recordTypeHandshake :: u8 where
  "recordTypeHandshake = 0x16"

definition maxTLSRecordBody :: nat where
  "maxTLSRecordBody = 18 * 1024"

definition maxClientHello :: nat where
  "maxClientHello = 64 * 1024"

lemmas reassembly_limits = recordTypeHandshake_def maxTLSRecordBody_def maxClientHello_def

text \<open>
  The read side of a client connection during the handshake: \<open>ready\<close> holds the bytes the
  peer delivers before the handshake deadline (or before it closes), \<open>later\<close> those it
  delivers after it.
\<close>

record conn_in =
  ready :: "u8 list"
  later :: "u8 list"

definition unread :: "conn_in \<Rightarrow> u8 list" where
  "unread c = ready c @ later c"

text \<open>
  \<open>io.ReadFull\<close> with a buffer of \<open>n\<close> bytes. When fewer arrive it reports an error, and the
  bytes it did read are gone from the connection.
\<close>

definition read_full :: "nat \<Rightarrow> conn_in \<Rightarrow> u8 list option \<times> conn_in" where
  "read_full n c =
     (if n \<le> length (ready c) then (Some (take n (ready c)), c\<lparr>ready := drop n (ready c)\<rparr>)
      else (None, c\<lparr>ready := []\<rparr>))"

section \<open>Reading records from the connection\<close>

datatype reassembly_error =
    NonHandshakeRecord u8
  | InvalidRecordBody nat
  | ClientHelloExceeds
  | ShortRead
  | ClientHelloTooLarge nat

text \<open>
  The guards on one record header: type, body length, total size. The last argument is
  \<open>len(bodies)\<close>.
\<close>

definition check_record :: "u8 list \<Rightarrow> nat \<Rightarrow> (reassembly_error, nat) go" where
  "check_record hdr have =
     ebind (byte_at hdr 0) (\<lambda>t.
       if t \<noteq> recordTypeHandshake then fail (NonHandshakeRecord t)
       else ebind (byte_at hdr 3) (\<lambda>hi. ebind (byte_at hdr 4) (\<lambda>lo.
         let bodyLen = be16n hi lo in
         if bodyLen = 0 \<or> bodyLen > maxTLSRecordBody then fail (InvalidRecordBody bodyLen)
         else if have + bodyLen > maxClientHello then fail ClientHelloExceeds
         else Inr bodyLen)))"

text \<open>
  Is the handshake message in \<open>bodies\<close> complete? Fewer than four bytes never are.
\<close>

definition message_total :: "u8 list \<Rightarrow> nat" where
  "message_total bodies = 4 + be24n (bodies ! 1) (bodies ! 2) (bodies ! 3)"

definition assembled :: "u8 list \<Rightarrow> (reassembly_error, bool) go" where
  "assembled bodies =
     (if length bodies \<ge> 4 then
        (if message_total bodies > maxClientHello then fail (ClientHelloTooLarge (message_total bodies))
         else Inr (length bodies \<ge> message_total bodies))
      else Inr False)"

text \<open>
  The loop of \<open>readClientHello\<close>; the result is the parse buffer or the error, then \<open>raw\<close>,
  then what is left of the connection.
\<close>

function read_records ::
  "u8 list \<Rightarrow> u8 list \<Rightarrow> u8 list \<Rightarrow> u8 list \<Rightarrow> conn_in \<Rightarrow>
     (reassembly_error, u8 list) go \<times> u8 list \<times> conn_in" where
  "read_records firstHeader hdr raw bodies conn =
     (case check_record hdr (length bodies) of
        Inl e \<Rightarrow> (Inl e, raw, conn)
      | Inr bodyLen \<Rightarrow>
          (case read_full bodyLen conn of
             (None, conn) \<Rightarrow> (fail ShortRead, raw, conn)
           | (Some body, conn) \<Rightarrow>
               (case assembled (bodies @ body) of
                  Inl e \<Rightarrow> (Inl e, raw @ body, conn)
                | Inr True \<Rightarrow> (Inr (firstHeader @ bodies @ body), raw @ body, conn)
                | Inr False \<Rightarrow>
                    (case read_full 5 conn of
                       (None, conn) \<Rightarrow> (fail ShortRead, raw @ body, conn)
                     | (Some hdr, conn) \<Rightarrow>
                         read_records firstHeader hdr (raw @ body @ hdr) (bodies @ body) conn))))"
  by pat_completeness auto
termination
  by (relation "measure (\<lambda>(f, h, r, b, c). length (ready c))")
    (auto simp: read_full_def split: if_splits)

declare read_records.simps [simp del]

definition readClientHello ::
  "conn_in \<Rightarrow> u8 list \<Rightarrow> (reassembly_error, u8 list) go \<times> u8 list \<times> conn_in" where
  "readClientHello conn firstHeader = read_records firstHeader firstHeader firstHeader [] conn"

section \<open>Looking for a ClientHello in a buffer\<close>

datatype sniff_error = NotHandshake | BadTLSRecord | LargeClientHello

text \<open>
  \<open>clientHelloFromBytes\<close>: \<open>Inr None\<close> is the source's \<open>(nil, false, nil)\<close>, more bytes needed;
  \<open>first\<close> is \<open>None\<close> until the first header has been copied.
\<close>

definition sniff_total :: "u8 list \<Rightarrow> (sniff_error, bool) go" where
  "sniff_total bodies =
     (if length bodies \<ge> 4 then
        (if message_total bodies > maxClientHello then fail LargeClientHello
         else Inr (length bodies \<ge> message_total bodies))
      else Inr False)"

function sniff_loop ::
  "u8 list \<Rightarrow> nat \<Rightarrow> u8 list option \<Rightarrow> u8 list \<Rightarrow> (sniff_error, u8 list option) go" where
  "sniff_loop raw off first bodies =
     (if length raw - off < 5 then Inr None
      else ebind (slice raw off (off + 5)) (\<lambda>h.
        let first' = (case first of None \<Rightarrow> h | Some f \<Rightarrow> f) in
        ebind (byte_at h 0) (\<lambda>t.
          if t \<noteq> recordTypeHandshake then fail NotHandshake
          else ebind (byte_at h 3) (\<lambda>hi. ebind (byte_at h 4) (\<lambda>lo.
            let n = be16n hi lo in
            if n = 0 \<or> n > maxTLSRecordBody then fail BadTLSRecord
            else if length raw - off - 5 < n then Inr None
            else ebind (slice raw (off + 5) (off + 5 + n)) (\<lambda>body.
              ebind (sniff_total (bodies @ body)) (\<lambda>full.
                if full then Inr (Some (first' @ bodies @ body))
                else sniff_loop raw (off + 5 + n) (Some first') (bodies @ body))))))))"
  by pat_completeness auto
termination
  by (relation "measure (\<lambda>(raw, off, first, bodies). length raw - off)") auto

declare sniff_loop.simps [simp del]

definition clientHelloFromBytes :: "u8 list \<Rightarrow> (sniff_error, u8 list option) go" where
  "clientHelloFromBytes raw = sniff_loop raw 0 None []"

section \<open>Reading is lossless\<close>

lemma read_full_Some:
  "read_full n c = (Some b, c') \<longleftrightarrow>
     n \<le> length (ready c) \<and> b = take n (ready c) \<and> c' = c\<lparr>ready := drop n (ready c)\<rparr>"
  by (auto simp: read_full_def)

lemma read_full_None:
  "read_full n c = (None, c') \<longleftrightarrow> length (ready c) < n \<and> c' = c\<lparr>ready := []\<rparr>"
  by (auto simp: read_full_def)

lemmas read_full_cases = read_full_Some read_full_None

lemma check_record_Inr:
  "check_record hdr k = Inr n \<longleftrightarrow>
     4 < length hdr \<and> hdr ! 0 = recordTypeHandshake \<and> n = be16n (hdr ! 3) (hdr ! 4) \<and>
     0 < n \<and> n \<le> maxTLSRecordBody \<and> k + n \<le> maxClientHello"
  by (auto simp: check_record_def ebind_eq_Inr byte_at_eq_Inr Let_def not_less split: if_splits)

lemma check_record_Inl:
  assumes "length hdr = 5"
  shows "check_record hdr k \<noteq> Inl Panic" "check_record hdr k \<noteq> fail ShortRead"
  using assms by (simp_all add: check_record_def Let_def fail_def)

lemma assembled_Inl: "assembled b \<noteq> Inl Panic" "assembled b \<noteq> fail ShortRead"
  by (auto simp: assembled_def fail_def)

lemma assembled_Inr:
  "assembled b = Inr full \<longleftrightarrow>
     (if length b < 4 then \<not> full
      else message_total b \<le> maxClientHello \<and> full = (message_total b \<le> length b))"
  by (auto simp: assembled_def fail_def not_less)

text \<open>
  What every run of the loop has in common: no byte is invented or reordered; bytes are lost
  only by a short read, and then only part of one record; the buffers stay bounded.
\<close>

definition reading_sound ::
  "u8 list \<Rightarrow> conn_in \<Rightarrow> (reassembly_error, u8 list) go \<times> u8 list \<times> conn_in \<Rightarrow> bool" where
  "reading_sound raw c = (\<lambda>(res, raw', c').
     (\<exists>lost. raw' @ lost @ unread c' = raw @ unread c \<and> length lost < maxTLSRecordBody \<and>
        (lost \<noteq> [] \<longrightarrow> res = fail ShortRead \<and> ready c' = [])) \<and>
     length raw' \<le> 5 + 6 * maxClientHello \<and> res \<noteq> Inl Panic \<and> later c' = later c)"

lemma reading_sound_stop:
  "length raw \<le> 5 + 6 * maxClientHello \<Longrightarrow> res \<noteq> Inl Panic \<Longrightarrow> reading_sound raw c (res, raw, c)"
  by (auto simp: reading_sound_def reassembly_limits intro: exI [of _ "[]"])

lemma reading_sound_short:
  "length raw \<le> 5 + 6 * maxClientHello \<Longrightarrow> length (ready c) < n \<Longrightarrow> n \<le> maxTLSRecordBody \<Longrightarrow>
   reading_sound raw c (fail ShortRead, raw, c\<lparr>ready := []\<rparr>)"
  by (auto simp: reading_sound_def unread_def fail_def)

lemma reading_sound_step:
  assumes "reading_sound (raw @ take n (ready c)) (c\<lparr>ready := drop n (ready c)\<rparr>) r"
  shows "reading_sound raw c r"
proof -
  have "(raw @ take n (ready c)) @ unread (c\<lparr>ready := drop n (ready c)\<rparr>) = raw @ unread c"
    by (simp add: unread_def)
  then show ?thesis
    using assms unfolding reading_sound_def by simp
qed

lemma read_records_sound:
  assumes "length hdr = 5" "length bodies \<le> maxClientHello" "length raw \<le> 5 + 6 * length bodies"
  shows "reading_sound raw c (read_records f hdr raw bodies c)"
  using assms
proof (induction f hdr raw bodies c rule: read_records.induct)
  case (1 f hdr raw bodies c)
  have raw: "length raw \<le> 5 + 6 * maxClientHello" using "1.prems" by simp
  show ?case
  proof (cases "check_record hdr (length bodies)")
    case (Inl e)
    then show ?thesis
      using raw check_record_Inl(1) [OF 1(2)]
      by (auto simp: read_records.simps [of f hdr] intro: reading_sound_stop)
  next
    case (Inr n)
    note guard = Inr [unfolded check_record_Inr]
    show ?thesis
    proof (cases "n \<le> length (ready c)")
      case False
      then show ?thesis
        using raw guard Inr
        by (auto simp: read_records.simps [of f hdr] read_full_def not_le intro!: reading_sound_short)
    next
      case True
      let ?b = "take n (ready c)" and ?c = "c\<lparr>ready := drop n (ready c)\<rparr>"
      have len: "length (bodies @ ?b) \<le> maxClientHello" "length (raw @ ?b) + 5 \<le> 5 + 6 * length (bodies @ ?b)"
        using guard True 1(4) by simp_all
      have "reading_sound (raw @ ?b) ?c (read_records f hdr raw bodies c)"
      proof (cases "assembled (bodies @ ?b)")
        case (Inl e)
        then show ?thesis
          using len assembled_Inl(1) [of "bodies @ ?b"] Inr True
          by (auto simp: read_records.simps [of f hdr] read_full_def intro!: reading_sound_stop)
      next
        case (Inr full)
        show ?thesis
        proof (cases "full \<or> length (ready ?c) < 5")
          case True
          then show ?thesis
            using len Inr \<open>check_record hdr (length bodies) = Inr n\<close> \<open>n \<le> length (ready c)\<close>
            using reading_sound_short [of "raw @ ?b" ?c 5]
            by (auto simp: read_records.simps [of f hdr] read_full_def not_le reassembly_limits
                intro!: reading_sound_stop split: bool.split)
        next
          case False
          let ?h = "take 5 (ready ?c)" and ?d = "?c\<lparr>ready := drop 5 (ready ?c)\<rparr>"
          have step: "read_records f hdr raw bodies c = read_records f ?h ((raw @ ?b) @ ?h) (bodies @ ?b) ?d"
            using False Inr \<open>check_record hdr (length bodies) = Inr n\<close> \<open>n \<le> length (ready c)\<close>
            by (simp add: read_records.simps [of f hdr] read_full_def)
          have "reading_sound (raw @ ?b @ ?h) ?d (read_records f ?h (raw @ ?b @ ?h) (bodies @ ?b) ?d)"
            using False len Inr \<open>check_record hdr (length bodies) = Inr n\<close> \<open>n \<le> length (ready c)\<close>
            by (intro 1(1)) (auto simp: read_full_def)
          then show ?thesis
            unfolding step by (intro reading_sound_step [of "raw @ ?b" 5 ?c]) simp
        qed
      qed
      then show ?thesis by (rule reading_sound_step)
    qed
  qed
qed

lemma readClientHello_sound:
  "length h = 5 \<Longrightarrow> reading_sound h c (readClientHello c h)"
  unfolding readClientHello_def by (rule read_records_sound) simp_all

text \<open>
  What \<open>readClientHello\<close> took from the connection and what is left of it are, in this
  order, the bytes the client sent: nothing is invented, reordered or duplicated. Bytes
  can be missing only after a short read, and then they are the tail of the last, incomplete
  record header or body.
\<close>

theorem readClientHello_lossless:
  assumes "readClientHello c h = (res, raw, c')" and "length h = 5"
  shows "\<exists>lost. raw @ lost @ unread c' = h @ unread c \<and> length lost < maxTLSRecordBody \<and>
    (lost \<noteq> [] \<longrightarrow> res = fail ShortRead \<and> ready c' = [])"
  using readClientHello_sound [OF assms(2), of c] assms(1) by (simp add: reading_sound_def)

definition two_records :: "u8 list" where
  "two_records = [0x16, 3, 1, 0, 2, 1, 0, 0x16, 3, 1, 0, 3, 0, 1, 42]"

lemmas reader_simps = readClientHello_def read_records.simps read_full_def check_record_def
  assembled_def message_total_def reassembly_limits be16n_def be24n_def Let_def

lemma readClientHello_lossless_witness:
  "\<exists>lost. [0x16, 3, 1, 0, 2, 1, 0, 0x16, 3, 1, 0, 3, 0, 1, 42] @ lost @ [7, 8] =
     [0x16, 3, 1, 0, 2] @ [1, 0, 0x16, 3, 1, 0, 3, 0, 1, 42, 7, 8] \<and> lost = []"
  using readClientHello_lossless [of "\<lparr>ready = [1, 0, 0x16, 3, 1, 0, 3, 0, 1, 42, 7], later = [8]\<rparr>"
      "[0x16, 3, 1, 0, 2]" "Inr [0x16, 3, 1, 0, 2, 1, 0, 0, 1, 42]"
      "[0x16, 3, 1, 0, 2, 1, 0, 0x16, 3, 1, 0, 3, 0, 1, 42]" "\<lparr>ready = [7], later = [8]\<rparr>"]
  by (simp add: reader_simps unread_def fail_def)

text \<open>
  The other side of it: after a short read the bytes of the incomplete record are in neither
  \<open>raw\<close> nor the rest, although the comment of \<open>readClientHello\<close> says that \<open>raw\<close> is every byte
  consumed. A connection that is allowed through anyway (allow-unknown, or a trusted source)
  then forwards a stream with a gap: here the bytes 1 and 0 are gone, and 7 follows the header.
\<close>

lemma readClientHello_short_read_loses_bytes:
  "readClientHello \<lparr>ready = [1, 0], later = [7]\<rparr> [0x16, 3, 1, 0, 9] =
     (fail ShortRead, [0x16, 3, 1, 0, 9], \<lparr>ready = [], later = [7]\<rparr>)"
  by (simp add: reader_simps)

text \<open>The six ways one round of the loop can go.\<close>

lemma read_records_cases [case_names reject short refuse full cut again]:
  fixes f hdr raw bodies :: "u8 list" and c :: conn_in
  obtains e where "check_record hdr (length bodies) = Inl e"
      "read_records f hdr raw bodies c = (Inl e, raw, c)"
  | n where "check_record hdr (length bodies) = Inr n" "length (ready c) < n"
      "read_records f hdr raw bodies c = (fail ShortRead, raw, c\<lparr>ready := []\<rparr>)"
  | n b s e where "check_record hdr (length bodies) = Inr n" "ready c = b @ s" "length b = n"
      "assembled (bodies @ b) = Inl e"
      "read_records f hdr raw bodies c = (Inl e, raw @ b, c\<lparr>ready := s\<rparr>)"
  | n b s where "check_record hdr (length bodies) = Inr n" "ready c = b @ s" "length b = n"
      "assembled (bodies @ b) = Inr True"
      "read_records f hdr raw bodies c = (Inr (f @ bodies @ b), raw @ b, c\<lparr>ready := s\<rparr>)"
  | n b s where "check_record hdr (length bodies) = Inr n" "ready c = b @ s" "length b = n"
      "assembled (bodies @ b) = Inr False" "length s < 5"
      "read_records f hdr raw bodies c = (fail ShortRead, raw @ b, c\<lparr>ready := []\<rparr>)"
  | n b h s where "check_record hdr (length bodies) = Inr n" "ready c = b @ h @ s" "length b = n"
      "assembled (bodies @ b) = Inr False" "length h = 5"
      "read_records f hdr raw bodies c =
         read_records f h (raw @ b @ h) (bodies @ b) (c\<lparr>ready := s\<rparr>)"
proof (cases "check_record hdr (length bodies)")
  case (Inl e)
  then show thesis by (intro that(1)) (auto simp: read_records.simps [of f hdr])
next
  case (Inr n)
  show thesis
  proof (cases "n \<le> length (ready c)")
    case False
    with Inr show thesis
      by (intro that(2) [of n]) (auto simp: read_records.simps [of f hdr] read_full_def)
  next
    case True
    then obtain b s where bs: "ready c = b @ s" "length b = n"
      by (metis append_take_drop_id length_take min.absorb2)
    note step = read_records.simps [of f hdr raw bodies c, unfolded Inr sum.case read_full_def bs]
    show thesis
    proof (cases "assembled (bodies @ b)")
      case (Inl e)
      with \<open>check_record hdr (length bodies) = Inr n\<close> bs step show thesis
        by (intro that(3) [of n b s e]) auto
    next
      case [simp]: (Inr full)
      show thesis
      proof (cases full; cases "length s < 5")
        assume "\<not> full" "\<not> length s < 5"
        with \<open>check_record hdr (length bodies) = Inr n\<close> bs step show thesis
          by (intro that(6) [of n b "take 5 s" "drop 5 s"]) auto
      qed (use \<open>check_record hdr (length bodies) = Inr n\<close> bs step in
          \<open>auto intro: that(4) [of n b s] that(5) [of n b s]\<close>)
    qed
  qed
qed

lemma read_records_Inr:
  assumes "read_records f hdr raw bodies c = (Inr buf, raw', c')"
  shows "\<exists>m. buf = f @ m \<and> 4 \<le> length m \<and> message_total m \<le> length m \<and> length m \<le> maxClientHello"
  using assms
proof (induction "length (ready c)" arbitrary: hdr raw bodies c rule: less_induct)
  case less
  show ?case
  proof (cases rule: read_records_cases [of hdr bodies f raw c])
    case (full n b s)
    then show ?thesis
      using less.prems by (auto simp: check_record_Inr assembled_Inr split: if_splits)
  next
    case (again n b h s)
    then show ?thesis using less.prems by (intro less.hyps) (auto simp: again)
  qed (use less.prems in auto)
qed

text \<open>
  C12: the reader is bounded and its result is a whole message. Whatever a client sends,
  \<open>readClientHello\<close> does not panic and holds at most \<open>5 + 6 * 64 KiB\<close> of raw bytes; what it
  returns on success is the first record header followed by at most 64 KiB of handshake
  bytes that contain the complete declared message.
\<close>

theorem readClientHello_bounded:
  assumes "length h = 5"
  shows "case readClientHello c h of (res, raw, c') \<Rightarrow>
    length raw \<le> 5 + 6 * maxClientHello \<and> res \<noteq> Inl Panic \<and>
    (\<forall>buf. res = Inr buf \<longrightarrow> (\<exists>m. buf = h @ m \<and> 4 \<le> length m \<and>
       message_total m \<le> length m \<and> length m \<le> maxClientHello))"
  using readClientHello_sound [OF assms, of c] read_records_Inr [of h h h "[]" c]
  by (auto simp: reading_sound_def readClientHello_def)

lemma readClientHello_bounded_witness:
  "case readClientHello \<lparr>ready = [1, 0, 0, 1, 42], later = []\<rparr> [0x16, 3, 1, 0, 5] of (res, raw, c') \<Rightarrow>
    length raw \<le> 5 + 6 * maxClientHello \<and> res = Inr [0x16, 3, 1, 0, 5, 1, 0, 0, 1, 42]"
  using readClientHello_bounded [of "[0x16, 3, 1, 0, 5]" "\<lparr>ready = [1, 0, 0, 1, 42], later = []\<rparr>"]
  by (simp add: reader_simps fail_def)

section \<open>Fragmentation does not matter\<close>

text \<open>
  The wire image of a record: two free version bytes and a body. A list of records carries
  the concatenation of the bodies.
\<close>

definition record_bytes :: "(u8 \<times> u8) \<times> u8 list \<Rightarrow> u8 list" where
  "record_bytes = (\<lambda>((a, b), body). [recordTypeHandshake, a, b] @ put16n (length body) @ body)"

definition record_header :: "(u8 \<times> u8) \<times> u8 list \<Rightarrow> u8 list" where
  "record_header r = take 5 (record_bytes r)"

definition records_wire :: "((u8 \<times> u8) \<times> u8 list) list \<Rightarrow> u8 list" where
  "records_wire rs = concat (map record_bytes rs)"

definition records_message :: "((u8 \<times> u8) \<times> u8 list) list \<Rightarrow> u8 list" where
  "records_message rs = concat (map snd rs)"

definition whole :: "u8 list \<Rightarrow> bool" where
  "whole m \<longleftrightarrow> 4 \<le> length m \<and> message_total m \<le> length m"

text \<open>
  A sender's choice of records for one message: every body is between 1 byte and the limit,
  the message is whole and within the limit with the last record, and not before it.
\<close>

definition fragmentation :: "((u8 \<times> u8) \<times> u8 list) list \<Rightarrow> bool" where
  "fragmentation rs \<longleftrightarrow>
     rs \<noteq> [] \<and> (\<forall>r \<in> set rs. 0 < length (snd r) \<and> length (snd r) \<le> maxTLSRecordBody) \<and>
     length (records_message rs) \<le> maxClientHello \<and> whole (records_message rs) \<and>
     \<not> whole (records_message (butlast rs))"

lemma record_bytes_split: "record_bytes r = record_header r @ snd r"
  by (cases r, cases "fst r") (auto simp: record_header_def record_bytes_def put16n_def)

lemma length_record_header [simp]: "length (record_header r) = 5"
  by (cases r, cases "fst r") (auto simp: record_header_def record_bytes_def)

lemma check_record_header:
  assumes "0 < length (snd r)" "length (snd r) \<le> maxTLSRecordBody" "k + length (snd r) \<le> maxClientHello"
  shows "check_record (record_header r) k = Inr (length (snd r))"
proof -
  have "length (snd r) < 65536" using assms by (simp add: reassembly_limits)
  with assms show ?thesis
    by (cases r, cases "fst r")
      (simp add: check_record_Inr record_header_def record_bytes_def put16n_def be16n_put)
qed

lemma message_total_append: "4 \<le> length m \<Longrightarrow> message_total (m @ x) = message_total m"
  by (simp add: message_total_def nth_append)

lemma whole_append: "whole m \<Longrightarrow> whole (m @ x)"
  by (auto simp: whole_def message_total_append)

lemma assembled_prefix:
  assumes "whole (m @ x)" "length (m @ x) \<le> maxClientHello"
  shows "assembled m = Inr (whole m)"
  using assms by (auto simp: assembled_Inr whole_def message_total_append)

lemma read_records_fragments:
  assumes "rs \<noteq> []" "\<forall>r \<in> set rs. 0 < length (snd r) \<and> length (snd r) \<le> maxTLSRecordBody"
    and "length (bodies @ records_message rs) \<le> maxClientHello"
    and "whole (bodies @ records_message rs)" and "\<not> whole (bodies @ records_message (butlast rs))"
    and "record_header (hd rs) @ ready c = records_wire rs @ rest"
  shows "read_records f (record_header (hd rs)) raw bodies c =
    (Inr (f @ bodies @ records_message rs), raw @ drop 5 (records_wire rs), c\<lparr>ready := rest\<rparr>)"
  using assms
proof (induction rs arbitrary: raw bodies c)
  case (Cons r rs)
  then have chk: "check_record (record_header r) (length bodies) = Inr (length (snd r))"
    by (intro check_record_header) (auto simp: records_message_def)
  have ready: "ready c = snd r @ records_wire rs @ rest"
    using Cons.prems(6) by (simp add: records_wire_def record_bytes_split)
  have asm: "assembled (bodies @ snd r) = Inr (whole (bodies @ snd r))"
    using Cons.prems(3,4) by (intro assembled_prefix [of _ "records_message rs"]) (auto simp: records_message_def)
  show ?case
  proof (cases "rs = []")
    case True
    then show ?thesis
      using chk ready asm Cons.prems(4)
      by (simp add: read_records.simps [of f "record_header r"] read_full_def records_message_def
        records_wire_def record_bytes_split)
  next
    case False
    then have "\<not> whole (bodies @ snd r)"
      using Cons.prems(5) whole_append [of "bodies @ snd r"] by (auto simp: records_message_def)
    moreover obtain r' rs' where rs: "rs = r' # rs'" using False by (cases rs) auto
    ultimately have "read_records f (record_header r) raw bodies c =
        read_records f (record_header r') (raw @ snd r @ record_header r') (bodies @ snd r)
          (c\<lparr>ready := snd r' @ records_wire rs' @ rest\<rparr>)"
      using chk ready asm
      by (simp add: read_records.simps [of f "record_header r"] read_full_def records_wire_def record_bytes_split)
    also have "\<dots> = (Inr (f @ (bodies @ snd r) @ records_message rs),
        (raw @ snd r @ record_header r') @ drop 5 (records_wire rs),
        (c\<lparr>ready := snd r' @ records_wire rs' @ rest\<rparr>)\<lparr>ready := rest\<rparr>)"
    proof -
      let ?c = "c\<lparr>ready := snd r' @ records_wire rs' @ rest\<rparr>"
      have "record_header (hd rs) @ ready ?c = records_wire rs @ rest"
        by (simp add: rs records_wire_def record_bytes_split)
      moreover have "records_message (r # rs) = snd r @ records_message rs"
        "records_message (butlast (r # rs)) = snd r @ records_message (butlast rs)"
        using False by (simp_all add: records_message_def)
      ultimately show ?thesis
        using Cons.IH [of "bodies @ snd r" ?c "raw @ snd r @ record_header r'"] Cons.prems False
        by (simp add: rs)
    qed
    finally show ?thesis
      by (simp add: rs records_message_def records_wire_def record_bytes_split)
  qed
qed simp

lemma record_header_bytes:
  "\<exists>h4. record_header r = recordTypeHandshake # h4 \<and> length h4 = 4"
  by (cases r, cases "fst r") (simp add: record_header_def record_bytes_def put16n_def)

lemma records_wire_header:
  assumes "fragmentation rs"
  shows "take 5 (records_wire rs) = record_header (hd rs)" "5 \<le> length (records_wire rs)"
    "records_wire rs = record_header (hd rs) @ drop 5 (records_wire rs)"
  using assms by (cases rs; simp add: fragmentation_def records_wire_def record_bytes_split)+

lemma read_fragments:
  assumes "fragmentation rs" and "ready c0 = records_wire rs @ rest"
  shows "\<exists>c. read_full 5 c0 = (Some (record_header (hd rs)), c) \<and>
    readClientHello c (record_header (hd rs)) =
      (Inr (record_header (hd rs) @ records_message rs), records_wire rs, c0\<lparr>ready := rest\<rparr>)"
proof -
  note wire = records_wire_header [OF assms(1)]
  let ?c = "c0\<lparr>ready := drop 5 (records_wire rs) @ rest\<rparr>"
  have "read_full 5 c0 = (Some (record_header (hd rs)), ?c)"
    using wire(1,2) by (simp add: read_full_def assms(2))
  moreover have "readClientHello ?c (record_header (hd rs)) =
      (Inr (record_header (hd rs) @ records_message rs), records_wire rs, ?c\<lparr>ready := rest\<rparr>)"
    unfolding readClientHello_def
    using read_records_fragments [of rs "[]" ?c rest "record_header (hd rs)" "record_header (hd rs)"]
      assms(1) wire(3)
    by (simp add: fragmentation_def)
  ultimately show ?thesis by auto
qed

text \<open>
  C7: the cut into records does not matter. For every handshake message and every way to
  cut it into records (any byte boundary, a first record of fewer than four bytes
  included), \<open>readClientHello\<close> returns the first header with the whole message, forwards
  exactly the bytes of the records, and leaves what follows unread.
\<close>

theorem readClientHello_fragmentation:
  assumes "fragmentation rs" and "ready c = drop 5 (records_wire rs) @ rest"
  shows "readClientHello c (record_header (hd rs)) =
    (Inr (record_header (hd rs) @ records_message rs), records_wire rs, c\<lparr>ready := rest\<rparr>)"
proof -
  have "rs \<noteq> []" using assms(1) by (simp add: fragmentation_def)
  then have wire: "records_wire rs = record_header (hd rs) @ drop 5 (records_wire rs)"
    by (cases rs) (simp_all add: records_wire_def record_bytes_split)
  then have "record_header (hd rs) @ ready c = records_wire rs @ rest"
    using assms(2) by (metis append_assoc)
  then show ?thesis
    unfolding readClientHello_def
    using assms(1) read_records_fragments [of rs "[]" c rest "record_header (hd rs)" "record_header (hd rs)"] wire
    by (simp add: fragmentation_def)
qed

lemma readClientHello_fragmentation_witness:
  "readClientHello \<lparr>ready = [1, 0, 0x16, 3, 1, 0, 3, 0, 1, 42] @ [7], later = []\<rparr> [0x16, 3, 1, 0, 2] =
     (Inr ([0x16, 3, 1, 0, 2] @ [1, 0, 0, 1, 42]), [0x16, 3, 1, 0, 2, 1, 0, 0x16, 3, 1, 0, 3, 0, 1, 42],
      \<lparr>ready = [7], later = []\<rparr>)"
  using readClientHello_fragmentation [of "[((3, 1), [1, 0]), ((3, 1), [0, 1, 42])]"
      "\<lparr>ready = [1, 0, 0x16, 3, 1, 0, 3, 0, 1, 42] @ [7], later = []\<rparr>" "[7]"]
  by (simp add: fragmentation_def records_wire_def records_message_def record_header_def
      record_bytes_def put16n_def whole_def message_total_def be24n_def reassembly_limits)

section \<open>The two readers agree\<close>

text \<open>
  What \<open>clientHelloFromBytes\<close> should say of a buffer, in terms of what \<open>readClientHello\<close>
  does on a connection that delivers these bytes and then nothing.
\<close>

fun sniff_view :: "(reassembly_error, u8 list) go \<Rightarrow> (sniff_error, u8 list option) go" where
  "sniff_view (Inr p) = Inr (Some p)"
| "sniff_view (Inl Panic) = Inl Panic"
| "sniff_view (Inl (Err ShortRead)) = Inr None"
| "sniff_view (Inl (Err ClientHelloExceeds)) = Inr None"
| "sniff_view (Inl (Err (NonHandshakeRecord _))) = fail NotHandshake"
| "sniff_view (Inl (Err (InvalidRecordBody _))) = fail BadTLSRecord"
| "sniff_view (Inl (Err (ClientHelloTooLarge _))) = fail LargeClientHello"

lemma sniff_total_assembled:
  "sniff_total b = (case assembled b of Inr x \<Rightarrow> Inr x | Inl e \<Rightarrow> fail LargeClientHello)"
  by (simp add: sniff_total_def assembled_def fail_def)

lemma sniff_view_check:
  assumes "check_record h k = Inl e" "length h = 5"
  obtains "h ! 0 \<noteq> recordTypeHandshake" "sniff_view (Inl e) = fail NotHandshake"
  | "h ! 0 = recordTypeHandshake" "be16n (h ! 3) (h ! 4) = 0 \<or> be16n (h ! 3) (h ! 4) > maxTLSRecordBody"
    "sniff_view (Inl e) = fail BadTLSRecord"
  | "h ! 0 = recordTypeHandshake" "\<not> (be16n (h ! 3) (h ! 4) = 0 \<or> be16n (h ! 3) (h ! 4) > maxTLSRecordBody)"
    "k + be16n (h ! 3) (h ! 4) > maxClientHello" "sniff_view (Inl e) = Inr None"
  using assms by (auto simp: check_record_def Let_def fail_def split: if_splits)

text \<open>One round of the buffer loop, with the header and the bytes after it named.\<close>

lemma length_of_drop: "drop off buf = x # s \<Longrightarrow> length buf = off + 1 + length s"
proof -
  assume d: "drop off buf = x # s"
  have "length buf - off = length (drop off buf)" by simp
  also have "\<dots> = 1 + length s" unfolding d by simp
  finally show ?thesis by linarith
qed

lemma length_of_drop5:
  assumes "drop off buf = h @ s" "length h = 5"
  shows "length buf = off + 5 + length s"
proof -
  obtain x h' where "h = x # h'" using assms(2) by (cases h) auto
  then show ?thesis using length_of_drop [of off buf x "h' @ s"] assms by simp
qed

lemma sniff_loop_round:
  assumes "drop off buf = h @ s" "length h = 5"
  shows "sniff_loop buf off first bodies =
    (let n = be16n (h ! 3) (h ! 4); f = (case first of None \<Rightarrow> h | Some f \<Rightarrow> f) in
     if h ! 0 \<noteq> recordTypeHandshake then fail NotHandshake
     else if n = 0 \<or> n > maxTLSRecordBody then fail BadTLSRecord
     else if length s < n then Inr None
     else case assembled (bodies @ take n s) of Inl e \<Rightarrow> fail LargeClientHello
       | Inr True \<Rightarrow> Inr (Some (f @ bodies @ take n s))
       | Inr False \<Rightarrow> sniff_loop buf (off + 5 + n) (Some f) (bodies @ take n s))"
proof -
  let ?n = "be16n (h ! 3) (h ! 4)"
  note len = length_of_drop5 [OF assms]
  have hd: "slice buf off (off + 5) = (Inr h :: (sniff_error, u8 list) go)"
    using assms len by (simp add: slice_def)
  have body: "slice buf (off + 5) (off + 5 + ?n) = (Inr (take ?n s) :: (sniff_error, u8 list) go)"
    if "?n \<le> length s"
  proof -
    have "drop (off + 5) buf = s" using assms by (metis add.commute append_eq_conv_conj drop_drop)
    then show ?thesis using that len by (simp add: slice_def)
  qed
  have "\<not> length buf - off < 5" "length buf - off - 5 = length s" using len by auto
  then show ?thesis
    unfolding sniff_loop.simps [of buf off] hd
    using assms(2) body by (simp add: Let_def sniff_total_assembled not_less split: sum.split bool.split)
qed

lemma sniff_simulates:
  assumes "drop off buf = h @ ready c" "length h = 5" "length bodies \<le> off" "length buf \<le> maxClientHello"
    and "f = (case first of None \<Rightarrow> h | Some f \<Rightarrow> f)"
  shows "sniff_loop buf off first bodies = sniff_view (fst (read_records f h raw bodies c))"
  using assms
proof (induction "length (ready c)" arbitrary: off h first bodies raw c rule: less_induct)
  case less
  note round = sniff_loop_round [OF less.prems(1,2), of first bodies, folded less.prems(5)]
  note len = length_of_drop5 [OF less.prems(1,2)]
  show ?case
  proof (cases rule: read_records_cases [of h bodies f raw c])
    case (reject e)
    from sniff_view_check [OF reject(1) less.prems(2)] show ?thesis
      using less.prems(3,4) len by cases (auto simp: round reject Let_def)
  next
    case (again n b h' s)
    have "drop (off + 5 + n) buf = drop n (drop 5 (drop off buf))"
      by (simp add: add.commute add.left_commute)
    also have "\<dots> = h' @ s"
      unfolding less.prems(1) using less.prems(2) again(2,3) by simp
    finally have "drop (off + 5 + n) buf = h' @ s" .
    then have "sniff_loop buf (off + 5 + n) (Some f) (bodies @ b) =
        sniff_view (fst (read_records f h' (raw @ b @ h') (bodies @ b) (c\<lparr>ready := s\<rparr>)))"
      using again less.prems by (intro less.hyps) simp_all
    then show ?thesis
      using again by (auto simp: round Let_def check_record_Inr)
  next
    case (refuse n b s e)
    then have "sniff_view (Inl e) = fail LargeClientHello"
      by (auto simp: assembled_def fail_def split: if_splits)
    then show ?thesis
      using refuse by (auto simp: round Let_def check_record_Inr)
  next
    case (cut n b s)
    then have "length buf - (off + 5 + n) < 5" using len by simp
    then have "sniff_loop buf (off + 5 + n) (Some f) (bodies @ b) = Inr None"
      by (subst sniff_loop.simps) simp
    then show ?thesis
      using cut by (auto simp: round Let_def check_record_Inr fail_def)
  qed (auto simp: round Let_def check_record_Inr fail_def)
qed

lemma clientHelloFromBytes_eq:
  assumes "length buf \<le> maxClientHello"
  shows "clientHelloFromBytes buf =
    (if length buf < 5 then Inr None
     else sniff_view (fst (readClientHello \<lparr>ready = drop 5 buf, later = l\<rparr> (take 5 buf))))"
proof (cases "length buf < 5")
  case True
  then show ?thesis by (simp add: clientHelloFromBytes_def sniff_loop.simps)
next
  case False
  then show ?thesis
    using assms unfolding clientHelloFromBytes_def readClientHello_def
    by (simp, intro sniff_simulates) simp_all
qed

text \<open>
  C11: the SMTP observer and the TLS gate read the same ClientHello. For every buffer of at
  most 64 KiB, the size \<open>observeTLS\<close> keeps, \<open>clientHelloFromBytes\<close> says exactly what
  \<open>readClientHello\<close> would say of a connection that delivers these bytes: the same parse
  buffer, the matching error, and "not complete" where the reader ran out of bytes or over
  its size limit.
\<close>

theorem clientHelloFromBytes_agrees:
  assumes "length buf \<le> maxClientHello"
  shows "clientHelloFromBytes buf =
    (if length buf < 5 then Inr None
     else sniff_view (fst (readClientHello \<lparr>ready = drop 5 buf, later = l\<rparr> (take 5 buf))))"
  by (rule clientHelloFromBytes_eq [OF assms])

lemma clientHelloFromBytes_agrees_witness:
  "clientHelloFromBytes [0x16, 3, 1, 0, 2, 1, 0, 0x16, 3, 1, 0, 3, 0, 1, 42] =
     Inr (Some [0x16, 3, 1, 0, 2, 1, 0, 0, 1, 42])"
  using clientHelloFromBytes_agrees [of "[0x16, 3, 1, 0, 2, 1, 0, 0x16, 3, 1, 0, 3, 0, 1, 42]" "[]"]
  by (simp add: reader_simps)

lemma sniff_loop_stable:
  assumes "sniff_loop buf off first bodies \<noteq> Inr None"
  shows "sniff_loop (buf @ rest) off first bodies = sniff_loop buf off first bodies"
  using assms
proof (induction "length buf - off" arbitrary: off first bodies rule: less_induct)
  case less
  have "\<not> length buf - off < 5"
    using less.prems by (auto simp: sniff_loop.simps [of buf off])
  then obtain h s where h: "drop off buf = h @ s" "length h = 5"
    by (metis append_take_drop_id length_drop length_take min.absorb2 not_less)
  note len = length_of_drop5 [OF h]
  have h': "drop off (buf @ rest) = h @ (s @ rest)" using h len by simp
  let ?n = "be16n (h ! 3) (h ! 4)"
  have round: "\<not> length s < ?n \<Longrightarrow> take ?n (s @ rest) = take ?n s" by simp
  have "sniff_loop buf (off + 5 + ?n) f b \<noteq> Inr None \<Longrightarrow> 0 < ?n \<Longrightarrow>
      sniff_loop (buf @ rest) (off + 5 + ?n) f b = sniff_loop buf (off + 5 + ?n) f b" for f b
    using less.hyps [of "off + 5 + ?n"] len by simp
  then show ?case
    using less.prems unfolding sniff_loop_round [OF h] sniff_loop_round [OF h' h(2)]
    by (auto simp: Let_def round split: sum.splits bool.splits if_splits)
qed

text \<open>
  The observer's verdict does not depend on how the stream arrives. Once
  \<open>clientHelloFromBytes\<close> has found a ClientHello, or refused the bytes, no further bytes
  change that, so looking again at a longer buffer gives the same answer.
\<close>

theorem clientHelloFromBytes_stable:
  assumes "clientHelloFromBytes buf \<noteq> Inr None"
  shows "clientHelloFromBytes (buf @ rest) = clientHelloFromBytes buf"
  using sniff_loop_stable assms unfolding clientHelloFromBytes_def by blast

lemma clientHelloFromBytes_stable_witness:
  "clientHelloFromBytes ([0x16, 3, 1, 0, 5, 1, 0, 0, 1, 42] @ [0x16, 0]) =
     Inr (Some [0x16, 3, 1, 0, 5, 1, 0, 0, 1, 42])"
proof -
  have "clientHelloFromBytes [0x16, 3, 1, 0, 5, 1, 0, 0, 1, 42] =
      Inr (Some [0x16, 3, 1, 0, 5, 1, 0, 0, 1, 42])"
    by (simp add: clientHelloFromBytes_def sniff_loop.simps slice_def sniff_total_def message_total_def
        reassembly_limits be16n_def be24n_def Let_def)
  then show ?thesis
    using clientHelloFromBytes_stable [of "[0x16, 3, 1, 0, 5, 1, 0, 0, 1, 42]" "[0x16, 0]"] by simp
qed

end
