(* ===== verification/Smtp_Observer.thy ===== *)
theory Smtp_Observer
  imports Smtp_Behavior Record_Reassembly Fingerprints
begin

text \<open>
  The passive SMTP observer of \<open>smtp_proxy.go\<close>: \<open>smtpObserver\<close> with its \<open>client\<close>, \<open>server\<close> and
  \<open>observeTLS\<close> handlers and the final \<open>state\<close>. The two pumps call the handlers under a lock,
  so a session is a sequence of steps, each with the bytes of one read and what the clock says
  while they are handled. The
  theorems: bounds on everything it stores, states that never change again, a fingerprint
  event exactly once and only after an accepted STARTTLS, and the same fingerprint however
  the TLS bytes arrive.
\<close>

section \<open>The observer\<close>

text \<open>\<open>smtpEvent\<close>; the emitter adds version and instance.\<close>

record smtp_event =
  ev_Version :: int
  ev_Type :: string
  ev_Timestamp :: time
  ev_Instance :: string
  ev_ConnectionID :: string
  ev_Client :: string
  ev_Listener :: string
  ev_Backend :: string
  ev_JA3 :: string
  ev_JA4 :: string
  ev_Error :: string
  ev_State :: string
  ev_Behavior :: "smtp_behavior option"

text \<open>The observer's fields; \<open>emitted\<close> is what it passed to \<open>events.emit\<close>, in order.\<close>

record smtp_observer =
  o_method :: fingerprint_method
  o_base :: smtp_event
  clientLines :: string
  serverLines :: string
  o_commands :: "string list"
  inData :: bool
  disabled :: bool
  tlsArmed :: bool
  fingerprinted :: bool
  refused :: bool
  premature :: bool
  greeted :: bool
  tlsBytes :: "u8 list"
  bdatRemaining :: int
  o_behavior :: behavior_tracker
  emitted :: "smtp_event list"

text \<open>
  The observer asks the clock when it needs the time. \<open>clk n\<close> is its answer while the \<open>n\<close>-th line of
  a read is handled.
\<close>

type_synonym clock = "nat \<Rightarrow> time"

definition maxObservedLine :: nat where
  "maxObservedLine = 64 * 1024"

definition maxPendingCommands :: nat where
  "maxPendingCommands = 256"

text \<open>The position of the first line feed, as \<open>bytes.IndexByte\<close> finds it.\<close>

fun line_end :: "string \<Rightarrow> nat option" where
  "line_end [] = None"
| "line_end (c # s) = (if c = CHR 0x0A then Some 0 else map_option Suc (line_end s))"

lemma line_end_less: "line_end s = Some i \<Longrightarrow> i < length s"
  by (induction s arbitrary: i) (auto split: if_splits)

definition is_crlf :: "char \<Rightarrow> bool" where
  "is_crlf c \<longleftrightarrow> c = CHR 0x0D \<or> c = CHR 0x0A"

text \<open>One command line: \<open>Inl\<close> ends the loop of \<open>client\<close>, \<open>Inr\<close> goes on with the next line.\<close>

definition client_line :: "time \<Rightarrow> smtp_observer \<Rightarrow> string \<Rightarrow> smtp_observer + smtp_observer" where
  "client_line now ob rawLine =
     (let line = trim_right is_crlf rawLine in
      if inData ob then
        Inr (if line = ''.'' then ob\<lparr>inData := False, o_commands := o_commands ob @ [''.'']\<rparr> else ob)
      else
        (let fields = Fields line in
         if fields = [] then Inr ob
         else
           (let verb = canonicalSMTPVerb (hd fields);
                ob = ob\<lparr>o_behavior := command (o_behavior ob) rawLine verb (greeted ob) now\<rparr>
            in if length (o_commands ob) \<ge> maxPendingCommands then Inl (ob\<lparr>disabled := True\<rparr>)
            else
              (let ob = ob\<lparr>o_commands := o_commands ob @ [verb]\<rparr> in
               if verb = ''BDAT'' then
                 (if length fields < 2 then Inl (ob\<lparr>disabled := True\<rparr>)
                  else (case parse_int 32 (fields ! 1) of
                      None \<Rightarrow> Inl (ob\<lparr>disabled := True\<rparr>)
                    | Some n \<Rightarrow> Inr (ob\<lparr>bdatRemaining := n\<rparr>)))
               else Inr ob))))"

lemma client_line_lines:
  "client_line now ob raw = Inr ob' \<Longrightarrow> clientLines ob' = clientLines ob"
  "client_line now ob raw = Inl ob' \<Longrightarrow> clientLines ob' = clientLines ob"
  by (auto simp: client_line_def Let_def split: if_splits option.splits)

text \<open>The \<open>for\<close> loop of \<open>client\<close>.\<close>

function client_loop :: "clock \<Rightarrow> smtp_observer \<Rightarrow> smtp_observer" where
  "client_loop clk ob =
     (if bdatRemaining ob > 0 then
        (let discard = min (length (clientLines ob)) (nat (bdatRemaining ob));
             ob' = ob\<lparr>clientLines := drop discard (clientLines ob),
                      bdatRemaining := bdatRemaining ob - int discard\<rparr>
         in if bdatRemaining ob' > 0 then ob' else client_loop clk ob')
      else if length (clientLines ob) > maxObservedLine then ob\<lparr>disabled := True\<rparr>
      else
        (case line_end (clientLines ob) of
           None \<Rightarrow> ob
         | Some i \<Rightarrow>
             (case client_line (clk 0) (ob\<lparr>clientLines := drop (i + 1) (clientLines ob)\<rparr>)
                  (take (i + 1) (clientLines ob)) of
                Inl ob' \<Rightarrow> ob'
              | Inr ob' \<Rightarrow> client_loop (\<lambda>n. clk (Suc n)) ob')))"
  by pat_completeness auto

termination
proof (relation "measure (\<lambda>(clk, ob). length (clientLines ob))")
  fix ob :: smtp_observer and clk :: clock and discard and ob' :: smtp_observer
  assume a: "bdatRemaining ob > 0" "discard = min (length (clientLines ob)) (nat (bdatRemaining ob))"
    "ob' = ob\<lparr>clientLines := drop discard (clientLines ob), bdatRemaining := bdatRemaining ob - int discard\<rparr>"
    "\<not> bdatRemaining ob' > 0"
  then have "0 < discard" by auto
  then show "((clk, ob'), (clk, ob)) \<in> measure (\<lambda>(clk, ob). length (clientLines ob))"
    using a by auto
qed (auto dest!: client_line_lines line_end_less)

declare client_loop.simps [simp del]

definition observeTLS :: "time \<Rightarrow> smtp_observer \<Rightarrow> u8 list \<Rightarrow> smtp_observer" where
  "observeTLS now ob p =
     (let ob = ob\<lparr>tlsBytes := tlsBytes ob @ p\<rparr> in
      if length (tlsBytes ob) > maxClientHello then ob\<lparr>disabled := True\<rparr>
      else
        (case clientHelloFromBytes (tlsBytes ob) of
           Inl _ \<Rightarrow> ob\<lparr>disabled := True\<rparr>
         | Inr None \<Rightarrow> ob
         | Inr (Some parse) \<Rightarrow>
             (case extractTLSMetadata parse (o_method ob) of
                Inl _ \<Rightarrow> ob\<lparr>disabled := True\<rparr>
              | Inr (_, meta) \<Rightarrow>
                  ob\<lparr>fingerprinted := True,
                    emitted := emitted ob @
                      [(o_base ob)\<lparr>ev_Type := ''fingerprint'', ev_Timestamp := now,
                        ev_JA3 := JA3 meta, ev_JA4 := JA4 meta\<rparr>]\<rparr>)))"

definition client :: "clock \<Rightarrow> smtp_observer \<Rightarrow> u8 list \<Rightarrow> smtp_observer" where
  "client clk ob p =
     (if fingerprinted ob \<or> disabled ob then ob
      else if tlsArmed ob then observeTLS (clk 0) ob p
      else if clientLines ob = [] \<and> \<not> inData ob \<and> bdatRemaining ob = 0 \<and> p \<noteq> [] \<and> hd p = recordTypeHandshake
      then ob\<lparr>premature := True, disabled := True\<rparr>
      else client_loop clk (ob\<lparr>clientLines := clientLines ob @ string_of_bytes p\<rparr>))"

text \<open>One reply line of the server; \<open>Inl\<close> ends the loop (STARTTLS accepted).\<close>

definition server_line :: "time \<Rightarrow> smtp_observer \<Rightarrow> string \<Rightarrow> smtp_observer + smtp_observer" where
  "server_line now ob line =
     (if length line < 3 then Inr ob
      else if length line > 3 \<and> line ! 3 = CHR ''-'' then Inr ob
      else if \<not> greeted ob then Inr (ob\<lparr>greeted := True\<rparr>)
      else (case o_commands ob of
          [] \<Rightarrow> Inr ob
        | cmd # rest \<Rightarrow>
            (let ob = ob\<lparr>o_commands := rest\<rparr>;
                 ob = (if cmd = ''DATA'' \<and> has_prefix line ''354'' then ob\<lparr>inData := True\<rparr> else ob)
             in if cmd = ''STARTTLS'' then
                  (let e = (o_base ob)\<lparr>ev_Type := ''starttls'', ev_Timestamp := now\<rparr> in
                   if has_prefix line ''220'' then
                     Inl (ob\<lparr>o_behavior := (o_behavior ob)\<lparr>starttlsOutcome := ''accepted''\<rparr>,
                            emitted := emitted ob @ [e\<lparr>ev_State := ''accepted''\<rparr>],
                            tlsArmed := True, clientLines := [], serverLines := [], o_commands := []\<rparr>)
                   else
                     Inr (ob\<lparr>refused := True,
                            o_behavior := (o_behavior ob)\<lparr>starttlsOutcome := ''refused''\<rparr>,
                            emitted := emitted ob @ [e\<lparr>ev_State := ''refused''\<rparr>]\<rparr>))
                else Inr ob)))"

lemma server_line_lines:
  "server_line now ob line = Inr ob' \<Longrightarrow> serverLines ob' = serverLines ob"
  by (auto simp: server_line_def Let_def split: if_splits list.splits)

function server_loop :: "clock \<Rightarrow> smtp_observer \<Rightarrow> smtp_observer" where
  "server_loop clk ob =
     (case line_end (serverLines ob) of
        None \<Rightarrow> ob
      | Some i \<Rightarrow>
          (case server_line (clk 0) (ob\<lparr>serverLines := drop (i + 1) (serverLines ob)\<rparr>)
               (trim_right is_crlf (take (i + 1) (serverLines ob))) of
             Inl ob' \<Rightarrow> ob'
           | Inr ob' \<Rightarrow> server_loop (\<lambda>n. clk (Suc n)) ob'))"
  by pat_completeness auto

termination
  by (relation "measure (\<lambda>(clk, ob). length (serverLines ob))") (auto dest!: server_line_lines line_end_less)

declare server_loop.simps [simp del]

definition server :: "clock \<Rightarrow> smtp_observer \<Rightarrow> u8 list \<Rightarrow> smtp_observer" where
  "server clk ob p =
     (if fingerprinted ob \<or> disabled ob \<or> tlsArmed ob then ob
      else
        (let ob = ob\<lparr>serverLines := serverLines ob @ string_of_bytes p\<rparr> in
         if length (serverLines ob) > maxObservedLine then ob\<lparr>disabled := True\<rparr>
         else server_loop clk ob))"

definition behaviorSnapshot :: "smtp_observer \<Rightarrow> smtp_behavior" where
  "behaviorSnapshot ob = snapshot (o_behavior ob) (ev_Timestamp (o_base ob)) (disabled ob)"

definition observer_state :: "smtp_observer \<Rightarrow> string" where
  "observer_state ob =
     (if fingerprinted ob then ''fingerprinted''
      else if tlsArmed ob then ''starttls_accepted_no_fingerprint''
      else if disabled ob then (if premature ob then ''premature_tls'' else ''observer_incomplete'')
      else if refused ob then ''starttls_refused''
      else if \<not> greeted ob \<or> clientLines ob \<noteq> [] \<or> serverLines ob \<noteq> [] then ''observer_incomplete''
      else ''no_observed_upgrade'')"

definition observer_init :: "fingerprint_method \<Rightarrow> smtp_event \<Rightarrow> smtp_observer" where
  "observer_init m base =
     \<lparr>o_method = m, o_base = base, clientLines = [], serverLines = [], o_commands = [], inData = False,
      disabled = False, tlsArmed = False, fingerprinted = False, refused = False, premature = False,
      greeted = False, tlsBytes = [], bdatRemaining = 0, o_behavior = tracker_init, emitted = []\<rparr>"

section \<open>Sessions\<close>

datatype observed_read = FromClient "u8 list" clock | FromServer "u8 list" clock

fun observe_step :: "smtp_observer \<Rightarrow> observed_read \<Rightarrow> smtp_observer" where
  "observe_step ob (FromClient p clk) = client clk ob p"
| "observe_step ob (FromServer p clk) = server clk ob p"

definition observe_session :: "fingerprint_method \<Rightarrow> smtp_event \<Rightarrow> observed_read list \<Rightarrow> smtp_observer" where
  "observe_session m base steps = foldl observe_step (observer_init m base) steps"

section \<open>Invariants\<close>

text \<open>The kind of an emitted event, and the only histories a session can emit.\<close>

definition event_kinds :: "smtp_observer \<Rightarrow> (string \<times> string) list" where
  "event_kinds ob = map (\<lambda>e. (ev_Type e, ev_State e)) (emitted ob)"

definition history_ok :: "smtp_observer \<Rightarrow> bool" where
  "history_ok ob \<longleftrightarrow>
     (\<exists>k. (0 < k \<longleftrightarrow> refused ob) \<and>
        event_kinds ob = replicate k (''starttls'', ''refused'') @
          (if tlsArmed ob then [(''starttls'', ''accepted'')] else []) @
          (if fingerprinted ob then [(''fingerprint'', ev_State (o_base ob))] else []))"

definition observer_ok :: "smtp_observer \<Rightarrow> bool" where
  "observer_ok ob \<longleftrightarrow>
     length (o_commands ob) + (if inData ob then 1 else 0) \<le> maxPendingCommands \<and>
     tracker_ok (o_behavior ob) \<and>
     (\<not> tlsArmed ob \<longrightarrow> \<not> fingerprinted ob \<and> tlsBytes ob = []) \<and>
     (fingerprinted ob \<longrightarrow> \<not> disabled ob) \<and>
     history_ok ob"

lemma history_ok_frame [simp]:
  "history_ok (ob\<lparr>clientLines := a\<rparr>) = history_ok ob"
  "history_ok (ob\<lparr>serverLines := a\<rparr>) = history_ok ob"
  "history_ok (ob\<lparr>bdatRemaining := n\<rparr>) = history_ok ob"
  "history_ok (ob\<lparr>greeted := g\<rparr>) = history_ok ob"
  "history_ok (ob\<lparr>o_commands := cs\<rparr>) = history_ok ob"
  "history_ok (ob\<lparr>o_behavior := b\<rparr>) = history_ok ob"
  "history_ok (ob\<lparr>inData := g\<rparr>) = history_ok ob"
  "history_ok (ob\<lparr>disabled := g\<rparr>) = history_ok ob"
  "history_ok (ob\<lparr>premature := g\<rparr>) = history_ok ob"
  "history_ok (ob\<lparr>tlsBytes := bs\<rparr>) = history_ok ob"
  by (simp_all add: history_ok_def event_kinds_def)

lemma history_ok_refused:
  assumes "history_ok ob" "\<not> tlsArmed ob" "\<not> fingerprinted ob" "ev_Type e = ''starttls''" "ev_State e = ''refused''"
  shows "history_ok (ob\<lparr>refused := True, emitted := emitted ob @ [e]\<rparr>)"
proof -
  obtain k where "event_kinds ob = replicate k (''starttls'', ''refused'')"
    using assms by (auto simp: history_ok_def)
  then have "event_kinds (ob\<lparr>refused := True, emitted := emitted ob @ [e]\<rparr>) = replicate (Suc k) (''starttls'', ''refused'')"
    using assms(4,5) by (simp add: event_kinds_def replicate_append_same [symmetric])
  then show ?thesis
    using assms(2,3) by (auto simp: history_ok_def intro: exI [of _ "Suc k"])
qed

lemma history_ok_accepted:
  assumes "history_ok ob" "\<not> tlsArmed ob" "\<not> fingerprinted ob" "ev_Type e = ''starttls''" "ev_State e = ''accepted''"
  shows "history_ok (ob\<lparr>tlsArmed := True, emitted := emitted ob @ [e]\<rparr>)"
  using assms by (auto simp: history_ok_def event_kinds_def)

lemma history_ok_fingerprint:
  assumes "history_ok ob" "tlsArmed ob" "\<not> fingerprinted ob" "ev_Type e = ''fingerprint''" "ev_State e = ev_State (o_base ob)"
  shows "history_ok (ob\<lparr>fingerprinted := True, emitted := emitted ob @ [e]\<rparr>)"
  using assms by (auto simp: history_ok_def event_kinds_def)

lemma observer_ok_init: "observer_ok (observer_init m base)"
  by (simp add: observer_ok_def observer_init_def tracker_ok_init history_ok_def event_kinds_def
      maxPendingCommands_def)

text \<open>Changes that the invariant does not see.\<close>

lemma observer_ok_frame [simp]:
  "observer_ok (ob\<lparr>clientLines := a\<rparr>) = observer_ok ob"
  "observer_ok (ob\<lparr>serverLines := a\<rparr>) = observer_ok ob"
  "observer_ok (ob\<lparr>bdatRemaining := n\<rparr>) = observer_ok ob"
  "observer_ok (ob\<lparr>greeted := g\<rparr>) = observer_ok ob"
  by (simp_all add: observer_ok_def)

lemma observer_ok_disable: "observer_ok ob \<Longrightarrow> \<not> fingerprinted ob \<Longrightarrow> observer_ok (ob\<lparr>disabled := True\<rparr>)"
  by (simp add: observer_ok_def)

lemma observer_ok_behavior:
  "observer_ok ob \<Longrightarrow> observer_ok (ob\<lparr>o_behavior := command (o_behavior ob) raw verb g now\<rparr>)"
  by (simp add: observer_ok_def tracker_ok_command)

lemma observer_ok_push:
  "observer_ok ob \<Longrightarrow> \<not> inData ob \<Longrightarrow> length (o_commands ob) < maxPendingCommands \<Longrightarrow>
   observer_ok (ob\<lparr>o_commands := o_commands ob @ [v]\<rparr>)"
  by (simp add: observer_ok_def)

lemma client_line_ok:
  assumes "observer_ok ob" "\<not> fingerprinted ob" "\<not> tlsArmed ob"
  shows "case client_line now ob raw of Inl ob' \<Rightarrow> observer_ok ob' \<and> \<not> fingerprinted ob' \<and> \<not> tlsArmed ob'
    | Inr ob' \<Rightarrow> observer_ok ob' \<and> \<not> fingerprinted ob' \<and> \<not> tlsArmed ob'"
proof (cases "inData ob")
  case True
  then show ?thesis
    using assms by (auto simp: client_line_def observer_ok_def)
next
  case False
  define verb where "verb = canonicalSMTPVerb (hd (Fields (trim_right is_crlf raw)))"
  define ob1 where "ob1 = ob\<lparr>o_behavior := command (o_behavior ob) raw verb (greeted ob) now\<rparr>"
  have ok: "observer_ok ob1" "\<not> fingerprinted ob1" "\<not> tlsArmed ob1" "\<not> inData ob1"
    using assms False by (simp_all add: ob1_def observer_ok_behavior)
  define ob2 where "ob2 = ob1\<lparr>o_commands := o_commands ob1 @ [verb]\<rparr>"
  have eq: "client_line now ob raw =
      (if Fields (trim_right is_crlf raw) = [] then Inr ob
       else if maxPendingCommands \<le> length (o_commands ob1) then Inl (ob1\<lparr>disabled := True\<rparr>)
       else if verb = ''BDAT'' then
         (if length (Fields (trim_right is_crlf raw)) < 2 then Inl (ob2\<lparr>disabled := True\<rparr>)
          else case parse_int 32 (Fields (trim_right is_crlf raw) ! 1) of
              None \<Rightarrow> Inl (ob2\<lparr>disabled := True\<rparr>)
            | Some n \<Rightarrow> Inr (ob2\<lparr>bdatRemaining := n\<rparr>))
       else Inr ob2)"
    using False unfolding client_line_def Let_def ob1_def ob2_def verb_def by simp
  have ok2: "observer_ok ob2" if "\<not> maxPendingCommands \<le> length (o_commands ob1)"
    unfolding ob2_def using that by (intro observer_ok_push ok) simp
  have "\<not> fingerprinted ob2" "\<not> tlsArmed ob2" using ok by (simp_all add: ob2_def)
  with ok2 show ?thesis
    unfolding eq using assms ok by (simp add: observer_ok_disable split: option.split)
qed

lemma client_loop_ok:
  "observer_ok ob \<Longrightarrow> \<not> fingerprinted ob \<Longrightarrow> \<not> tlsArmed ob \<Longrightarrow>
   observer_ok (client_loop clk ob) \<and> \<not> fingerprinted (client_loop clk ob) \<and> \<not> tlsArmed (client_loop clk ob)"
proof (induction clk ob rule: client_loop.induct)
  case (1 clk ob)
  show ?case
  proof (cases "bdatRemaining ob > 0")
    case True
    then show ?thesis
      using 1 by (subst (1 2 3) client_loop.simps) (simp add: Let_def)
  next
    case False
    show ?thesis
    proof (cases "line_end (clientLines ob)")
      case None
      then show ?thesis
        using 1 False by (subst (1 2 3) client_loop.simps) (simp add: observer_ok_disable)
    next
      case (Some i)
      let ?o = "ob\<lparr>clientLines := drop (i + 1) (clientLines ob)\<rparr>"
      have ok: "observer_ok ?o" "\<not> fingerprinted ?o" "\<not> tlsArmed ?o" using 1 by simp_all
      show ?thesis
      proof (cases "length (clientLines ob) > maxObservedLine")
        case True
        then show ?thesis
          using 1 False by (subst (1 2 3) client_loop.simps) (simp add: observer_ok_disable)
      next
        case small: False
        show ?thesis
        proof (cases "client_line (clk 0) ?o (take (i + 1) (clientLines ob))")
          case (Inl x)
          then show ?thesis
            using client_line_ok [OF ok, of "clk 0" "take (i + 1) (clientLines ob)"] False small Some
            by (subst (1 2 3) client_loop.simps) simp
        next
          case (Inr x)
          then have x: "observer_ok x" "\<not> fingerprinted x" "\<not> tlsArmed x"
            using client_line_ok [OF ok, of "clk 0" "take (i + 1) (clientLines ob)"] by simp_all
          from "1.IH"(2) [OF False small Some Inr x] show ?thesis
            using False small Some Inr by (subst (1 2 3) client_loop.simps) simp
        qed
      qed
    qed
  qed
qed

lemma observer_ok_pop:
  assumes "observer_ok ob" "o_commands ob = cmd # rest"
  shows "observer_ok (ob\<lparr>o_commands := rest\<rparr>)" "observer_ok (ob\<lparr>o_commands := rest, inData := True\<rparr>)"
  using assms by (auto simp: observer_ok_def split: if_splits)

lemma server_line_ok:
  assumes "observer_ok ob" "\<not> fingerprinted ob" "\<not> tlsArmed ob"
  shows "case server_line now ob line of Inl ob' \<Rightarrow> observer_ok ob' \<and> \<not> fingerprinted ob'
    | Inr ob' \<Rightarrow> observer_ok ob' \<and> \<not> fingerprinted ob' \<and> \<not> tlsArmed ob'"
proof (cases "o_commands ob")
  case Nil
  then show ?thesis using assms by (simp add: server_line_def)
next
  case (Cons cmd rest)
  define ob1 where "ob1 = (if cmd = ''DATA'' \<and> has_prefix line ''354''
    then ob\<lparr>o_commands := rest, inData := True\<rparr> else ob\<lparr>o_commands := rest\<rparr>)"
  have ok: "observer_ok ob1" "\<not> fingerprinted ob1" "\<not> tlsArmed ob1"
    using assms Cons observer_ok_pop [OF assms(1) Cons] by (simp_all add: ob1_def)
  define e where "e = (o_base ob)\<lparr>ev_Type := ''starttls'', ev_Timestamp := now\<rparr>"
  define acc where "acc = ob1\<lparr>o_behavior := (o_behavior ob1)\<lparr>starttlsOutcome := ''accepted''\<rparr>,
     emitted := emitted ob1 @ [e\<lparr>ev_State := ''accepted''\<rparr>],
     tlsArmed := True, clientLines := [], serverLines := [], o_commands := []\<rparr>"
  define ref where "ref = ob1\<lparr>refused := True,
     o_behavior := (o_behavior ob1)\<lparr>starttlsOutcome := ''refused''\<rparr>,
     emitted := emitted ob1 @ [e\<lparr>ev_State := ''refused''\<rparr>]\<rparr>"
  have eq: "server_line now ob line =
      (if length line < 3 then Inr ob
       else if length line > 3 \<and> line ! 3 = CHR ''-'' then Inr ob
       else if \<not> greeted ob then Inr (ob\<lparr>greeted := True\<rparr>)
       else if cmd = ''STARTTLS'' then (if has_prefix line ''220'' then Inl acc else Inr ref)
       else Inr ob1)"
    unfolding server_line_def Cons Let_def acc_def ref_def e_def ob1_def by simp
  have hist: "history_ok ob1" using ok(1) by (simp add: observer_ok_def)
  have "history_ok (ob1\<lparr>tlsArmed := True, emitted := emitted ob1 @ [e\<lparr>ev_State := ''accepted''\<rparr>]\<rparr>)"
    using history_ok_accepted [OF hist ok(3,2)] by (simp add: e_def)
  moreover have "acc = ob1\<lparr>tlsArmed := True, emitted := emitted ob1 @ [e\<lparr>ev_State := ''accepted''\<rparr>],
      o_behavior := (o_behavior ob1)\<lparr>starttlsOutcome := ''accepted''\<rparr>, clientLines := [], serverLines := [],
      o_commands := []\<rparr>"
    by (simp add: acc_def)
  ultimately have "history_ok acc" by (simp only: history_ok_frame)
  moreover have "history_ok (ob1\<lparr>refused := True, emitted := emitted ob1 @ [e\<lparr>ev_State := ''refused''\<rparr>]\<rparr>)"
    using history_ok_refused [OF hist ok(3,2)] by (simp add: e_def)
  then have "history_ok ref"
  proof -
    assume h: "history_ok (ob1\<lparr>refused := True, emitted := emitted ob1 @ [e\<lparr>ev_State := ''refused''\<rparr>]\<rparr>)"
    have "ref = ob1\<lparr>refused := True, emitted := emitted ob1 @ [e\<lparr>ev_State := ''refused''\<rparr>],
        o_behavior := (o_behavior ob1)\<lparr>starttlsOutcome := ''refused''\<rparr>\<rparr>"
      by (simp add: ref_def)
    with h show ?thesis by (simp only: history_ok_frame)
  qed
  moreover have "observer_ok acc" "observer_ok ref"
    using ok calculation by (auto simp: observer_ok_def acc_def ref_def tracker_ok_def maxPendingCommands_def)
  moreover have "\<not> fingerprinted acc" "\<not> fingerprinted ref" "\<not> tlsArmed ref"
    using ok by (simp_all add: acc_def ref_def)
  ultimately show ?thesis
    unfolding eq using assms ok by simp
qed

lemma server_loop_ok:
  "observer_ok ob \<Longrightarrow> \<not> fingerprinted ob \<Longrightarrow> \<not> tlsArmed ob \<Longrightarrow>
   observer_ok (server_loop clk ob) \<and> \<not> fingerprinted (server_loop clk ob)"
proof (induction clk ob rule: server_loop.induct)
  case (1 clk ob)
  show ?case
  proof (cases "line_end (serverLines ob)")
    case None
    then show ?thesis using 1 by (subst (1 2) server_loop.simps) simp
  next
    case (Some i)
    let ?o = "ob\<lparr>serverLines := drop (i + 1) (serverLines ob)\<rparr>"
    let ?l = "trim_right is_crlf (take (i + 1) (serverLines ob))"
    have ok: "observer_ok ?o" "\<not> fingerprinted ?o" "\<not> tlsArmed ?o" using 1 by simp_all
    note line = server_line_ok [OF ok, of "clk 0" ?l]
    show ?thesis
    proof (cases "server_line (clk 0) ?o ?l")
      case (Inl x)
      then show ?thesis using line Some by (subst (1 2) server_loop.simps) simp
    next
      case (Inr x)
      then have x: "observer_ok x" "\<not> fingerprinted x" "\<not> tlsArmed x" using line by simp_all
      from "1.IH" [OF Some Inr x] show ?thesis
        using Some Inr by (subst (1 2) server_loop.simps) simp
    qed
  qed
qed

subsection \<open>Steps\<close>

text \<open>The cases of \<open>observeTLS\<close>.\<close>

lemma observeTLS_cases:
  obtains (stop) "observeTLS now ob p = ob\<lparr>tlsBytes := tlsBytes ob @ p, disabled := True\<rparr>"
      "length (tlsBytes ob @ p) \<le> maxClientHello \<Longrightarrow>
         (\<exists>e. clientHelloFromBytes (tlsBytes ob @ p) = Inl e) \<or>
         (\<exists>parse e. clientHelloFromBytes (tlsBytes ob @ p) = Inr (Some parse) \<and>
            extractTLSMetadata parse (o_method ob) = Inl e)"
  | (more) "observeTLS now ob p = ob\<lparr>tlsBytes := tlsBytes ob @ p\<rparr>"
      "clientHelloFromBytes (tlsBytes ob @ p) = Inr None" "length (tlsBytes ob @ p) \<le> maxClientHello"
  | (found) parse fp meta where "clientHelloFromBytes (tlsBytes ob @ p) = Inr (Some parse)"
      "extractTLSMetadata parse (o_method ob) = Inr (fp, meta)" "length (tlsBytes ob @ p) \<le> maxClientHello"
      "observeTLS now ob p = ob\<lparr>tlsBytes := tlsBytes ob @ p, fingerprinted := True,
         emitted := emitted ob @ [(o_base ob)\<lparr>ev_Type := ''fingerprint'', ev_Timestamp := now,
           ev_JA3 := JA3 meta, ev_JA4 := JA4 meta\<rparr>]\<rparr>"
proof (cases "length (tlsBytes ob @ p) > maxClientHello")
  case True
  then show thesis by (intro stop) (auto simp: observeTLS_def Let_def)
next
  case False
  show thesis
  proof (cases "clientHelloFromBytes (tlsBytes ob @ p)")
    case (Inl e)
    then show thesis using False by (intro stop) (auto simp: observeTLS_def Let_def)
  next
    case (Inr x)
    show thesis
    proof (cases x)
      case None
      then show thesis using False Inr by (intro more) (auto simp: observeTLS_def Let_def)
    next
      case (Some parse)
      show thesis
      proof (cases "extractTLSMetadata parse (o_method ob)")
        case (Inl e)
        then show thesis using False Inr Some by (intro stop) (auto simp: observeTLS_def Let_def)
      next
        case ok: (Inr y)
        then show thesis
          using False Inr Some by (cases y) (auto simp: observeTLS_def Let_def intro!: found)
      qed
    qed
  qed
qed

lemma observeTLS_ok:
  assumes "observer_ok ob" "\<not> fingerprinted ob" "tlsArmed ob" "\<not> disabled ob"
  shows "observer_ok (observeTLS now ob p)"
proof (cases rule: observeTLS_cases [of now ob p])
  case stop
  then show ?thesis using assms by (simp add: observer_ok_def)
next
  case more
  then show ?thesis using assms by (simp add: observer_ok_def)
next
  case (found parse fp meta)
  let ?ob = "ob\<lparr>tlsBytes := tlsBytes ob @ p\<rparr>"
  let ?e = "(o_base ob)\<lparr>ev_Type := ''fingerprint'', ev_Timestamp := now, ev_JA3 := JA3 meta, ev_JA4 := JA4 meta\<rparr>"
  have "history_ok (?ob\<lparr>fingerprinted := True, emitted := emitted ?ob @ [?e]\<rparr>)"
    using assms by (intro history_ok_fingerprint) (simp_all add: observer_ok_def)
  then show ?thesis
    using assms found(4) by (simp add: observer_ok_def)
qed

lemma client_ok: "observer_ok ob \<Longrightarrow> observer_ok (client clk ob p)"
proof (cases "fingerprinted ob \<or> disabled ob")
  case True
  then show "observer_ok ob \<Longrightarrow> ?thesis" by (simp add: client_def)
next
  case False
  assume ok: "observer_ok ob"
  show ?thesis
  proof (cases "tlsArmed ob")
    case True
    then show ?thesis using ok False observeTLS_ok by (simp add: client_def)
  next
    case plain: False
    have "observer_ok (ob\<lparr>premature := True, disabled := True\<rparr>)"
      using ok False by (simp add: observer_ok_def)
    then show ?thesis
      using ok False plain client_loop_ok [of "ob\<lparr>clientLines := clientLines ob @ string_of_bytes p\<rparr>" clk]
      by (simp add: client_def)
  qed
qed

lemma server_ok: "observer_ok ob \<Longrightarrow> observer_ok (server clk ob p)"
  using server_loop_ok [of "ob\<lparr>serverLines := serverLines ob @ string_of_bytes p\<rparr>" clk]
    observer_ok_disable [of "ob\<lparr>serverLines := serverLines ob @ string_of_bytes p\<rparr>"]
  by (simp add: server_def Let_def)

lemma observe_step_ok: "observer_ok ob \<Longrightarrow> observer_ok (observe_step ob s)"
  by (cases s) (simp_all add: client_ok server_ok)

lemma observe_session_ok: "observer_ok (observe_session m base steps)"
  unfolding observe_session_def
  by (induction steps rule: rev_induct) (simp_all add: observer_ok_init observe_step_ok)

lemma observe_frozen:
  "fingerprinted ob \<or> disabled ob \<Longrightarrow> observe_step ob s = ob"
  by (cases s) (auto simp: client_def server_def)

lemma observe_frozen_steps: "fingerprinted ob \<or> disabled ob \<Longrightarrow> foldl observe_step ob steps = ob"
  by (induction steps) (simp_all add: observe_frozen)

text \<open>
  C14: what an SMTP session can make the observer emit. Whatever the two sides send, in any
  order and any chunks, the emitted events are refused STARTTLS attempts (any number, and
  at least one exactly when the state remembers a refusal), then at most one accepted one,
  present exactly when TLS is expected, then at most one fingerprint, present exactly when
  the session counts as fingerprinted; and the queue of unanswered commands never exceeds
  256 and the behaviour snapshot always passes the report reader's check. Once fingerprinted or
  disabled, nothing that follows changes the observer.
\<close>

theorem observer_history:
  "(\<exists>k. (0 < k \<longleftrightarrow> refused (observe_session m base steps)) \<and>
      event_kinds (observe_session m base steps) = replicate k (''starttls'', ''refused'') @
        (if tlsArmed (observe_session m base steps) then [(''starttls'', ''accepted'')] else []) @
        (if fingerprinted (observe_session m base steps)
         then [(''fingerprint'', ev_State (o_base (observe_session m base steps)))] else [])) \<and>
   length (o_commands (observe_session m base steps)) \<le> maxPendingCommands \<and>
   validSMTPBehavior (Some (behaviorSnapshot (observe_session m base steps))) \<and>
   (fingerprinted (observe_session m base steps) \<or> disabled (observe_session m base steps) \<longrightarrow>
      (\<forall>more. observe_session m base (steps @ more) = observe_session m base steps))"
proof -
  have "observe_session m base (steps @ more) = observe_session m base steps"
    if "fingerprinted (observe_session m base steps) \<or> disabled (observe_session m base steps)" for more
    using observe_frozen_steps [OF that, of more] by (simp add: observe_session_def)
  then show ?thesis
    using observe_session_ok [of m base steps] snapshot_valid
    by (auto simp: observer_ok_def history_ok_def behaviorSnapshot_def)
qed

section \<open>The TLS phase\<close>

fun client_bytes :: "observed_read list \<Rightarrow> u8 list" where
  "client_bytes [] = []"
| "client_bytes (FromClient p _ # s) = p @ client_bytes s"
| "client_bytes (FromServer _ _ # s) = client_bytes s"

lemma clientHelloFromBytes_prefix:
  "clientHelloFromBytes (buf @ rest) = Inr (Some parse) \<Longrightarrow>
   clientHelloFromBytes buf = Inr None \<or> clientHelloFromBytes buf = Inr (Some parse)"
  unfolding clientHelloFromBytes_def by (metis sniff_loop_stable)

lemma tls_phase:
  assumes "tlsArmed ob" "\<not> fingerprinted ob" "\<not> disabled ob"
    and "clientHelloFromBytes (tlsBytes ob) = Inr None"
    and "clientHelloFromBytes (tlsBytes ob @ client_bytes steps) = Inr (Some parse)"
    and "extractTLSMetadata parse (o_method ob) = Inr (fp, meta)"
    and "length (tlsBytes ob @ client_bytes steps) \<le> maxClientHello"
  shows "\<exists>now. fingerprinted (foldl observe_step ob steps) \<and>
    emitted (foldl observe_step ob steps) = emitted ob @ [(o_base ob)\<lparr>ev_Type := ''fingerprint'',
      ev_Timestamp := now, ev_JA3 := JA3 meta, ev_JA4 := JA4 meta\<rparr>]"
  using assms
proof (induction steps arbitrary: ob)
  case (Cons s steps)
  show ?case
  proof (cases s)
    case (FromServer p clk)
    then have "observe_step ob s = ob" using Cons.prems(1) by (simp add: server_def)
    then show ?thesis using Cons.IH [OF Cons.prems(1-4)] Cons.prems(5-7) FromServer by simp
  next
    case (FromClient p clk)
    then have step: "observe_step ob s = observeTLS (clk 0) ob p" using Cons.prems by (simp add: client_def)
    have total: "clientHelloFromBytes ((tlsBytes ob @ p) @ client_bytes steps) = Inr (Some parse)"
      using Cons.prems(5) FromClient by simp
    have small: "length (tlsBytes ob @ p) \<le> maxClientHello" using Cons.prems(7) FromClient by simp
    show ?thesis
    proof (cases rule: observeTLS_cases [of "clk 0" ob p])
      case stop
      then show ?thesis
        using clientHelloFromBytes_prefix [OF total] small Cons.prems(6) by auto
    next
      case more
      let ?ob = "ob\<lparr>tlsBytes := tlsBytes ob @ p\<rparr>"
      have "\<exists>now. fingerprinted (foldl observe_step ?ob steps) \<and>
        emitted (foldl observe_step ?ob steps) = emitted ?ob @ [(o_base ?ob)\<lparr>ev_Type := ''fingerprint'',
          ev_Timestamp := now, ev_JA3 := JA3 meta, ev_JA4 := JA4 meta\<rparr>]"
        using Cons.prems more FromClient by (intro Cons.IH) simp_all
      then show ?thesis using step more by simp
    next
      case (found parse' fp' meta')
      then have "parse' = parse" using clientHelloFromBytes_prefix [OF total] by auto
      then have "meta' = meta" using found(2) Cons.prems(6) by simp
      then show ?thesis
        using step found(4) observe_frozen_steps [of "observe_step ob s" steps] by auto
    qed
  qed
qed simp

lemma sniff_fragments:
  assumes "fragmentation rs" "length (records_wire rs @ rest) \<le> maxClientHello"
  shows "clientHelloFromBytes (records_wire rs @ rest) = Inr (Some (record_header (hd rs) @ records_message rs))"
proof -
  obtain c where c: "read_full 5 \<lparr>ready = records_wire rs @ rest, later = []\<rparr> = (Some (record_header (hd rs)), c)"
    "readClientHello c (record_header (hd rs)) =
      (Inr (record_header (hd rs) @ records_message rs), records_wire rs, \<lparr>ready = rest, later = []\<rparr>)"
    using read_fragments [OF assms(1), of "\<lparr>ready = records_wire rs @ rest, later = []\<rparr>" rest] by auto
  have "c = \<lparr>ready = drop 5 (records_wire rs @ rest), later = []\<rparr>"
    "take 5 (records_wire rs @ rest) = record_header (hd rs)" "\<not> length (records_wire rs @ rest) < 5"
    using c(1) by (auto simp: read_full_def split: if_splits)
  then show ?thesis
    using clientHelloFromBytes_eq [OF assms(2), of "[]"] c(2) by simp
qed

text \<open>
  C15: the SMTP sensor sees the fingerprint the gate would see, however the bytes arrive.
  After an accepted STARTTLS, let the client's reads carry, in any chunks and mixed with
  any server reads, the records of a well-formed ClientHello (any fragmentation) and
  possibly more, 64 KiB at most until then. Then the session is fingerprinted, and whatever
  follows, exactly one event was added, with the JA3 string and the JA4 of that ClientHello.
\<close>

theorem observer_fingerprints_client:
  assumes "tlsArmed ob" "\<not> fingerprinted ob" "\<not> disabled ob" "tlsBytes ob = []"
    and "wf_msg m" "fragmentation rs" "records_message rs = encode_handshake m"
    and "client_bytes steps = records_wire rs @ rest" "length (client_bytes steps) \<le> maxClientHello"
  shows "\<exists>now. fingerprinted (foldl observe_step ob (steps @ later_steps)) \<and>
    emitted (foldl observe_step ob (steps @ later_steps)) =
      emitted ob @ [(o_base ob)\<lparr>ev_Type := ''fingerprint'', ev_Timestamp := now,
        ev_JA3 := snd (ja3FromHello (msg_meaning m)), ev_JA4 := computeJA4 (msg_meaning m)\<rparr>]"
proof -
  obtain h4 where h4: "record_header (hd rs) = 0x16 # h4" "length h4 = 4"
    using record_header_bytes [of "hd rs"] by (auto simp: recordTypeHandshake_def)
  have parsed: "parseClientHello (record_header (hd rs) @ encode_handshake m) = Inr (msg_meaning m)"
    using parse_encoded [OF assms(5) h4(2), of "[]"] h4(1) by simp
  have sniff: "clientHelloFromBytes (tlsBytes ob @ client_bytes steps) =
      Inr (Some (record_header (hd rs) @ encode_handshake m))"
    using sniff_fragments [OF assms(6)] assms(4,7,8,9) by simp
  have none: "clientHelloFromBytes (tlsBytes ob) = Inr None"
    by (simp add: assms(4) clientHelloFromBytes_def sniff_loop.simps)
  from tls_phase [OF assms(1-3) none sniff extractTLSMetadata_eq [OF parsed]] assms(4,9)
  obtain now where "fingerprinted (foldl observe_step ob steps)"
    "emitted (foldl observe_step ob steps) = emitted ob @ [(o_base ob)\<lparr>ev_Type := ''fingerprint'',
      ev_Timestamp := now, ev_JA3 := JA3 (hello_metadata (msg_meaning m)), ev_JA4 := JA4 (hello_metadata (msg_meaning m))\<rparr>]"
    by auto
  then show ?thesis
    using observe_frozen_steps by (simp add: hello_metadata_def) blast
qed

section \<open>A session\<close>

definition sample_event :: smtp_event where
  "sample_event =
     \<lparr>ev_Version = 0, ev_Type = [], ev_Timestamp = 1, ev_Instance = [], ev_ConnectionID = ''c1'',
      ev_Client = ''192.0.2.1:47'', ev_Listener = ''198.51.100.2:25'', ev_Backend = ''10.0.0.5:25'',
      ev_JA3 = [], ev_JA4 = [], ev_Error = [], ev_State = [], ev_Behavior = None\<rparr>"

text \<open>A greeting, STARTTLS, its acceptance; the client sends a ClientHello in three records' pieces.\<close>

definition starttls_steps :: "observed_read list" where
  "starttls_steps =
     [FromServer (bytes_of_string (''220 mx'' @ [CHR 0x0D, CHR 0x0A])) (\<lambda>_. 2),
      FromClient (bytes_of_string (''STARTTLS'' @ [CHR 0x0D, CHR 0x0A])) (\<lambda>_. 3),
      FromServer (bytes_of_string (''220 go'' @ [CHR 0x0D, CHR 0x0A])) (\<lambda>_. 4)]"

lemma trim_crlf_samples:
  "trim_right is_crlf (''220 mx'' @ [CHR 0x0D, CHR 0x0A]) = ''220 mx''"
  "trim_right is_crlf (''STARTTLS'' @ [CHR 0x0D, CHR 0x0A]) = ''STARTTLS''"
  "trim_right is_crlf (''220 go'' @ [CHR 0x0D, CHR 0x0A]) = ''220 go''"
  by (simp_all add: trim_right_def is_crlf_def)

lemma Fields_STARTTLS: "Fields ''STARTTLS'' = [''STARTTLS'']"
  by (simp add: Fields_def segments.simps codes_def fields_of.simps IsSpace_def Let_def)

lemma canonical_STARTTLS: "canonicalSMTPVerb ''STARTTLS'' = ''STARTTLS''"
  by (rule canonicalSMTPVerb_fix) (simp add: known_verbs_def)

lemma bytes_hd: "hd (bytes_of_string (''STARTTLS'' @ r)) \<noteq> recordTypeHandshake" "bytes_of_string (''STARTTLS'' @ r) \<noteq> []"
  by (simp_all add: bytes_of_string_def byte_of_char_def recordTypeHandshake_def)

lemma sample_session:
  "tlsArmed (observe_session m sample_event starttls_steps) \<and>
   \<not> fingerprinted (observe_session m sample_event starttls_steps) \<and>
   \<not> disabled (observe_session m sample_event starttls_steps) \<and>
   tlsBytes (observe_session m sample_event starttls_steps) = []"
proof -
  let ?o1 = "(observer_init m sample_event)\<lparr>greeted := True\<rparr>"
  have s1: "server (\<lambda>_. 2) (observer_init m sample_event) (bytes_of_string (''220 mx'' @ [CHR 0x0D, CHR 0x0A])) = ?o1"
    using trim_crlf_samples
    by (simp add: server_def observer_init_def server_loop.simps server_line_def maxObservedLine_def Let_def)
  have "client (\<lambda>_. 3) ?o1 (bytes_of_string (''STARTTLS'' @ [CHR 0x0D, CHR 0x0A])) =
      ?o1\<lparr>o_behavior := command tracker_init (''STARTTLS'' @ [CHR 0x0D, CHR 0x0A]) ''STARTTLS'' True 3,
        o_commands := [''STARTTLS'']\<rparr>"
    using trim_crlf_samples Fields_STARTTLS canonical_STARTTLS bytes_hd [of "[CHR 0x0D, CHR 0x0A]"]
    by (simp add: client_def observer_init_def client_loop.simps client_line_def maxObservedLine_def maxPendingCommands_def Let_def)
  moreover have "tlsArmed (server (\<lambda>_. 4) (?o1\<lparr>o_behavior := b, o_commands := [''STARTTLS'']\<rparr>) p) \<and>
      \<not> fingerprinted (server (\<lambda>_. 4) (?o1\<lparr>o_behavior := b, o_commands := [''STARTTLS'']\<rparr>) p) \<and>
      \<not> disabled (server (\<lambda>_. 4) (?o1\<lparr>o_behavior := b, o_commands := [''STARTTLS'']\<rparr>) p) \<and>
      tlsBytes (server (\<lambda>_. 4) (?o1\<lparr>o_behavior := b, o_commands := [''STARTTLS'']\<rparr>) p) = []"
    if p: "p = bytes_of_string (''220 go'' @ [CHR 0x0D, CHR 0x0A])" for p b
  proof -
    let ?o2 = "?o1\<lparr>o_behavior := b, o_commands := [''STARTTLS''], serverLines := ''220 go'' @ [CHR 0x0D, CHR 0x0A]\<rparr>"
    have "server (\<lambda>_. 4) (?o1\<lparr>o_behavior := b, o_commands := [''STARTTLS'']\<rparr>) p = server_loop (\<lambda>_. 4) ?o2"
      by (simp add: server_def observer_init_def maxObservedLine_def Let_def p)
    moreover have "server_line 4 (?o2\<lparr>serverLines := []\<rparr>) ''220 go'' =
        Inl ((?o2\<lparr>serverLines := []\<rparr>)\<lparr>o_commands := [],
          o_behavior := b\<lparr>starttlsOutcome := ''accepted''\<rparr>,
          emitted := [sample_event\<lparr>ev_Type := ''starttls'', ev_Timestamp := 4, ev_State := ''accepted''\<rparr>],
          tlsArmed := True, clientLines := [], serverLines := []\<rparr>)"
      by (simp add: server_line_def observer_init_def has_prefix_def Let_def)
    ultimately show ?thesis
      using trim_crlf_samples by (subst (asm) server_loop.simps) (simp add: observer_init_def)
  qed
  ultimately show ?thesis
    using s1 by (simp add: observe_session_def starttls_steps_def)
qed

lemma observer_fingerprints_client_witness:
  "\<exists>now. emitted (foldl observe_step (observe_session MethodJA4 sample_event starttls_steps)
      [FromClient (take 9 (records_wire [((3, 1), encode_handshake sample_msg)])) (\<lambda>_. 5), FromServer [65] (\<lambda>_. 6),
       FromClient (drop 9 (records_wire [((3, 1), encode_handshake sample_msg)])) (\<lambda>_. 7), FromClient [1, 2] (\<lambda>_. 8)]) =
    emitted (observe_session MethodJA4 sample_event starttls_steps) @
      [(o_base (observe_session MethodJA4 sample_event starttls_steps))\<lparr>ev_Type := ''fingerprint'', ev_Timestamp := now,
        ev_JA3 := snd (ja3FromHello (msg_meaning sample_msg)), ev_JA4 := computeJA4 (msg_meaning sample_msg)\<rparr>]"
proof -
  let ?rs = "[((3 :: u8, 1 :: u8), encode_handshake sample_msg)]"
  let ?steps = "[FromClient (take 9 (records_wire ?rs)) (\<lambda>_. 5), FromServer [65] (\<lambda>_. 6), FromClient (drop 9 (records_wire ?rs)) (\<lambda>_. 7)]"
  have wf: "wf_msg sample_msg"
    by (simp add: sample_msg_def wf_msg_def encode_body_def encode_exts_def encode_ext_def enc_proto_def known_ext_types_def)
  have frag: "fragmentation ?rs" "length (records_wire ?rs) < 1000"
    by (simp_all add: fragmentation_def records_message_def whole_def message_total_def reassembly_limits
        encode_handshake_def encode_body_def encode_exts_def encode_ext_def enc_proto_def sample_msg_def
        be24n_eq put24n_def put16n_def unat_of_nat records_wire_def record_bytes_def)
  have "client_bytes ?steps = records_wire ?rs @ []"
    by simp
  from observer_fingerprints_client [OF _ _ _ _ wf frag(1) _ this, of "observe_session MethodJA4 sample_event starttls_steps" "[FromClient [1, 2] (\<lambda>_. 8)]"]
  show ?thesis
    using sample_session [of MethodJA4] frag(2) by (simp add: records_message_def reassembly_limits)
qed

text \<open>A client that sends a TLS record first: the observer gives up and stays as it is.\<close>

lemma observer_history_witness:
  "disabled (observe_session MethodJA4 sample_event [FromClient [0x16] (\<lambda>_. 2)]) \<and>
   observe_session MethodJA4 sample_event ([FromClient [0x16] (\<lambda>_. 2)] @ [FromServer [0x32, 0x32, 0x30, 0x0A] (\<lambda>_. 3)]) =
     observe_session MethodJA4 sample_event [FromClient [0x16] (\<lambda>_. 2)]"
proof -
  have "disabled (observe_session MethodJA4 sample_event [FromClient [0x16] (\<lambda>_. 2)])"
    by (simp add: observe_session_def observer_init_def client_def recordTypeHandshake_def)
  with observer_history [of MethodJA4 sample_event "[FromClient [0x16] (\<lambda>_. 2)]"] show ?thesis by blast
qed

end
