(* ===== verification/Log_Lines.thy ===== *)
theory Log_Lines
  imports Go_Quote Log_Text Fingerprints Smtp_Observer
begin

text \<open>
  The log lines about clients: \<open>logFingerprintDecision\<close> of \<open>proxy.go\<close> and \<open>logSMTPEvent\<close> of
  \<open>smtp_proxy.go\<close>, as the text passed to the logger. The theorem: nothing a client sends can put
  a control character, such as the end of a line, into the log, and a line tells exactly what the
  client sent but for the control characters of its names.
\<close>

section \<open>The lines\<close>

definition logFingerprintDecision ::
  "(rune \<Rightarrow> bool) \<Rightarrow> string \<Rightarrow> int \<Rightarrow> string \<Rightarrow> bool \<Rightarrow> string \<Rightarrow> string \<Rightarrow> tls_metadata \<Rightarrow> string" where
  "logFingerprintDecision is_print clientIP port sourcePort trusted status fp meta =
     ''['' @ clientIP @ '':'' @ itoa_int port @ ''] '' @ status @ '' fp='' @ Quote is_print fp @
     '' sni='' @ Quote is_print (sanitizeLog (SNI meta)) @ '' alpn='' @ Quote is_print (sanitizeLog (join '','' (ALPN meta))) @
     '' ja3='' @ Quote is_print (JA3 meta) @ '' ja4='' @ Quote is_print (JA4 meta) @
     '' source_port='' @ Quote is_print sourcePort @ '' trusted='' @ show_bool trusted"

text \<open>A part of the details that is only there when the field is set.\<close>

definition log_detail :: "(rune \<Rightarrow> bool) \<Rightarrow> string \<Rightarrow> string \<Rightarrow> string" where
  "log_detail is_print key s = (if s = [] then [] else key @ Quote is_print s)"

definition logSMTPEvent :: "(rune \<Rightarrow> bool) \<Rightarrow> string \<Rightarrow> smtp_event \<Rightarrow> string" where
  "logSMTPEvent is_print status e =
     (let details = log_detail is_print '' state='' (ev_State e) @ log_detail is_print '' ja3='' (ev_JA3 e) @
            log_detail is_print '' ja4='' (ev_JA4 e) @ log_detail is_print '' reason='' (ev_Error e) @
            (case ev_Behavior e of None \<Rightarrow> [] | Some b \<Rightarrow> '' behavior='' @ Quote is_print (bh_Fingerprint b))
      in status @ '' smtp event='' @ Quote is_print (ev_Type e) @ '' connection_id='' @ Quote is_print (ev_ConnectionID e) @
         '' client='' @ Quote is_print (ev_Client e) @ '' listener='' @ Quote is_print (ev_Listener e) @
         '' backend='' @ Quote is_print (ev_Backend e) @ details)"

section \<open>No control characters, no confusion\<close>

lemma digit_plain: "n < 10 \<Longrightarrow> 0x20 \<le> (of_char (digit n) :: nat) \<and> (of_char (digit n) :: nat) < 0x7F"
  by (simp add: of_char_digit)

lemma plain_itoa: "plain (itoa n)"
proof (rule plain_ascii, induction n rule: itoa.induct)
  case (1 n)
  then show ?case using digit_plain [of "n mod 10"] digit_plain [of n] by (subst itoa.simps) simp
qed

lemma plain_itoa_int: "plain (itoa_int i)"
proof -
  have "plain ''-''" by (rule plain_ascii) simp
  then show ?thesis using plain_append [of "''-''"] by (auto simp: itoa_int_def plain_itoa)
qed

lemma plain_detail: "print_table is_print \<Longrightarrow> plain key \<Longrightarrow> plain (log_detail is_print key s)"
  by (simp add: log_detail_def plain_Quote plain_append)

lemma show_bool_plain: "plain (show_bool b)"
  by (rule plain_ascii) (simp add: show_bool_def)

text \<open>What two lines about the same connection have in common.\<close>

lemma sanitizeLog_eq: "sanitizeLog s = sanitizeLog s' \<longleftrightarrow>
    filter (\<lambda>r. \<not> log_control r) (runes s) = filter (\<lambda>r. \<not> log_control r) (runes s')"
proof
  show "filter (\<lambda>r. \<not> log_control r) (runes s) = filter (\<lambda>r. \<not> log_control r) (runes s') \<Longrightarrow> sanitizeLog s = sanitizeLog s'"
    by (simp add: sanitizeLog_def map_runes_def map_filter_drop)
qed (metis sanitized_text)

lemma lines_equal:
  "logFingerprintDecision is_print clientIP port sourcePort trusted status fp meta =
     logFingerprintDecision is_print clientIP port sourcePort' trusted' status fp' meta' \<longleftrightarrow>
   fp = fp' \<and> sanitizeLog (SNI meta) = sanitizeLog (SNI meta') \<and>
   sanitizeLog (join '','' (ALPN meta)) = sanitizeLog (join '','' (ALPN meta')) \<and>
   JA3 meta = JA3 meta' \<and> JA4 meta = JA4 meta' \<and> sourcePort = sourcePort' \<and> trusted = trusted'"
proof -
  have bool: "show_bool trusted = show_bool trusted' \<longleftrightarrow> trusted = trusted'" by (simp add: show_bool_def)
  show ?thesis unfolding logFingerprintDecision_def by (simp add: Quote_split bool)
qed

text \<open>
  C36: a client cannot forge a log line. Whatever server name, protocols, fingerprint, port or
  SMTP texts a connection brings, and whatever error text is reported, the lines about it are encoded
  runes without control characters, neither C0 nor DEL nor C1: no line break and no terminal
  escape. And two lines about the same address, port and decision are equal exactly when their
  fingerprint, JA3, JA4, source port and trust are, and the server name and the protocols but
  for their control characters: no field can pass for another, and what \<open>sanitizeLog\<close> removes leaves no
  trace. This holds for every table of printable characters without control characters, if the
  address of the client, as its socket gives it, and the tag of the line have none.
\<close>

theorem log_lines_plain:
  assumes "print_table is_print" and "plain clientIP" and "plain status"
  shows "plain (logFingerprintDecision is_print clientIP port sourcePort trusted status fp meta) \<and>
     plain (logSMTPEvent is_print status e) \<and>
     (logFingerprintDecision is_print clientIP port sourcePort trusted status fp meta =
        logFingerprintDecision is_print clientIP port sourcePort' trusted' status fp' meta' \<longleftrightarrow>
      fp = fp' \<and> JA3 meta = JA3 meta' \<and> JA4 meta = JA4 meta' \<and> sourcePort = sourcePort' \<and> trusted = trusted' \<and>
      filter (\<lambda>r. \<not> log_control r) (runes (SNI meta)) = filter (\<lambda>r. \<not> log_control r) (runes (SNI meta')) \<and>
      filter (\<lambda>r. \<not> log_control r) (runes (join '','' (ALPN meta))) =
        filter (\<lambda>r. \<not> log_control r) (runes (join '','' (ALPN meta'))))"
proof -
  note parts = plain_append plain_Quote [OF assms(1)] plain_detail [OF assms(1)] plain_itoa_int show_bool_plain
  have "plain (logFingerprintDecision is_print clientIP port sourcePort trusted status fp meta)"
    unfolding logFingerprintDecision_def by (intro parts assms(2,3); rule plain_ascii; simp)
  moreover have "plain (logSMTPEvent is_print status e)"
  proof -
    have "plain '' behavior=''" by (rule plain_ascii) simp
    then have behavior: "plain (case ev_Behavior e of None \<Rightarrow> [] | Some b \<Rightarrow> '' behavior='' @ Quote is_print (bh_Fingerprint b))"
      by (cases "ev_Behavior e"; simp only: option.case plain_Nil; intro parts)
    show ?thesis
      unfolding logSMTPEvent_def Let_def by (intro parts behavior assms(3); rule plain_ascii; simp)
  qed
  ultimately show ?thesis unfolding lines_equal sanitizeLog_eq by blast
qed

text \<open>An example: a server name with a line break and one with CSI in its place.\<close>

lemma log_lines_plain_witness:
  "let line = (\<lambda>sni. logFingerprintDecision (\<lambda>r. 32 \<le> r \<and> r < 127) ''192.0.2.1'' 993 ''47'' False ''APPROVED'' ''f''
     \<lparr>JA3 = [], JA4 = [], SNI = sni, ALPN = [], SupportedVersions = [], SignatureAlgorithms = []\<rparr>)
   in plain (line [CHR ''a'', CHR 0x0A]) \<and> line [CHR ''a'', CHR 0x0A] = line [CHR ''a'', CHR 0xC2, CHR 0x9B]"
proof -
  have table: "print_table (\<lambda>r. 32 \<le> r \<and> r < 127)" by (auto simp: print_table_def log_control_def)
  have "plain ''192.0.2.1''" "plain ''APPROVED''" by (rule plain_ascii; simp)+
  note lines = log_lines_plain [OF table this]
  have "runes [CHR ''a'', CHR 0x0A] = [97, 10]" "runes [CHR ''a'', CHR 0xC2, CHR 0x9B] = [97, 0x9B]"
    by (simp_all add: runes_def codes_def code_runes.simps cont_def)
  then show ?thesis unfolding Let_def lines by (simp add: lines log_control_def)
qed

end
