(* ===== verification/Net_Addr.thy ===== *)
theory Net_Addr
  imports Go_Strings
begin

text \<open>
  The parts of Go's \<open>net\<close> and \<open>net/netip\<close> packages the program uses: addresses and prefixes,
  their parsers, \<open>Prefix.Masked\<close>, \<open>Prefix.Contains\<close>, \<open>Prefix.Compare\<close> and \<open>SplitHostPort\<close>.
  The lemmas say that containment compares leading bits, so that masking a prefix does not
  change what it contains, and that the order of prefixes is a linear one.
\<close>

section \<open>Addresses\<close>

text \<open>\<open>netip.Addr\<close>: an IPv4 address, or an IPv6 address with a zone (empty for none).\<close>

datatype addr = Addr4 "32 word" | Addr6 "128 word" string

text \<open>\<open>netip.Prefix\<close>; the parsers never produce one with a zone.\<close>

datatype net_prefix = Prefix4 "32 word" nat | Prefix6 "128 word" nat

definition word_of_bytes :: "u8 list \<Rightarrow> 'a::len word" where
  "word_of_bytes bs = foldl (\<lambda>acc b. push_bit 8 acc OR ucast b) 0 bs"

subsection \<open>Parsing\<close>

definition parse_octet :: "string \<Rightarrow> u8 option" where
  "parse_octet s =
     (if s \<noteq> [] \<and> list_all is_digit s \<and> (length s = 1 \<or> hd s \<noteq> CHR ''0'') \<and> dec_value s \<le> 255
      then Some (word_of_nat (dec_value s)) else None)"

definition parse_ipv4_bytes :: "string \<Rightarrow> u8 list option" where
  "parse_ipv4_bytes s =
     (case map parse_octet (split_char (CHR ''.'') s) of
        [Some a, Some b, Some c, Some d] \<Rightarrow> Some [a, b, c, d]
      | _ \<Rightarrow> None)"

definition is_hex :: "char \<Rightarrow> bool" where
  "is_hex c \<longleftrightarrow> is_digit c \<or> (CHR ''a'' \<le> c \<and> c \<le> CHR ''f'') \<or> (CHR ''A'' \<le> c \<and> c \<le> CHR ''F'')"

definition hex_value :: "char \<Rightarrow> nat" where
  "hex_value c = (if is_digit c then of_char c - 48
     else if CHR ''a'' \<le> c then of_char c - 87 else of_char c - 55)"

definition hex_group :: "string \<Rightarrow> u8 list" where
  "hex_group s = (let n = foldl (\<lambda>acc c. 16 * acc + hex_value c) 0 s in put16n n)"

text \<open>
  The loop of \<open>netip.parseIPv6\<close> over the text that is left, the bytes so far and the position
  of the ellipsis; the result is what is left, the bytes and the ellipsis.
\<close>

function v6_groups :: "string \<Rightarrow> u8 list \<Rightarrow> nat option \<Rightarrow> (string \<times> u8 list \<times> nat option) option" where
  "v6_groups s ip ell =
     (if length ip \<ge> 16 then Some (s, ip, ell)
      else
        (let h = takeWhile is_hex s; r = dropWhile is_hex s; ip' = ip @ hex_group h in
         if h = [] \<or> length h > 4 then None
         else if r = [] then Some ([], ip', ell)
         else if hd r = CHR ''.'' then
           (if (ell = None \<and> length ip \<noteq> 12) \<or> length ip + 4 > 16 then None
            else (case parse_ipv4_bytes s of None \<Rightarrow> None | Some f \<Rightarrow> Some ([], ip @ f, ell)))
         else if hd r \<noteq> CHR '':'' \<or> tl r = [] then None
         else if hd (tl r) = CHR '':'' then
           (if ell \<noteq> None then None
            else if tl (tl r) = [] then Some ([], ip', Some (length ip'))
            else v6_groups (tl (tl r)) ip' (Some (length ip')))
         else v6_groups (tl r) ip' ell))"
  by pat_completeness auto
termination
proof (relation "measure (\<lambda>(s, ip, ell). length s)")
  fix s :: string and h r
  assume "h = takeWhile is_hex s" "r = dropWhile is_hex s" "\<not> (h = [] \<or> length h > 4)"
  then have "length r < length s"
    by (metis takeWhile_dropWhile_id length_append less_add_same_cancel2 length_greater_0_conv)
  then show "((tl (tl r), ip', e1), (s, ip, e2)) \<in> measure (\<lambda>(s, ip, ell). length s)"
    and "((tl r, ip', e1), (s, ip, e2)) \<in> measure (\<lambda>(s, ip, ell). length s)"
    for ip ip' :: "u8 list" and e1 e2 :: "nat option"
    by auto
qed auto

declare v6_groups.simps [simp del]

definition parse_ipv6_bytes :: "string \<Rightarrow> u8 list option" where
  "parse_ipv6_bytes s =
     (let ell0 = has_prefix s ''::''; s' = (if ell0 then drop 2 s else s) in
      if ell0 \<and> s' = [] then Some (replicate 16 0)
      else (case v6_groups s' [] (if ell0 then Some 0 else None) of
         None \<Rightarrow> None
       | Some (left, ip, ell) \<Rightarrow>
           if left \<noteq> [] then None
           else if length ip < 16 then
             (case ell of None \<Rightarrow> None
              | Some e \<Rightarrow> Some (take e ip @ replicate (16 - length ip) 0 @ drop e ip))
           else if ell \<noteq> None then None
           else Some ip))"

definition parse_ipv6 :: "string \<Rightarrow> addr option" where
  "parse_ipv6 s =
     (case cut_char (CHR ''%'') s of (a, z) \<Rightarrow>
        if z = Some [] then None
        else (case parse_ipv6_bytes a of None \<Rightarrow> None
          | Some ip \<Rightarrow> Some (Addr6 (word_of_bytes ip) (case z of None \<Rightarrow> [] | Some z \<Rightarrow> z))))"

text \<open>\<open>netip.ParseAddr\<close>: the first of the characters dot, colon, percent decides.\<close>

definition ParseAddr :: "string \<Rightarrow> addr option" where
  "ParseAddr s =
     (case filter (\<lambda>c. c \<in> {CHR ''.'', CHR '':'', CHR ''%''}) s of
        [] \<Rightarrow> None
      | c # _ \<Rightarrow>
         if c = CHR ''.'' then (case parse_ipv4_bytes s of None \<Rightarrow> None | Some f \<Rightarrow> Some (Addr4 (word_of_bytes f)))
         else if c = CHR '':'' then parse_ipv6 s
         else None)"

text \<open>The text before and after the last occurrence of a character.\<close>

definition cut_last :: "char \<Rightarrow> string \<Rightarrow> (string \<times> string) option" where
  "cut_last c s =
     (case cut_char c (rev s) of (_, None) \<Rightarrow> None | (b, Some a) \<Rightarrow> Some (rev a, rev b))"

text \<open>\<open>netip.ParsePrefix\<close>.\<close>

definition parse_bits :: "string \<Rightarrow> nat \<Rightarrow> nat option" where
  "parse_bits s limit =
     (if s = [] \<or> \<not> list_all is_digit s \<or> (length s > 1 \<and> hd s = CHR ''0'') \<or> dec_value s > limit
      then None else Some (dec_value s))"

definition ParsePrefix :: "string \<Rightarrow> net_prefix option" where
  "ParsePrefix s =
     (case cut_last (CHR ''/'') s of
        None \<Rightarrow> None
      | Some (a, b) \<Rightarrow>
         (case ParseAddr a of
            None \<Rightarrow> None
          | Some (Addr4 w) \<Rightarrow> map_option (Prefix4 w) (parse_bits b 32)
          | Some (Addr6 w z) \<Rightarrow> if z \<noteq> [] then None else map_option (Prefix6 w) (parse_bits b 128)))"

subsection \<open>Containment and order\<close>

text \<open>\<open>Prefix.Contains\<close>: a zoned address is in no prefix, and the families never mix.\<close>

fun prefix_contains :: "net_prefix \<Rightarrow> addr \<Rightarrow> bool" where
  "prefix_contains (Prefix4 p b) (Addr4 a) \<longleftrightarrow> drop_bit (32 - b) (a XOR p) = 0"
| "prefix_contains (Prefix6 p b) (Addr6 a z) \<longleftrightarrow> z = [] \<and> drop_bit (128 - b) (a XOR p) = 0"
| "prefix_contains _ _ \<longleftrightarrow> False"

fun Masked :: "net_prefix \<Rightarrow> net_prefix" where
  "Masked (Prefix4 p b) = Prefix4 (push_bit (32 - b) (drop_bit (32 - b) p)) b"
| "Masked (Prefix6 p b) = Prefix6 (push_bit (128 - b) (drop_bit (128 - b) p)) b"

text \<open>
  \<open>Prefix.Compare\<close> sorts by family, masked address, length and address: the lexicographic
  order of this key.
\<close>

fun prefix_key :: "net_prefix \<Rightarrow> nat list" where
  "prefix_key (Prefix4 p b) = [0, unat (push_bit (32 - b) (drop_bit (32 - b) p)), b, unat p]"
| "prefix_key (Prefix6 p b) = [1, unat (push_bit (128 - b) (drop_bit (128 - b) p)), b, unat p]"

fun Is4In6 :: "addr \<Rightarrow> bool" where
  "Is4In6 (Addr6 w z) \<longleftrightarrow> drop_bit 32 w = 0xffff"
| "Is4In6 _ \<longleftrightarrow> False"

text \<open>\<open>Addr.Unmap\<close> and \<open>Addr.WithZone("")\<close>.\<close>

fun Unmap :: "addr \<Rightarrow> addr" where
  "Unmap (Addr6 w z) = (if Is4In6 (Addr6 w z) then Addr4 (ucast w) else Addr6 w z)"
| "Unmap a = a"

fun without_zone :: "addr \<Rightarrow> addr" where
  "without_zone (Addr6 w z) = Addr6 w []"
| "without_zone a = a"

fun addr_zone :: "addr \<Rightarrow> string" where
  "addr_zone (Addr6 w z) = z"
| "addr_zone _ = []"

fun prefix_addr :: "net_prefix \<Rightarrow> addr" where
  "prefix_addr (Prefix4 p b) = Addr4 p"
| "prefix_addr (Prefix6 p b) = Addr6 p []"

text \<open>\<open>netip.PrefixFrom(a, a.BitLen())\<close>.\<close>

fun host_prefix :: "addr \<Rightarrow> net_prefix" where
  "host_prefix (Addr4 w) = Prefix4 w 32"
| "host_prefix (Addr6 w z) = Prefix6 w 128"

lemma xor_eq_0: "(a XOR b :: 'a::len word) = 0 \<longleftrightarrow> a = b"
  by (metis xor.right_neutral xor_self_eq xor.assoc)

lemma contains4: "prefix_contains (Prefix4 p b) (Addr4 a) \<longleftrightarrow> drop_bit (32 - b) a = drop_bit (32 - b) p"
  by (simp add: drop_bit_xor xor_eq_0)

lemma contains6:
  "prefix_contains (Prefix6 p b) (Addr6 a z) \<longleftrightarrow> z = [] \<and> drop_bit (128 - b) a = drop_bit (128 - b) p"
  by (simp add: drop_bit_xor xor_eq_0)

declare prefix_contains.simps(1,2) [simp del]

lemmas prefix_contains_bits [simp] = contains4 contains6

lemma drop_push_drop:
  fixes w :: "'a::len word"
  shows "drop_bit k (push_bit k (drop_bit k w)) = drop_bit k w"
  by (rule bit_word_eqI) (auto simp: bit_simps dest: bit_imp_le_length)

lemma contains_Masked [simp]: "prefix_contains (Masked p) a = prefix_contains p a"
  by (cases p; cases a) (simp_all add: drop_push_drop)

lemma Masked_idem [simp]: "Masked (Masked p) = Masked p"
  by (cases p) (simp_all add: drop_push_drop)

lemma host_prefix_contains [simp]:
  "prefix_contains (host_prefix a) b \<longleftrightarrow> addr_zone b = [] \<and> without_zone a = b"
  by (cases a; cases b) auto

lemma prefix_key_inj [simp]: "prefix_key p = prefix_key q \<longleftrightarrow> p = q"
  by (cases p; cases q) (auto dest!: word_unat_eq_iff [THEN iffD2])

text \<open>Containment of an address in the networks of two prefixes that mask alike is the same.\<close>

lemma contains_same_mask: "Masked p = Masked q \<Longrightarrow> prefix_contains p a = prefix_contains q a"
  by (metis contains_Masked)

section \<open>Host and port\<close>

text \<open>\<open>net.SplitHostPort\<close>; \<open>None\<close> is any of its errors.\<close>

definition SplitHostPort :: "string \<Rightarrow> (string \<times> string) option" where
  "SplitHostPort s =
     (case cut_last (CHR '':'') s of
        None \<Rightarrow> None
      | Some (pre, port) \<Rightarrow>
         if s \<noteq> [] \<and> hd s = CHR ''['' then
           (case cut_char (CHR '']'') s of
              (a, Some r) \<Rightarrow>
                if r = CHR '':'' # port
                then (if CHR ''['' \<in> set (tl s) \<or> CHR '']'' \<in> set r then None
                      else Some (tl a, port))
                else None
            | _ \<Rightarrow> None)
         else if CHR '':'' \<in> set pre \<or> CHR ''['' \<in> set s \<or> CHR '']'' \<in> set s then None
         else Some (pre, port))"

text \<open>Unfolding the parsers on a concrete text.\<close>

lemmas addr_parse_simps = ParsePrefix_def ParseAddr_def cut_last_def parse_ipv4_bytes_def
  parse_octet_def dec_value_def is_digit_def parse_bits_def word_of_bytes_def

end
