(* ===== verification/Source_Sets.thy ===== *)
theory Source_Sets
  imports Net_Addr Utf8
begin

text \<open>
  The three sets of source addresses of the program: \<open>ipAllowlist\<close> (static approve ranges and
  the trusted ranges Gatehub pushes) and \<open>blockedRange\<close> of \<open>alerts.go\<close>, and
  \<open>smtpSourceExclusion\<close> of \<open>smtp_exclude.go\<close>. The locale \<open>source_set\<close> is what the three share:
  membership of an address is containment in one of finitely many networks. Each interprets
  it, and the properties of the allowlist's updates rest on its facts.
\<close>

section \<open>Membership in a set of networks\<close>

locale source_set =
  fixes member :: "'s \<Rightarrow> addr \<Rightarrow> bool"
    and nets :: "'s \<Rightarrow> net_prefix list"
  assumes member_iff: "member s a \<longleftrightarrow> (\<exists>p \<in> set (nets s). prefix_contains p a)"
begin

lemma member_cong: "set (nets s) = set (nets t) \<Longrightarrow> member s a = member t a"
  by (simp add: member_iff)

lemma member_mono: "set (nets s) \<subseteq> set (nets t) \<Longrightarrow> member s a \<Longrightarrow> member t a"
  by (auto simp: member_iff)

text \<open>Order, duplicates and host bits of the networks are immaterial.\<close>

lemma member_masked:
  assumes "Masked ` set (nets s) = Masked ` set (nets t)"
  shows "member s a = member t a"
proof -
  have "member u a \<longleftrightarrow> (\<exists>q \<in> Masked ` set (nets u). prefix_contains q a)" for u
    by (auto simp: member_iff)
  then show ?thesis by (simp only: assms)
qed

lemma zoned_not_member: "addr_zone a \<noteq> [] \<Longrightarrow> \<not> member s a"
proof
  assume "addr_zone a \<noteq> []" "member s a"
  then obtain p where "prefix_contains p a" by (auto simp: member_iff)
  with \<open>addr_zone a \<noteq> []\<close> show False by (cases p; cases a) auto
qed

lemma empty_not_member: "nets s = [] \<Longrightarrow> \<not> member s a"
  by (simp add: member_iff)

end

text \<open>\<open>Prefix.Compare\<close> as the order of the type.\<close>

instantiation net_prefix :: linorder
begin

definition less_eq_net_prefix :: "net_prefix \<Rightarrow> net_prefix \<Rightarrow> bool" where
  "less_eq_net_prefix p q \<longleftrightarrow> prefix_key p \<le> prefix_key q"

definition less_net_prefix :: "net_prefix \<Rightarrow> net_prefix \<Rightarrow> bool" where
  "less_net_prefix p q \<longleftrightarrow> prefix_key p < prefix_key q"

instance
  by standard (auto simp: less_eq_net_prefix_def less_net_prefix_def less_le)

end

section \<open>The allowlist\<close>

record ip_allowlist =
  static_nets :: "net_prefix list"
  dynamic_nets :: "net_prefix list"
  dynamicInitialized :: bool

text \<open>
  The parsing loop of \<open>newIPAllowlist\<close> and of \<open>replaceDynamic\<close>: the first range that does not
  parse is the error, the others are masked.
\<close>

fun parse_masked :: "string list \<Rightarrow> string + net_prefix list" where
  "parse_masked [] = Inr []"
| "parse_masked (cidr # cidrs) =
     (case ParsePrefix cidr of
        None \<Rightarrow> Inl cidr
      | Some p \<Rightarrow> (case parse_masked cidrs of Inl e \<Rightarrow> Inl e | Inr ps \<Rightarrow> Inr (Masked p # ps)))"

definition newIPAllowlist :: "string list \<Rightarrow> string + ip_allowlist" where
  "newIPAllowlist cidrs =
     (case parse_masked cidrs of
        Inl e \<Rightarrow> Inl e
      | Inr ps \<Rightarrow> Inr \<lparr>static_nets = ps, dynamic_nets = [], dynamicInitialized = False\<rparr>)"

text \<open>\<open>for _, prefix := range prefixes { if prefix.Contains(addr) { return true } }\<close>.\<close>

definition any_contains :: "net_prefix list \<Rightarrow> addr \<Rightarrow> bool" where
  "any_contains ps a = list_ex (\<lambda>p. prefix_contains p a) ps"

definition allow_addr :: "ip_allowlist \<Rightarrow> addr \<Rightarrow> bool" where
  "allow_addr l a = (if any_contains (static_nets l) a then True else any_contains (dynamic_nets l) a)"

definition allow_contains :: "ip_allowlist \<Rightarrow> string \<Rightarrow> bool" where
  "allow_contains l ip = (case ParseAddr ip of None \<Rightarrow> False | Some a \<Rightarrow> allow_addr l a)"

definition replaceDynamic :: "ip_allowlist \<Rightarrow> string list \<Rightarrow> (string + bool) \<times> ip_allowlist" where
  "replaceDynamic l cidrs =
     (case parse_masked cidrs of
        Inl e \<Rightarrow> (Inl e, l)
      | Inr ps \<Rightarrow>
          (let prefixes = remdups_adj (sort ps) in
           if dynamicInitialized l \<and> dynamic_nets l = prefixes then (Inr False, l)
           else (Inr True, l\<lparr>dynamic_nets := prefixes, dynamicInitialized := True\<rparr>)))"

interpretation allow: source_set allow_addr "\<lambda>l. static_nets l @ dynamic_nets l"
  by unfold_locales (auto simp: allow_addr_def any_contains_def list_ex_iff)

text \<open>The networks a list of ranges denotes.\<close>

definition networks :: "string list \<Rightarrow> net_prefix set" where
  "networks cidrs = Masked ` {p. \<exists>c \<in> set cidrs. ParsePrefix c = Some p}"

lemma networks_Nil [simp]: "networks [] = {}"
  by (simp add: networks_def)

lemma networks_Cons: "ParsePrefix c = Some p \<Longrightarrow> networks (c # cs) = insert (Masked p) (networks cs)"
  by (auto simp: networks_def)

definition well_formed_ranges :: "string list \<Rightarrow> bool" where
  "well_formed_ranges cidrs \<longleftrightarrow> (\<forall>c \<in> set cidrs. ParsePrefix c \<noteq> None)"

lemma parse_masked_Inr: "parse_masked cidrs = Inr ps \<Longrightarrow> well_formed_ranges cidrs \<and> set ps = networks cidrs"
  by (induction cidrs arbitrary: ps)
    (auto simp: well_formed_ranges_def networks_Cons split: option.splits sum.splits)

lemma parse_masked_Inl: "parse_masked cidrs = Inl e \<Longrightarrow> e \<in> set cidrs \<and> ParsePrefix e = None"
  by (induction cidrs) (auto split: option.splits sum.splits)

lemma parse_masked_total: "well_formed_ranges cidrs \<longleftrightarrow> (\<exists>ps. parse_masked cidrs = Inr ps)"
  by (cases "parse_masked cidrs") (auto dest: parse_masked_Inl parse_masked_Inr simp: well_formed_ranges_def)

text \<open>The invariant of the dynamic part: strictly sorted, and empty before the first load.\<close>

definition dynamic_ok :: "ip_allowlist \<Rightarrow> bool" where
  "dynamic_ok l \<longleftrightarrow> sorted (dynamic_nets l) \<and> distinct (dynamic_nets l) \<and>
     (\<not> dynamicInitialized l \<longrightarrow> dynamic_nets l = [])"

lemma sorted_distinct_set_eq:
  fixes xs :: "'a::linorder list"
  shows "sorted xs \<Longrightarrow> distinct xs \<Longrightarrow> sorted ys \<Longrightarrow> distinct ys \<Longrightarrow> xs = ys \<longleftrightarrow> set xs = set ys"
  using sorted_distinct_set_unique by blast

lemma distinct_remdups_adj_sorted: "sorted xs \<Longrightarrow> distinct (remdups_adj xs)"
  for xs :: "'a::linorder list"
  by (induction xs rule: remdups_adj.induct) auto

lemma compact_sort:
  "sorted (remdups_adj (sort ps))" "distinct (remdups_adj (sort ps))" "set (remdups_adj (sort ps)) = set ps"
  for ps :: "'a::linorder list"
  by (simp_all add: distinct_remdups_adj_sorted)

text \<open>
  An update of the trusted ranges is all or nothing, and the answer "changed" is exact.
  A list with a range that does not parse is refused with that range and leaves the
  allowlist as it was. Otherwise the dynamic part becomes exactly the networks of the list
  (static ranges untouched), and the update reports a change on the first load and
  afterwards just when the set of networks differs from the current one.
\<close>

theorem replaceDynamic_exact:
  assumes "dynamic_ok l" and "replaceDynamic l cidrs = (res, l')"
  shows "dynamic_ok l' \<and> static_nets l' = static_nets l \<and>
    (case res of
       Inl e \<Rightarrow> l' = l \<and> e \<in> set cidrs \<and> ParsePrefix e = None
     | Inr changed \<Rightarrow> well_formed_ranges cidrs \<and> dynamicInitialized l' \<and>
         set (dynamic_nets l') = networks cidrs \<and>
         (changed \<longleftrightarrow> \<not> dynamicInitialized l \<or> networks cidrs \<noteq> set (dynamic_nets l)))"
proof (cases "parse_masked cidrs")
  case (Inl e)
  then show ?thesis
    using assms parse_masked_Inl [OF Inl] by (auto simp: replaceDynamic_def)
next
  case (Inr ps)
  note ps = parse_masked_Inr [OF Inr]
  have same: "dynamic_nets l = remdups_adj (sort ps) \<longleftrightarrow> set (dynamic_nets l) = networks cidrs"
    using assms(1) ps compact_sort [of ps] by (subst sorted_distinct_set_eq) (auto simp: dynamic_ok_def)
  show ?thesis
  proof (cases "dynamicInitialized l \<and> set (dynamic_nets l) = networks cidrs")
    case True
    then have "res = Inr False" "l' = l"
      using assms(2) Inr same by (simp_all add: replaceDynamic_def Let_def)
    with True ps assms(1) show ?thesis by simp
  next
    case False
    then have "res = Inr True"
      "l' = l\<lparr>dynamic_nets := remdups_adj (sort ps), dynamicInitialized := True\<rparr>"
      using assms(2) Inr same by (auto simp: replaceDynamic_def Let_def split: if_splits)
    with False ps compact_sort [of ps] show ?thesis by (auto simp: dynamic_ok_def)
  qed
qed

lemma replaceDynamic_exact_witness:
  "\<exists>l'. replaceDynamic \<lparr>static_nets = [], dynamic_nets = [Prefix4 0x0a000000 8], dynamicInitialized = True\<rparr>
     [''10.9.9.9/8'', ''10.0.0.0/8''] = (Inr False, l') \<and> set (dynamic_nets l') = {Prefix4 0x0a000000 8}"
proof -
  let ?l = "\<lparr>static_nets = [], dynamic_nets = [Prefix4 0x0a000000 8], dynamicInitialized = True\<rparr>"
  obtain res l' where r: "replaceDynamic ?l [''10.9.9.9/8'', ''10.0.0.0/8''] = (res, l')" by fastforce
  have parsed: "ParsePrefix ''10.9.9.9/8'' = Some (Prefix4 0x0a090909 8)"
    "ParsePrefix ''10.0.0.0/8'' = Some (Prefix4 0x0a000000 8)"
    by (simp_all add: addr_parse_simps)
  then have nets: "networks [''10.9.9.9/8'', ''10.0.0.0/8''] = {Prefix4 0x0a000000 8}"
    by (simp add: networks_Cons)
  have "dynamic_ok ?l" by (simp add: dynamic_ok_def)
  note exact = replaceDynamic_exact [OF this r]
  show ?thesis
  proof (cases res)
    case (Inl e)
    then show ?thesis using exact parsed by auto
  next
    case (Inr changed)
    then show ?thesis using exact r nets by simp
  qed
qed

text \<open>
  Any number of updates, in order; the allowlist after them.
\<close>

definition after_updates :: "ip_allowlist \<Rightarrow> string list list \<Rightarrow> ip_allowlist" where
  "after_updates l us = foldl (\<lambda>l u. snd (replaceDynamic l u)) l us"

text \<open>The ranges in force after a history of updates: the last list that parses.\<close>

definition last_accepted :: "string list list \<Rightarrow> string list" where
  "last_accepted us = (case rev (filter well_formed_ranges us) of [] \<Rightarrow> [] | u # _ \<Rightarrow> u)"

lemma replaceDynamic_nets:
  "static_nets (snd (replaceDynamic l u)) = static_nets l"
  "set (dynamic_nets (snd (replaceDynamic l u))) =
     (if well_formed_ranges u then networks u else set (dynamic_nets l))"
proof -
  show "static_nets (snd (replaceDynamic l u)) = static_nets l"
    by (simp add: replaceDynamic_def Let_def split: sum.split)
  show "set (dynamic_nets (snd (replaceDynamic l u))) =
      (if well_formed_ranges u then networks u else set (dynamic_nets l))"
  proof (cases "parse_masked u")
    case (Inl e)
    then show ?thesis using parse_masked_total [of u] by (simp add: replaceDynamic_def)
  next
    case (Inr ps)
    then show ?thesis
      using parse_masked_Inr [OF Inr] compact_sort(3) [of ps] by (auto simp: replaceDynamic_def Let_def)
  qed
qed

lemma after_updates_nets:
  assumes "dynamic_nets l = []"
  shows "static_nets (after_updates l us) = static_nets l"
    and "set (dynamic_nets (after_updates l us)) = networks (last_accepted us)"
  using assms
  by (induction us rule: rev_induct)
    (simp_all add: after_updates_def last_accepted_def replaceDynamic_nets)

text \<open>
  C21: who is trusted. After start-up with static ranges and any history of pushed updates
  (accepted and refused ones in any order), a source is allowed exactly when its address
  parses and lies in a static range or in a range of the last update that parsed. No
  update can remove a static range, and none leaves a stale range behind.
\<close>

theorem allowlist_history:
  assumes "newIPAllowlist cidrs = Inr l"
  shows "allow_contains (after_updates l us) ip \<longleftrightarrow>
    (\<exists>a. ParseAddr ip = Some a \<and>
      (\<exists>c \<in> set cidrs \<union> set (last_accepted us). \<exists>p. ParsePrefix c = Some p \<and> prefix_contains p a))"
proof -
  obtain ps where l: "parse_masked cidrs = Inr ps" "static_nets l = ps" "dynamic_nets l = []"
    using assms by (auto simp: newIPAllowlist_def split: sum.splits)
  let ?l = "after_updates l us"
  have "set (static_nets ?l @ dynamic_nets ?l) = networks cidrs \<union> networks (last_accepted us)"
    using after_updates_nets [OF l(3), of us] parse_masked_Inr [OF l(1)] l(2) by simp
  then have "allow_addr ?l a \<longleftrightarrow> (\<exists>p \<in> networks cidrs \<union> networks (last_accepted us). prefix_contains p a)" for a
    by (simp only: allow.member_iff)
  moreover have "(\<exists>p \<in> networks cidrs \<union> networks (last_accepted us). prefix_contains p a) \<longleftrightarrow>
      (\<exists>c \<in> set cidrs \<union> set (last_accepted us). \<exists>p. ParsePrefix c = Some p \<and> prefix_contains p a)" for a
    unfolding networks_def by (simp add: image_Un [symmetric] bex_Un) blast
  ultimately show ?thesis
    by (cases "ParseAddr ip") (simp_all add: allow_contains_def)
qed

lemma allowlist_history_witness:
  "allow_contains (after_updates \<lparr>static_nets = [], dynamic_nets = [], dynamicInitialized = False\<rparr>
     [[''10.9.9.9/8''], [''oops'']]) ''10.1.2.3''"
proof -
  let ?us = "[[''10.9.9.9/8''], [''oops'']]"
  have start: "newIPAllowlist [] = Inr \<lparr>static_nets = [], dynamic_nets = [], dynamicInitialized = False\<rparr>"
    by (simp add: newIPAllowlist_def)
  have parsed: "ParsePrefix ''oops'' = None" "ParsePrefix ''10.9.9.9/8'' = Some (Prefix4 0x0a090909 8)"
    "ParseAddr ''10.1.2.3'' = Some (Addr4 0x0a010203)"
    "prefix_contains (Prefix4 0x0a090909 8) (Addr4 0x0a010203)"
    by (simp_all add: addr_parse_simps)
  then have "last_accepted ?us = [''10.9.9.9/8'']"
    by (simp add: last_accepted_def well_formed_ranges_def)
  with parsed show ?thesis
    unfolding allowlist_history [OF start, of ?us] by simp
qed

section \<open>Alert ranges\<close>

record blocked_range =
  range_name :: string
  range_nets :: "net_prefix list"

text \<open>\<open>blockedRange.contains\<close>.\<close>

definition range_contains :: "blocked_range \<Rightarrow> addr \<Rightarrow> bool" where
  "range_contains r a = any_contains (range_nets r) a"

interpretation blocked: source_set range_contains range_nets
  by unfold_locales (simp add: range_contains_def any_contains_def list_ex_iff)

section \<open>Excluded SMTP sources\<close>

definition maxSMTPExcludedSources :: nat where
  "maxSMTPExcludedSources = 256"

datatype exclusion_error =
    InvalidSource string
  | ZonedSource string
  | MappedSource string
  | TooManySources

text \<open>One item of the list, after \<open>TrimSpace\<close>.\<close>

definition exclusion_item :: "string \<Rightarrow> exclusion_error + net_prefix" where
  "exclusion_item item =
     (case
        (if CHR 0x2F \<in> set item then
           (case ParsePrefix item of None \<Rightarrow> Inl (InvalidSource item) | Some p \<Rightarrow> Inr (Masked p))
         else
           (case ParseAddr item of
              None \<Rightarrow> Inl (InvalidSource item)
            | Some a \<Rightarrow> if addr_zone a \<noteq> [] then Inl (ZonedSource item) else Inr (host_prefix (Unmap a))))
      of Inl e \<Rightarrow> Inl e
       | Inr p \<Rightarrow> if Is4In6 (prefix_addr p) then Inl (MappedSource item) else Inr p)"

fun exclusion_loop :: "string list \<Rightarrow> net_prefix list \<Rightarrow> exclusion_error + net_prefix list" where
  "exclusion_loop [] acc = Inr acc"
| "exclusion_loop (item # items) acc =
     (let item = TrimSpace item in
      if item = [] then exclusion_loop items acc
      else (case exclusion_item item of
          Inl e \<Rightarrow> Inl e
        | Inr p \<Rightarrow> if length acc = maxSMTPExcludedSources then Inl TooManySources
                   else exclusion_loop items (acc @ [p])))"

definition parseSMTPSourceExclusion :: "string \<Rightarrow> exclusion_error + net_prefix list" where
  "parseSMTPSourceExclusion value = exclusion_loop (split_char (CHR '','') value) []"

definition excludesClient :: "net_prefix list \<Rightarrow> string \<Rightarrow> bool" where
  "excludesClient e client =
     (if e = [] then False
      else (case SplitHostPort client of
          None \<Rightarrow> False
        | Some (host, _) \<Rightarrow>
           (case ParseAddr host of
              None \<Rightarrow> False
            | Some a \<Rightarrow> any_contains e (without_zone (Unmap a)))))"

interpretation excluded: source_set any_contains "\<lambda>e. e"
  by unfold_locales (simp add: any_contains_def list_ex_iff)

text \<open>What an item of the list stands for: a host, or the addresses of a prefix.\<close>

definition item_covers :: "string \<Rightarrow> addr \<Rightarrow> bool" where
  "item_covers item a \<longleftrightarrow>
     (if CHR 0x2F \<in> set item
      then (\<exists>p. ParsePrefix item = Some p \<and> prefix_contains p a)
      else (\<exists>b. ParseAddr item = Some b \<and> addr_zone a = [] \<and> Unmap b = a))"

lemma Unmap_no_zone: "addr_zone a = [] \<Longrightarrow> addr_zone (Unmap a) = []"
  by (cases a) auto

lemma without_zone_id: "addr_zone a = [] \<Longrightarrow> without_zone a = a"
  by (cases a) auto

lemma exclusion_item_Inr:
  assumes "exclusion_item item = Inr p"
  shows "prefix_contains p a = item_covers item a" and "\<not> Is4In6 (prefix_addr p)"
proof -
  show "\<not> Is4In6 (prefix_addr p)"
    using assms by (auto simp: exclusion_item_def split: sum.splits if_splits)
  have "(CHR 0x2F \<in> set item \<and> (\<exists>q. ParsePrefix item = Some q \<and> p = Masked q)) \<or>
      (CHR 0x2F \<notin> set item \<and> (\<exists>b. ParseAddr item = Some b \<and> addr_zone b = [] \<and> p = host_prefix (Unmap b)))"
    using assms by (auto simp: exclusion_item_def split: sum.splits if_splits option.splits)
  then show "prefix_contains p a = item_covers item a"
    by (auto simp: item_covers_def without_zone_id Unmap_no_zone)
qed

lemma exclusion_loop_Inr:
  assumes "exclusion_loop items acc = Inr e" "length acc \<le> maxSMTPExcludedSources"
    and "\<forall>p \<in> set acc. \<not> Is4In6 (prefix_addr p)"
  shows "length e \<le> maxSMTPExcludedSources \<and> (\<forall>p \<in> set e. \<not> Is4In6 (prefix_addr p)) \<and>
    (any_contains e a \<longleftrightarrow> any_contains acc a \<or>
       (\<exists>item \<in> set items. TrimSpace item \<noteq> [] \<and> item_covers (TrimSpace item) a))"
  using assms
proof (induction items acc rule: exclusion_loop.induct)
  case (2 item items acc)
  show ?case
  proof (cases "TrimSpace item = []")
    case True
    then show ?thesis using 2 by simp
  next
    case False
    then obtain p where p: "exclusion_item (TrimSpace item) = Inr p"
      "length acc \<noteq> maxSMTPExcludedSources" "exclusion_loop items (acc @ [p]) = Inr e"
      using "2.prems"(1) by (auto simp: Let_def split: sum.splits if_splits)
    note IH = "2.IH"(2) [OF refl False p(1,2)]
    show ?thesis
      using IH [OF p(3)] "2.prems"(2,3) p(2) exclusion_item_Inr [OF p(1)] False
      by (auto simp: any_contains_def)
  qed
qed simp

lemma excludesClient_iff:
  "excludesClient e client \<longleftrightarrow>
     (\<exists>host port a. SplitHostPort client = Some (host, port) \<and> ParseAddr host = Some a \<and>
        any_contains e (without_zone (Unmap a)))"
  by (auto simp: excludesClient_def any_contains_def split: option.splits)

text \<open>
  The exclusion list means what the operator wrote. An accepted list has at most 256
  networks, none in IPv4-mapped form, and a client is excluded exactly when its endpoint
  parses and its address, mapped addresses read as IPv4 and zones dropped, is one of the
  listed hosts or inside one of the listed prefixes.
\<close>

theorem exclusion_exact:
  assumes "parseSMTPSourceExclusion value = Inr e"
  shows "length e \<le> maxSMTPExcludedSources \<and> (\<forall>p \<in> set e. \<not> Is4In6 (prefix_addr p)) \<and>
    (excludesClient e client \<longleftrightarrow>
       (\<exists>host port a. SplitHostPort client = Some (host, port) \<and> ParseAddr host = Some a \<and>
          (\<exists>item \<in> set (split_char (CHR '','') value). TrimSpace item \<noteq> [] \<and>
             item_covers (TrimSpace item) (without_zone (Unmap a)))))"
proof -
  have "length e \<le> maxSMTPExcludedSources \<and> (\<forall>p \<in> set e. \<not> Is4In6 (prefix_addr p)) \<and>
    (any_contains e a \<longleftrightarrow> (\<exists>item \<in> set (split_char (CHR '','') value).
       TrimSpace item \<noteq> [] \<and> item_covers (TrimSpace item) a))" for a
    using exclusion_loop_Inr [of "split_char (CHR '','') value" "[]" e a] assms
    by (simp add: parseSMTPSourceExclusion_def any_contains_def)
  then show ?thesis
    unfolding excludesClient_iff by simp
qed

lemma exclusion_exact_witness:
  "excludesClient [Prefix4 0xc0000200 24] ''192.0.2.7:25''"
proof -
  have parsed: "ParseAddr ''192.0.2.7'' = Some (Addr4 0xc0000207)"
    "ParsePrefix ''192.0.2.9/24'' = Some (Prefix4 0xc0000209 24)"
    "SplitHostPort ''192.0.2.7:25'' = Some (''192.0.2.7'', ''25'')"
    by (simp_all add: addr_parse_simps SplitHostPort_def)
  have trim: "TrimSpace '' 192.0.2.9/24'' = ''192.0.2.9/24''" "TrimSpace [] = []"
    by (simp_all add: TrimSpace_def segments.simps codes_def IsSpace_def Let_def)
  have "parseSMTPSourceExclusion '' 192.0.2.9/24,'' = Inr [Prefix4 0xc0000200 24]"
    using parsed trim by (simp add: parseSMTPSourceExclusion_def exclusion_item_def maxSMTPExcludedSources_def Let_def)
  from exclusion_exact [OF this, of "''192.0.2.7:25''"] show ?thesis
    using parsed trim by (simp add: item_covers_def)
qed

end
