(* ===== verification/Alerts.thy ===== *)
theory Alerts
  imports Complex_Main Log_Text Source_Sets Fingerprints "HOL-Library.Multiset"
begin

text \<open>
  Configuration and alerts: the checks of \<open>loadConfig\<close> and \<open>requireSecureNotificationURL\<close>, the
  construction of the blocked-range alerter, the alert text, the notification senders, and the
  alerter itself as a transition system, because connections and workers run it concurrently
  (all in \<open>alerts.go\<close>), with the bound on recorded alerts of \<open>store.go\<close>.
\<close>

section \<open>Notification URLs\<close>

text \<open>
  What \<open>url.Parse\<close> returns, as far as the check looks: the scheme, the host and the parsed query,
  each key with its values in some order of the keys; \<open>None\<close> for a query that does not parse.
\<close>

record parsed_url =
  Scheme :: string
  url_Host :: string
  url_query :: "(string \<times> string list) list option"

datatype url_error =
    URLUnparseable
  | CleartextTransport string string
  | BadQuery
  | SMTPEncryption
  | SMTPEncryptionMissing
  | TLSDisabled string string

text \<open>The loop over the keys for SMTP; \<open>encryption\<close> is the value found so far.\<close>

fun smtp_encryption :: "(string \<times> string list) list \<Rightarrow> string \<Rightarrow> url_error + string" where
  "smtp_encryption [] encryption = Inr encryption"
| "smtp_encryption ((key, vals) # q) encryption =
     (if EqualFold key ''encryption'' then
        (if encryption \<noteq> [] \<or> length vals \<noteq> 1 \<or> \<not> EqualFold (hd vals) ''ImplicitTLS'' then Inl SMTPEncryption
         else smtp_encryption q (hd vals))
      else smtp_encryption q encryption)"

definition disabling_words :: "string list" where
  "disabling_words = [''yes'', ''true'', ''1'', ''on'']"

definition sets_disabletls :: "(string \<times> string list) list \<Rightarrow> bool" where
  "sets_disabletls query =
     list_ex (\<lambda>(key, vals). ToLower key = ''disabletls'' \<and> list_ex (\<lambda>v. ToLower v \<in> set disabling_words) vals) query"

definition requireSecureNotificationURL :: "(string \<Rightarrow> parsed_url option) \<Rightarrow> string \<Rightarrow> url_error + unit" where
  "requireSecureNotificationURL parse_url rawURL =
     (case parse_url rawURL of
        None \<Rightarrow> Inl URLUnparseable
      | Some u \<Rightarrow>
          (let scheme = ToLower (Scheme u) in
           if scheme = ''http'' \<or> has_suffix scheme ''+http'' then Inl (CleartextTransport scheme (url_Host u))
           else (case url_query u of
               None \<Rightarrow> Inl BadQuery
             | Some query \<Rightarrow>
                 ebind (if scheme = ''smtp'' then
                     ebind (smtp_encryption query []) (\<lambda>encryption.
                       if encryption = [] then Inl SMTPEncryptionMissing else Inr ())
                   else Inr ())
                 (\<lambda>_.
                   if sets_disabletls query then Inl (TLSDisabled scheme (url_Host u)) else Inr ()))))"

section \<open>Configuration\<close>

text \<open>The decoded file as far as \<open>loadConfig\<close> checks it; the rate is a finite JSON number.\<close>

record app_config =
  ac_MaxFingerprints :: int
  ac_MaxConnections :: int
  ac_ConnectionRate :: rat
  ac_ConnectionBurst :: int
  ac_NotificationMode :: string
  ac_NotificationURLs :: "string list"

datatype config_error =
    MaxFingerprintsTooSmall int
  | MaxConnectionsNegative int
  | ConnectionRateNegative rat
  | ConnectionBurstNegative int
  | UnknownNotificationMode string
  | InsecureURL url_error

definition defaultMaxFingerprints :: int where "defaultMaxFingerprints = 100000"
definition defaultMaxConnections :: int where "defaultMaxConnections = 1024"
definition defaultConnectionRate :: rat where "defaultConnectionRate = 1"
definition defaultConnectionBurst :: int where "defaultConnectionBurst = 120"

text \<open>Without a file.\<close>

definition default_config :: app_config where
  "default_config =
     \<lparr>ac_MaxFingerprints = defaultMaxFingerprints, ac_MaxConnections = defaultMaxConnections,
      ac_ConnectionRate = defaultConnectionRate, ac_ConnectionBurst = defaultConnectionBurst,
      ac_NotificationMode = [], ac_NotificationURLs = []\<rparr>"

fun check_urls :: "(string \<Rightarrow> parsed_url option) \<Rightarrow> string list \<Rightarrow> url_error + unit" where
  "check_urls parse_url [] = Inr ()"
| "check_urls parse_url (u # us) = ebind (requireSecureNotificationURL parse_url u) (\<lambda>_. check_urls parse_url us)"

definition or_default :: "'a::zero \<Rightarrow> 'a \<Rightarrow> 'a" where
  "or_default d x = (if x = 0 then d else x)"

text \<open>What follows the decoding.\<close>

definition check_config :: "(string \<Rightarrow> parsed_url option) \<Rightarrow> app_config \<Rightarrow> config_error + app_config" where
  "check_config parse_url cfg =
     (if ac_MaxFingerprints cfg < -1 then Inl (MaxFingerprintsTooSmall (ac_MaxFingerprints cfg))
      else if ac_MaxConnections cfg < 0 then Inl (MaxConnectionsNegative (ac_MaxConnections cfg))
      else if ac_ConnectionRate cfg < 0 then Inl (ConnectionRateNegative (ac_ConnectionRate cfg))
      else if ac_ConnectionBurst cfg < 0 then Inl (ConnectionBurstNegative (ac_ConnectionBurst cfg))
      else
        (let mode = (if ac_NotificationMode cfg = [] then ''failover'' else ac_NotificationMode cfg) in
         if mode \<noteq> ''failover'' \<and> mode \<noteq> ''broadcast'' then Inl (UnknownNotificationMode mode)
         else (case check_urls parse_url (ac_NotificationURLs cfg) of
             Inl e \<Rightarrow> Inl (InsecureURL e)
           | Inr _ \<Rightarrow> Inr (cfg
               \<lparr>ac_MaxFingerprints := or_default defaultMaxFingerprints (ac_MaxFingerprints cfg),
                ac_MaxConnections := or_default defaultMaxConnections (ac_MaxConnections cfg),
                ac_ConnectionRate := or_default defaultConnectionRate (ac_ConnectionRate cfg),
                ac_ConnectionBurst := or_default defaultConnectionBurst (ac_ConnectionBurst cfg),
                ac_NotificationMode := mode\<rparr>))))"

section \<open>Senders\<close>

text \<open>\<open>shoutrrrErrors\<close>: the messages of the errors that are not nil, if there is one.\<close>

definition shoutrrrErrors :: "string option list \<Rightarrow> string option" where
  "shoutrrrErrors errs = (let parts = map the (filter (\<lambda>e. e \<noteq> None) errs) in
     if parts \<noteq> [] then Some (join ''; '' parts) else None)"

text \<open>
  \<open>sendShoutrrrFailover\<close>: each sender is given by the errors its call returns. The result is the
  error, if any, and how many senders were called.
\<close>

fun failover_loop :: "(string \<Rightarrow> string option list) list \<Rightarrow> string \<Rightarrow> string list \<Rightarrow> string option \<times> nat" where
  "failover_loop [] txt parts = (Some (''notification send failed: '' @ join ''; '' parts), 0)"
| "failover_loop (send # senders) txt parts =
     (case shoutrrrErrors (send txt) of
        None \<Rightarrow> (None, 1)
      | Some err \<Rightarrow> (case failover_loop senders txt (parts @ [err]) of (r, n) \<Rightarrow> (r, n + 1)))"

definition sendShoutrrrFailover :: "(string \<Rightarrow> string option list) list \<Rightarrow> string \<Rightarrow> string option \<times> nat" where
  "sendShoutrrrFailover senders txt = failover_loop senders txt []"

definition sendShoutrrrBroadcast :: "(string \<Rightarrow> string option list) \<Rightarrow> string \<Rightarrow> string option" where
  "sendShoutrrrBroadcast send txt =
     map_option (\<lambda>err. ''notification send failed: '' @ err) (shoutrrrErrors (send txt))"

section \<open>The alerter\<close>

record alert_range_config =
  arc_Name :: string
  arc_CIDRs :: "string list"

datatype alerter_error =
    NoNotificationURLs
  | SenderError string
  | RangeMissingName
  | BadRangeCIDR string string
  | RangeWithoutCIDRs string

fun range_prefixes :: "string \<Rightarrow> string list \<Rightarrow> alerter_error + net_prefix list" where
  "range_prefixes name [] = Inr []"
| "range_prefixes name (cidr # cidrs) =
     (case ParsePrefix cidr of
        None \<Rightarrow> Inl (BadRangeCIDR name cidr)
      | Some p \<Rightarrow> ebind (range_prefixes name cidrs) (\<lambda>ps. Inr (p # ps)))"

fun alert_ranges :: "alert_range_config list \<Rightarrow> alerter_error + blocked_range list" where
  "alert_ranges [] = Inr []"
| "alert_ranges (c # cs) =
     (if arc_Name c = [] then Inl RangeMissingName
      else ebind (range_prefixes (arc_Name c) (arc_CIDRs c)) (\<lambda>ps.
        if ps = [] then Inl (RangeWithoutCIDRs (arc_Name c))
        else ebind (alert_ranges cs) (\<lambda>rs. Inr (\<lparr>range_name = arc_Name c, range_nets = ps\<rparr> # rs))))"

text \<open>
  \<open>newNotificationSender\<close>; \<open>shoutrrr.CreateSender\<close> is the library's, its senders are functions from
  a text to the errors of the services.
\<close>

type_synonym sender = "string \<Rightarrow> string option list"

fun create_all :: "(string list \<Rightarrow> string + sender) \<Rightarrow> string list \<Rightarrow> string + sender list" where
  "create_all create [] = Inr []"
| "create_all create (u # us) = ebind (create [u]) (\<lambda>s. ebind (create_all create us) (\<lambda>ss. Inr (s # ss)))"

datatype sender_error = SenderURL url_error | CreateFailed string | UnknownMode string

definition newNotificationSender ::
  "(string \<Rightarrow> parsed_url option) \<Rightarrow> (string list \<Rightarrow> string + sender) \<Rightarrow> string list \<Rightarrow> string \<Rightarrow>
     sender_error + (string \<Rightarrow> string option)" where
  "newNotificationSender parse_url create urls mode =
     (case check_urls parse_url urls of
        Inl e \<Rightarrow> Inl (SenderURL e)
      | Inr _ \<Rightarrow>
          (if mode = ''failover'' then
             (case create_all create urls of
                Inl e \<Rightarrow> Inl (CreateFailed e)
              | Inr senders \<Rightarrow> Inr (\<lambda>txt. fst (sendShoutrrrFailover senders txt)))
           else if mode = ''broadcast'' then
             (case create urls of
                Inl e \<Rightarrow> Inl (CreateFailed e)
              | Inr send \<Rightarrow> Inr (sendShoutrrrBroadcast send))
           else Inl (UnknownMode mode)))"

text \<open>\<open>NewBlockedRangeAlerter\<close>: no alerter without ranges; else its ranges and its sender.\<close>

definition NewBlockedRangeAlerter ::
  "(string \<Rightarrow> parsed_url option) \<Rightarrow> (string list \<Rightarrow> string + sender) \<Rightarrow> alert_range_config list \<Rightarrow> app_config \<Rightarrow>
     (alerter_error + sender_error) + (blocked_range list \<times> (string \<Rightarrow> string option)) option" where
  "NewBlockedRangeAlerter parse_url create ranges cfg =
     (if ranges = [] then Inr None
      else
        (let mode = (if ac_NotificationMode cfg = [] then ''failover'' else ac_NotificationMode cfg) in
         if ac_NotificationURLs cfg = [] then Inl (Inl NoNotificationURLs)
         else (case newNotificationSender parse_url create (ac_NotificationURLs cfg) mode of
             Inl e \<Rightarrow> Inl (Inr e)
           | Inr send \<Rightarrow>
               (case alert_ranges ranges of
                  Inl e \<Rightarrow> Inl (Inl e)
                | Inr rs \<Rightarrow> Inr (Some (rs, send))))))"

definition code_span :: "string \<Rightarrow> string \<Rightarrow> string" where
  "code_span name val = name @ '' '' @ [CHR 0x60] @ val @ [CHR 0x60]"

definition blockedRangeMessage :: "string \<Rightarrow> string \<Rightarrow> int \<Rightarrow> string \<Rightarrow> tls_metadata \<Rightarrow> string" where
  "blockedRangeMessage rangeName ip port fp meta =
     '':warning: blocked TLS connection from known range: '' @
     join '' ''
       ([code_span ''range'' rangeName, code_span ''ip'' ip, code_span ''port'' (itoa_int port), code_span ''fp'' fp] @
        (if SNI meta \<noteq> [] then [code_span ''sni'' (sanitizeAlertField (SNI meta))] else []) @
        (if JA3 meta \<noteq> [] then [code_span ''ja3'' (sanitizeAlertField (JA3 meta))] else []) @
        (if JA4 meta \<noteq> [] then [code_span ''ja4'' (sanitizeAlertField (JA4 meta))] else []))"

section \<open>Alerts in flight\<close>

text \<open>
  The stages of one alert: marked as pending, refused by the full queue, taken by a worker,
  sent, and about to be removed from the pending set. Alerts in the channel are in \<open>as_queue\<close>.
\<close>

datatype alert_stage = Marked | Dropping | Sending | Recording | Clearing

record alert =
  al_range :: string
  al_ip :: string
  al_message :: string

definition pending_key :: "string \<Rightarrow> string \<Rightarrow> string" where
  "pending_key rangeName ip = rangeName @ [CHR 0x00] @ ip"

definition alert_key :: "alert \<Rightarrow> string" where
  "alert_key a = pending_key (al_range a) (al_ip a)"

definition alertQueueSize :: nat where "alertQueueSize = 256"
definition alertWorkerCount :: nat where "alertWorkerCount = 4"
definition maxBlockedRangeAlerts :: nat where "maxBlockedRangeAlerts = 10000"

text \<open>
  The retention trigger: rows in the order of their row numbers; those up to the row at offset
  10000, counted from the newest, are deleted.
\<close>

definition trim_alerts :: "'a list \<Rightarrow> 'a list" where
  "trim_alerts rows = drop (length rows - maxBlockedRangeAlerts) rows"

text \<open>
  The state: goroutines that saw no recorded alert and have not marked theirs; alerts marked
  and not cleared, outside the queue; the queue; the pending keys; the recorded pairs of range
  and address; and, for the statements, what was delivered.
\<close>

record alert_system =
  as_checked :: "alert multiset"
  as_busy :: "(alert_stage \<times> alert) multiset"
  as_queue :: "alert list"
  as_pending :: "string set"
  as_recorded :: "(string \<times> string) list"
  as_delivered :: "alert list"

definition workers_busy :: "alert_system \<Rightarrow> nat" where
  "workers_busy s = size (filter_mset (\<lambda>(st, _). st \<in> {Sending, Recording, Clearing}) (as_busy s))"

text \<open>An alert moves from one stage to the next.\<close>

definition to_stage :: "alert_stage \<Rightarrow> alert_stage \<Rightarrow> alert \<Rightarrow> alert_system \<Rightarrow> alert_system" where
  "to_stage st st' a s = s\<lparr>as_busy := add_mset (st', a) (as_busy s - {#(st, a)#})\<rparr>"

text \<open>
  Recording an alert is the library's insertion (an argument) followed by the trigger.
\<close>

type_synonym insert_row = "(string \<times> string) list \<Rightarrow> string \<times> string \<Rightarrow> (string \<times> string) list"

definition record_alert :: "insert_row \<Rightarrow> (string \<times> string) list \<Rightarrow> alert \<Rightarrow> (string \<times> string) list" where
  "record_alert ins rows a = trim_alerts (ins rows (al_range a, al_ip a))"

inductive alert_step :: "insert_row \<Rightarrow> blocked_range list \<Rightarrow> alert_system \<Rightarrow> alert_system \<Rightarrow> bool" for ins ranges where
  check: "ParseAddr ip = Some addr \<Longrightarrow> r \<in> set ranges \<Longrightarrow> range_contains r addr \<Longrightarrow>
    (range_name r, ip) \<notin> set (as_recorded s) \<Longrightarrow>
    a = \<lparr>al_range = range_name r, al_ip = ip, al_message = blockedRangeMessage (range_name r) ip port fp meta\<rparr> \<Longrightarrow>
    alert_step ins ranges s (s\<lparr>as_checked := add_mset a (as_checked s)\<rparr>)"
| mark: "a \<in># as_checked s \<Longrightarrow> alert_key a \<notin> as_pending s \<Longrightarrow>
    alert_step ins ranges s (s\<lparr>as_checked := as_checked s - {#a#}, as_pending := insert (alert_key a) (as_pending s),
      as_busy := add_mset (Marked, a) (as_busy s)\<rparr>)"
| suppress: "a \<in># as_checked s \<Longrightarrow> alert_key a \<in> as_pending s \<Longrightarrow>
    alert_step ins ranges s (s\<lparr>as_checked := as_checked s - {#a#}\<rparr>)"
| enqueue: "(Marked, a) \<in># as_busy s \<Longrightarrow> length (as_queue s) < alertQueueSize \<Longrightarrow>
    alert_step ins ranges s (s\<lparr>as_busy := as_busy s - {#(Marked, a)#}, as_queue := as_queue s @ [a]\<rparr>)"
| full: "(Marked, a) \<in># as_busy s \<Longrightarrow> \<not> length (as_queue s) < alertQueueSize \<Longrightarrow>
    alert_step ins ranges s (to_stage Marked Dropping a s)"
| take: "as_queue s = a # q \<Longrightarrow> workers_busy s < alertWorkerCount \<Longrightarrow>
    alert_step ins ranges s (s\<lparr>as_queue := q, as_busy := add_mset (Sending, a) (as_busy s)\<rparr>)"
| send_failed: "(Sending, a) \<in># as_busy s \<Longrightarrow> alert_step ins ranges s (to_stage Sending Clearing a s)"
| sent: "(Sending, a) \<in># as_busy s \<Longrightarrow>
    alert_step ins ranges s ((to_stage Sending Recording a s)\<lparr>as_delivered := as_delivered s @ [a]\<rparr>)"
| recorded: "(Recording, a) \<in># as_busy s \<Longrightarrow>
    alert_step ins ranges s ((to_stage Recording Clearing a s)\<lparr>as_recorded := record_alert ins (as_recorded s) a\<rparr>)"
| record_failed: "(Recording, a) \<in># as_busy s \<Longrightarrow> alert_step ins ranges s (to_stage Recording Clearing a s)"
| clear: "(st, a) \<in># as_busy s \<Longrightarrow> st \<in> {Dropping, Clearing} \<Longrightarrow>
    alert_step ins ranges s (s\<lparr>as_busy := as_busy s - {#(st, a)#}, as_pending := as_pending s - {alert_key a}\<rparr>)"

inductive_cases alert_stepE: "alert_step ins ranges s t"

definition alerts_start :: "(string \<times> string) list \<Rightarrow> alert_system" where
  "alerts_start rows =
     \<lparr>as_checked = {#}, as_busy = {#}, as_queue = [], as_pending = {}, as_recorded = trim_alerts rows, as_delivered = []\<rparr>"

section \<open>One alert per range and address at a time\<close>

definition in_flight :: "alert_system \<Rightarrow> alert multiset" where
  "in_flight s = image_mset snd (as_busy s) + mset (as_queue s)"

definition alert_inv :: "alert_system \<Rightarrow> bool" where
  "alert_inv s \<longleftrightarrow> finite (as_pending s) \<and> image_mset alert_key (in_flight s) = mset_set (as_pending s) \<and>
     length (as_queue s) \<le> alertQueueSize \<and> workers_busy s \<le> alertWorkerCount \<and>
     length (as_recorded s) \<le> maxBlockedRangeAlerts"

lemma alert_invI:
  assumes "finite (as_pending s)" "image_mset alert_key (in_flight s) = mset_set (as_pending s)"
    "length (as_queue s) \<le> alertQueueSize" "workers_busy s \<le> alertWorkerCount" "length (as_recorded s) \<le> maxBlockedRangeAlerts"
  shows "alert_inv s"
  using assms by (simp add: alert_inv_def)

lemma alert_invD:
  assumes "alert_inv s"
  shows "finite (as_pending s)" "image_mset alert_key (in_flight s) = mset_set (as_pending s)"
    "length (as_queue s) \<le> alertQueueSize" "workers_busy s \<le> alertWorkerCount" "length (as_recorded s) \<le> maxBlockedRangeAlerts"
  using assms by (simp_all add: alert_inv_def)

lemma length_trim_alerts: "length (trim_alerts rows) \<le> maxBlockedRangeAlerts"
  by (simp add: trim_alerts_def)

lemma record_alert_bound: "length (record_alert ins rows a) \<le> maxBlockedRangeAlerts"
  by (simp add: record_alert_def length_trim_alerts)

lemma to_stage_fields [simp]:
  "as_checked (to_stage st st' a s) = as_checked s" "as_queue (to_stage st st' a s) = as_queue s"
  "as_pending (to_stage st st' a s) = as_pending s" "as_recorded (to_stage st st' a s) = as_recorded s"
  "as_delivered (to_stage st st' a s) = as_delivered s"
  "as_busy (to_stage st st' a s) = add_mset (st', a) (as_busy s - {#(st, a)#})"
  by (simp_all add: to_stage_def)

lemma to_stage_inv:
  assumes "alert_inv s" "(st, a) \<in># as_busy s" "st' \<in> {Sending, Recording, Clearing} \<longrightarrow> st \<in> {Sending, Recording, Clearing}"
  shows "alert_inv (to_stage st st' a s)"
proof -
  obtain B where B: "as_busy s = add_mset (st, a) B" using assms(2) by (blast dest: multi_member_split)
  show ?thesis
    using alert_invD [OF assms(1)] assms(3)
    by (intro alert_invI) (auto simp: in_flight_def workers_busy_def B split: if_splits)
qed

lemma in_flight_frame [simp]:
  "in_flight (s\<lparr>as_delivered := d\<rparr>) = in_flight s" "in_flight (s\<lparr>as_recorded := rs\<rparr>) = in_flight s"
  "in_flight (s\<lparr>as_checked := c\<rparr>) = in_flight s"
  "workers_busy (s\<lparr>as_delivered := d\<rparr>) = workers_busy s" "workers_busy (s\<lparr>as_recorded := rs\<rparr>) = workers_busy s"
  "workers_busy (s\<lparr>as_checked := c\<rparr>) = workers_busy s"
  by (simp_all add: in_flight_def workers_busy_def)

lemma alert_inv_frame [simp]:
  "alert_inv (s\<lparr>as_delivered := d\<rparr>) = alert_inv s" "alert_inv (s\<lparr>as_checked := c\<rparr>) = alert_inv s"
  by (simp_all add: alert_inv_def)

lemma alert_inv_step: "alert_step ins ranges s t \<Longrightarrow> alert_inv s \<Longrightarrow> alert_inv t"
proof (induction rule: alert_step.induct)
  case (mark a s)
  note inv = alert_invD [OF mark(3)]
  show ?case
    by (rule alert_invI) (use inv mark(2) in \<open>simp_all add: in_flight_def workers_busy_def\<close>)
next
  case (enqueue a s)
  obtain B where B: "as_busy s = add_mset (Marked, a) B" using enqueue(1) by (blast dest: multi_member_split)
  show ?case
    by (rule alert_invI) (use alert_invD [OF enqueue(3)] enqueue(2) in \<open>simp_all add: in_flight_def workers_busy_def B\<close>)
next
  case (take s a q)
  show ?case
    by (rule alert_invI) (use alert_invD [OF take(3)] take(1,2) in \<open>simp_all add: in_flight_def workers_busy_def\<close>)
next
  case (clear st a s)
  obtain B where B: "as_busy s = add_mset (st, a) B" using clear(1) by (blast dest: multi_member_split)
  note inv = alert_invD [OF clear(3)]
  have keys: "mset_set (as_pending s) = add_mset (alert_key a) (image_mset alert_key (image_mset snd B + mset (as_queue s)))"
    using inv(2) by (simp add: in_flight_def B)
  have "alert_key a \<in># mset_set (as_pending s)" by (simp add: keys)
  then have "alert_key a \<in> as_pending s" using inv(1) by simp
  from mset_set.remove [OF inv(1) this] keys
  have rest: "image_mset alert_key (image_mset snd B + mset (as_queue s)) = mset_set (as_pending s - {alert_key a})" by simp
  have workers: "size (filter_mset (\<lambda>(st, _). st \<in> {Sending, Recording, Clearing}) B) \<le> alertWorkerCount"
    using inv(4) by (simp add: workers_busy_def B split: if_splits)
  show ?case
    by (rule alert_invI) (use inv(1,3,5) rest workers in \<open>simp_all add: in_flight_def workers_busy_def B\<close>)
next
  case (recorded a s)
  then show ?case
    using to_stage_inv [of s Recording a Clearing] record_alert_bound by (simp add: alert_inv_def)
qed (simp_all add: to_stage_inv)

lemma alert_inv_start: "alert_inv (alerts_start rows)"
  by (simp add: alert_inv_def alerts_start_def in_flight_def workers_busy_def length_trim_alerts)

lemma alerts_reachable: "(alert_step ins ranges)\<^sup>*\<^sup>* (alerts_start rows) s \<Longrightarrow> alert_inv s"
  by (induction rule: rtranclp_induct) (auto intro: alert_inv_start alert_inv_step)

text \<open>
  No alert is stuck: whatever stage it is in, a step of its goroutine is possible that brings
  it closer to its clearing.
\<close>

definition stage_rank :: "alert_stage \<Rightarrow> nat" where
  "stage_rank st = (case st of Marked \<Rightarrow> 5 | Sending \<Rightarrow> 3 | Recording \<Rightarrow> 2 | Dropping \<Rightarrow> 1 | Clearing \<Rightarrow> 1)"

definition remaining :: "alert_system \<Rightarrow> nat" where
  "remaining s = (\<Sum>(st, a)\<in>#as_busy s. stage_rank st) + 4 * length (as_queue s)"

lemma busy_steps:
  assumes "(st, a) \<in># as_busy s"
  shows "\<exists>t. alert_step ins ranges s t \<and> remaining t < remaining s"
proof -
  obtain B where B: "as_busy s = add_mset (st, a) B" using assms by (blast dest: multi_member_split)
  note work = remaining_def stage_rank_def to_stage_def B
  show ?thesis
  proof (cases st)
    case Marked
    show ?thesis
    proof (cases "length (as_queue s) < alertQueueSize")
      case True
      show ?thesis by (rule exI, rule conjI, rule alert_step.enqueue [of a]) (use assms True Marked in \<open>simp_all add: work\<close>)
    next
      case False
      show ?thesis by (rule exI, rule conjI, rule alert_step.full [of a]) (use assms False Marked in \<open>simp_all add: work\<close>)
    qed
  next
    case Sending
    show ?thesis by (rule exI, rule conjI, rule alert_step.send_failed [of a]) (use assms Sending in \<open>simp_all add: work\<close>)
  next
    case Recording
    show ?thesis by (rule exI, rule conjI, rule alert_step.record_failed [of a]) (use assms Recording in \<open>simp_all add: work\<close>)
  next
    case Dropping
    show ?thesis by (rule exI, rule conjI, rule alert_step.clear [of st a]) (use assms Dropping in \<open>simp_all add: work\<close>)
  next
    case Clearing
    show ?thesis by (rule exI, rule conjI, rule alert_step.clear [of st a]) (use assms Clearing in \<open>simp_all add: work\<close>)
  qed
qed

lemma alerts_progress:
  assumes "alert_inv s" "as_pending s \<noteq> {}"
  shows "\<exists>t. alert_step ins ranges s t \<and> remaining t < remaining s"
proof (cases "as_busy s = {#}")
  case False
  then show ?thesis using busy_steps by (metis multiset_nonemptyE surj_pair)
next
  case True
  then have "as_queue s \<noteq> []"
    using alert_invD(1,2) [OF assms(1)] assms(2) by (auto simp: in_flight_def mset_set_empty_iff)
  then obtain a q where "as_queue s = a # q" by (cases "as_queue s") auto
  moreover have "workers_busy s < alertWorkerCount"
    by (simp add: workers_busy_def True alertWorkerCount_def)
  moreover have "remaining (s\<lparr>as_queue := q, as_busy := add_mset (Sending, a) (as_busy s)\<rparr>) < remaining s" if "as_queue s = a # q" for a q
    by (simp add: remaining_def stage_rank_def that)
  ultimately show ?thesis by (blast intro: alert_step.take)
qed

text \<open>
  C27: alerts are neither sent twice at once nor lost to the pending set. However connections
  and workers interleave, at most one alert of a range and an address is between its marking
  and its clearing; a key is pending exactly while such an alert is on its way, so a failed
  or refused alert never suppresses later ones; whenever a key is pending, a step that
  leaves less work until the clearing is possible; and the queue, the busy workers and the recorded alerts keep their
  limits.
\<close>

theorem alerts_one_in_flight:
  assumes "(alert_step ins ranges)\<^sup>*\<^sup>* (alerts_start rows) s"
  shows "(\<forall>k. count (image_mset alert_key (in_flight s)) k \<le> 1) \<and>
    (\<forall>k. k \<in> as_pending s \<longleftrightarrow> (\<exists>a. a \<in># in_flight s \<and> alert_key a = k)) \<and>
    (as_pending s \<noteq> {} \<longrightarrow> (\<exists>t. alert_step ins ranges s t \<and> remaining t < remaining s)) \<and>
    length (as_queue s) \<le> alertQueueSize \<and> workers_busy s \<le> alertWorkerCount \<and>
    length (as_recorded s) \<le> maxBlockedRangeAlerts"
proof -
  note inv = alert_invD [OF alerts_reachable [OF assms]]
  have "count (image_mset alert_key (in_flight s)) k \<le> 1" for k
    using inv(1) by (simp add: inv(2) count_mset_set')
  moreover have "k \<in> as_pending s \<longleftrightarrow> (\<exists>a. a \<in># in_flight s \<and> alert_key a = k)" for k
  proof -
    have "k \<in> as_pending s \<longleftrightarrow> k \<in># image_mset alert_key (in_flight s)" using inv(1) by (simp add: inv(2))
    then show ?thesis by auto
  qed
  ultimately show ?thesis
    using inv(3-5) alerts_progress [OF alerts_reachable [OF assms]] by blast
qed

text \<open>
  An insertion that keeps the pairs distinct, as the library's unique key does.
\<close>

definition insert_pair :: insert_row where
  "insert_pair rows p = (if p \<in> set rows then rows else rows @ [p])"

text \<open>
  The check of the recorded alerts and the marking are two steps. A goroutine that checked
  before an alert was recorded and marks after it was cleared sends the same alert again.
\<close>

definition demo_range :: blocked_range where
  "demo_range = \<lparr>range_name = ''lab'', range_nets = [Prefix4 0x0A000000 8]\<rparr>"

definition demo_meta :: tls_metadata where
  "demo_meta = hello_metadata small_ch"

definition demo_alert :: alert where
  "demo_alert = \<lparr>al_range = ''lab'', al_ip = ''10.1.2.3'',
     al_message = blockedRangeMessage ''lab'' ''10.1.2.3'' 443 ''fp'' demo_meta\<rparr>"

definition alert_demo :: "alert multiset \<Rightarrow> (alert_stage \<times> alert) multiset \<Rightarrow> alert list \<Rightarrow> string set \<Rightarrow>
    (string \<times> string) list \<Rightarrow> alert list \<Rightarrow> alert_system" where
  "alert_demo c b q p r d =
     \<lparr>as_checked = c, as_busy = b, as_queue = q, as_pending = p, as_recorded = r, as_delivered = d\<rparr>"

lemma demo_key: "alert_key demo_alert = pending_key ''lab'' ''10.1.2.3''"
  by (simp add: alert_key_def demo_alert_def)

lemma demo_in_range: "ParseAddr ''10.1.2.3'' = Some (Addr4 0x0A010203) \<and> range_contains demo_range (Addr4 0x0A010203)"
  by (simp add: addr_parse_simps range_contains_def any_contains_def demo_range_def)

lemma demo_round:
  assumes "alert_key demo_alert \<notin> p"
  shows "(alert_step ins rs)\<^sup>*\<^sup>* (alert_demo (add_mset demo_alert c) {#} [] p r d)
    (alert_demo c {#} [] p (record_alert ins r demo_alert) (d @ [demo_alert]))"
proof -
  let ?k = "alert_key demo_alert" let ?D = alert_demo
  have 1: "alert_step ins rs (?D (add_mset demo_alert c) {#} [] p r d) (?D c {#(Marked, demo_alert)#} [] (insert ?k p) r d)"
    using alert_step.mark [of demo_alert "?D (add_mset demo_alert c) {#} [] p r d"] assms by (simp add: alert_demo_def)
  have 2: "alert_step ins rs (?D c {#(Marked, demo_alert)#} [] (insert ?k p) r d) (?D c {#} [demo_alert] (insert ?k p) r d)"
    using alert_step.enqueue [of demo_alert "?D c {#(Marked, demo_alert)#} [] (insert ?k p) r d"]
    by (simp add: alert_demo_def alertQueueSize_def)
  have 3: "alert_step ins rs (?D c {#} [demo_alert] (insert ?k p) r d) (?D c {#(Sending, demo_alert)#} [] (insert ?k p) r d)"
    using alert_step.take [of "?D c {#} [demo_alert] (insert ?k p) r d" demo_alert "[]"]
    by (simp add: alert_demo_def workers_busy_def alertWorkerCount_def)
  have 4: "alert_step ins rs (?D c {#(Sending, demo_alert)#} [] (insert ?k p) r d)
      (?D c {#(Recording, demo_alert)#} [] (insert ?k p) r (d @ [demo_alert]))"
    using alert_step.sent [of demo_alert "?D c {#(Sending, demo_alert)#} [] (insert ?k p) r d"]
    by (simp add: alert_demo_def to_stage_def)
  have 5: "alert_step ins rs (?D c {#(Recording, demo_alert)#} [] (insert ?k p) r (d @ [demo_alert]))
      (?D c {#(Clearing, demo_alert)#} [] (insert ?k p) (record_alert ins r demo_alert) (d @ [demo_alert]))"
    using alert_step.recorded [of demo_alert "?D c {#(Recording, demo_alert)#} [] (insert ?k p) r (d @ [demo_alert])"]
    by (simp add: alert_demo_def to_stage_def)
  have 6: "alert_step ins rs (?D c {#(Clearing, demo_alert)#} [] (insert ?k p) (record_alert ins r demo_alert) (d @ [demo_alert]))
      (?D c {#} [] p (record_alert ins r demo_alert) (d @ [demo_alert]))"
    using alert_step.clear [of Clearing demo_alert "?D c {#(Clearing, demo_alert)#} [] (insert ?k p) (record_alert ins r demo_alert) (d @ [demo_alert])"] assms
    by (simp add: alert_demo_def)
  from 1 2 3 4 5 6 show ?thesis by (blast intro: converse_rtranclp_into_rtranclp r_into_rtranclp)
qed

lemma demo_check:
  "alert_step insert_pair [demo_range] (alert_demo c {#} [] {} [] d) (alert_demo (add_mset demo_alert c) {#} [] {} [] d)"
  using alert_step.check [of "''10.1.2.3''" "Addr4 0x0A010203" demo_range "[demo_range]" "alert_demo c {#} [] {} [] d" demo_alert 443 "''fp''" demo_meta]
    demo_in_range by (simp add: alert_demo_def demo_alert_def demo_range_def)

lemma alerts_start_demo: "alerts_start [] = alert_demo {#} {#} [] {} [] []"
  by (simp add: alerts_start_def alert_demo_def trim_alerts_def)

lemma alert_delivered_twice:
  "\<exists>s. (alert_step insert_pair [demo_range])\<^sup>*\<^sup>* (alerts_start []) s \<and> as_delivered s = [demo_alert, demo_alert] \<and>
     as_recorded s = [(''lab'', ''10.1.2.3'')]"
proof -
  have two: "(alert_step insert_pair [demo_range])\<^sup>*\<^sup>* (alerts_start []) (alert_demo {#demo_alert, demo_alert#} {#} [] {} [] [])"
    unfolding alerts_start_demo using demo_check by (blast intro: converse_rtranclp_into_rtranclp r_into_rtranclp)
  have rec: "record_alert insert_pair [] demo_alert = [(''lab'', ''10.1.2.3'')]"
    "record_alert insert_pair [(''lab'', ''10.1.2.3'')] demo_alert = [(''lab'', ''10.1.2.3'')]"
    by (simp_all add: record_alert_def insert_pair_def demo_alert_def trim_alerts_def maxBlockedRangeAlerts_def)
  from demo_round [of "{}" insert_pair "[demo_range]" "{#demo_alert#}" "[]" "[]"] demo_round [of "{}" insert_pair "[demo_range]" "{#}" "record_alert insert_pair [] demo_alert" "[demo_alert]"]
  have "(alert_step insert_pair [demo_range])\<^sup>*\<^sup>* (alert_demo {#demo_alert, demo_alert#} {#} [] {} [] [])
      (alert_demo {#} {#} [] {} [(''lab'', ''10.1.2.3'')] [demo_alert, demo_alert])"
    by (simp add: rec)
  from rtranclp_trans [OF two this] show ?thesis by (intro exI conjI) (assumption, simp_all add: alert_demo_def)
qed

lemma alerts_one_in_flight_witness:
  "\<exists>s. (alert_step insert_pair [demo_range])\<^sup>*\<^sup>* (alerts_start []) s \<and> as_delivered s = [demo_alert, demo_alert] \<and>
     workers_busy s \<le> alertWorkerCount"
proof -
  obtain s where s: "(alert_step insert_pair [demo_range])\<^sup>*\<^sup>* (alerts_start []) s" "as_delivered s = [demo_alert, demo_alert]"
    using alert_delivered_twice by blast
  from alerts_one_in_flight [OF s(1)] s show ?thesis by blast
qed

section \<open>Accepted configurations\<close>

text \<open>
  What the check of a notification URL comes to, as a predicate in which the order of the query's
  keys plays no part: the three ways to cleartext that the check knows are absent.
\<close>

definition encryption_options :: "(string \<times> string list) list \<Rightarrow> (string \<times> string list) list" where
  "encryption_options q = filter (\<lambda>(key, _). EqualFold key ''encryption'') q"

definition passes_url_check :: "parsed_url \<Rightarrow> bool" where
  "passes_url_check u \<longleftrightarrow>
     ToLower (Scheme u) \<noteq> ''http'' \<and> \<not> has_suffix (ToLower (Scheme u)) ''+http'' \<and>
     (case url_query u of None \<Rightarrow> False | Some q \<Rightarrow>
        (ToLower (Scheme u) = ''smtp'' \<longrightarrow>
           (\<exists>key v. encryption_options q = [(key, [v])] \<and> EqualFold v ''ImplicitTLS'')) \<and>
        \<not> (\<exists>key vals v. (key, vals) \<in> set q \<and> ToLower key = ''disabletls'' \<and> v \<in> set vals \<and> ToLower v \<in> set disabling_words))"

lemma EqualFold_not_Nil: "EqualFold v ''ImplicitTLS'' \<Longrightarrow> v \<noteq> []"
proof
  assume "EqualFold v ''ImplicitTLS''" "v = []"
  then have "runes ''ImplicitTLS'' = []" by (simp add: EqualFold_def runes_def codes_def)
  moreover have "is_ascii ''ImplicitTLS''" by (simp add: is_ascii_def)
  ultimately show False by (simp add: runes_ascii codes_def)
qed

lemma smtp_encryption_found:
  "e \<noteq> [] \<Longrightarrow> smtp_encryption q e = Inr e' \<longleftrightarrow> e' = e \<and> encryption_options q = []"
  by (induction q) (auto simp: encryption_options_def)

lemma smtp_encryption_accepts:
  "smtp_encryption q [] = Inr e \<and> e \<noteq> [] \<longleftrightarrow> (\<exists>key. encryption_options q = [(key, [e])] \<and> EqualFold e ''ImplicitTLS'')"
proof (induction q)
  case (Cons kv q)
  obtain key vals where kv: "kv = (key, vals)" by (cases kv)
  show ?case
  proof (cases "EqualFold key ''encryption''")
    case True
    show ?thesis
    proof (cases "length vals = 1 \<and> EqualFold (hd vals) ''ImplicitTLS''")
      case ok: True
      then obtain v where v: "vals = [v]" "v \<noteq> []" by (cases vals) (auto dest: EqualFold_not_Nil)
      then show ?thesis using True ok smtp_encryption_found [of v q e] by (auto simp: kv encryption_options_def)
    next
      case False
      then show ?thesis using True by (cases vals) (auto simp: kv encryption_options_def)
    qed
  qed (use Cons in \<open>simp add: kv encryption_options_def\<close>)
qed (simp add: encryption_options_def)

lemma requireSecure_iff:
  "requireSecureNotificationURL parse_url rawURL = Inr () \<longleftrightarrow> (\<exists>u. parse_url rawURL = Some u \<and> passes_url_check u)"
proof (cases "parse_url rawURL")
  case (Some u)
  show ?thesis
  proof (cases "ToLower (Scheme u) = ''http'' \<or> has_suffix (ToLower (Scheme u)) ''+http'' \<or> url_query u = None")
    case True
    then show ?thesis using Some by (auto simp: requireSecureNotificationURL_def passes_url_check_def Let_def)
  next
    case False
    then obtain q where q: "url_query u = Some q" by auto
    have dis: "(\<exists>key vals v. (key, vals) \<in> set q \<and> ToLower key = ''disabletls'' \<and> v \<in> set vals \<and> ToLower v \<in> set disabling_words)
        \<longleftrightarrow> sets_disabletls q"
      by (fastforce simp: list_ex_iff sets_disabletls_def)
    have smtp: "(\<exists>e. smtp_encryption q [] = Inr e \<and> e \<noteq> []) \<longleftrightarrow>
        (\<exists>key v. encryption_options q = [(key, [v])] \<and> EqualFold v ''ImplicitTLS'')"
      using smtp_encryption_accepts by blast
    have secure: "passes_url_check u \<longleftrightarrow>
        (ToLower (Scheme u) = ''smtp'' \<longrightarrow> (\<exists>e. smtp_encryption q [] = Inr e \<and> e \<noteq> [])) \<and> \<not> sets_disabletls q"
      using False unfolding passes_url_check_def q option.case dis smtp by blast
    show ?thesis
      using Some False
      by (cases "smtp_encryption q []") (auto simp: requireSecureNotificationURL_def q secure Let_def)
  qed
qed (simp add: requireSecureNotificationURL_def)

lemma check_urls_iff:
  "check_urls parse_url us = Inr () \<longleftrightarrow> (\<forall>u \<in> set us. \<exists>p. parse_url u = Some p \<and> passes_url_check p)"
  by (induction us) (auto simp: res_simps requireSecure_iff)

text \<open>The same URL, with the keys of its query in another order.\<close>

definition same_url :: "parsed_url option \<Rightarrow> parsed_url option \<Rightarrow> bool" where
  "same_url a b \<longleftrightarrow>
     (case (a, b) of
        (None, None) \<Rightarrow> True
      | (Some u, Some v) \<Rightarrow> Scheme u = Scheme v \<and> url_Host u = url_Host v \<and>
          (case (url_query u, url_query v) of
             (None, None) \<Rightarrow> True
           | (Some q, Some r) \<Rightarrow> mset q = mset r
           | _ \<Rightarrow> False)
      | _ \<Rightarrow> False)"

lemma mset_singleton: "mset xs = mset ys \<Longrightarrow> xs = [x] \<longleftrightarrow> ys = [x]"
  by (metis mset_single_iff_right mset.simps)

lemma passes_same:
  assumes "same_url (Some u) (Some v)"
  shows "passes_url_check u \<longleftrightarrow> passes_url_check v"
proof -
  have eq: "Scheme u = Scheme v" using assms by (simp add: same_url_def)
  consider "url_query u = None" "url_query v = None" | q r where "url_query u = Some q" "url_query v = Some r" "mset q = mset r"
    using assms by (auto simp: same_url_def split: option.splits)
  then show ?thesis
  proof cases
    case 1
    then show ?thesis by (simp add: passes_url_check_def)
  next
    case (2 q r)
    have opts: "encryption_options q = [x] \<longleftrightarrow> encryption_options r = [x]" for x
      by (rule mset_singleton) (simp add: encryption_options_def 2(3))
    show ?thesis unfolding passes_url_check_def eq 2(1,2) option.case opts mset_eq_setD [OF 2(3)] by (rule refl)
  qed
qed

lemma same_url_cases:
  assumes "same_url a b"
  shows "(\<exists>p. a = Some p \<and> passes_url_check p) \<longleftrightarrow> (\<exists>p. b = Some p \<and> passes_url_check p)"
  using assms passes_same by (cases a; cases b) (auto simp: same_url_def)

text \<open>
  C28: exactly which configurations \<open>loadConfig\<close> accepts, and what it makes of them. The cap on
  fingerprints is at least -1 (unlimited), the connection limits are not negative, the mode is absent or
  one of the two, and every notification URL parses, its scheme is neither \<open>http\<close> nor ends in \<open>+http\<close>, no
  \<open>disabletls\<close> option has a value that the check takes for true, and an \<open>smtp\<close> URL has exactly
  one \<open>encryption\<close> option, with the single value ImplicitTLS. Then a limit that is zero becomes its
  default and an absent mode becomes \<open>failover\<close>, so that no accepted limit is zero; nothing
  else changes. None of this depends on the order in which Go visits the keys of a query.
\<close>

theorem config_effective:
  shows "(check_config parse_url cfg = Inr c \<longleftrightarrow>
      -1 \<le> ac_MaxFingerprints cfg \<and> 0 \<le> ac_MaxConnections cfg \<and> 0 \<le> ac_ConnectionRate cfg \<and> 0 \<le> ac_ConnectionBurst cfg \<and>
      ac_NotificationMode cfg \<in> {[], ''failover'', ''broadcast''} \<and>
      (\<forall>u \<in> set (ac_NotificationURLs cfg). \<exists>p. parse_url u = Some p \<and> passes_url_check p) \<and>
      c = cfg\<lparr>ac_MaxFingerprints := (if ac_MaxFingerprints cfg = 0 then 100000 else ac_MaxFingerprints cfg),
              ac_MaxConnections := (if ac_MaxConnections cfg = 0 then 1024 else ac_MaxConnections cfg),
              ac_ConnectionRate := (if ac_ConnectionRate cfg = 0 then 1 else ac_ConnectionRate cfg),
              ac_ConnectionBurst := (if ac_ConnectionBurst cfg = 0 then 120 else ac_ConnectionBurst cfg),
              ac_NotificationMode := (if ac_NotificationMode cfg = [] then ''failover'' else ac_NotificationMode cfg)\<rparr>) \<and>
    (\<forall>parse_url'. (\<forall>u. same_url (parse_url u) (parse_url' u)) \<longrightarrow>
      (check_config parse_url' cfg = Inr c \<longleftrightarrow> check_config parse_url cfg = Inr c))"
proof -
  have iff: "check_config pu cfg = Inr c \<longleftrightarrow>
      -1 \<le> ac_MaxFingerprints cfg \<and> 0 \<le> ac_MaxConnections cfg \<and> 0 \<le> ac_ConnectionRate cfg \<and> 0 \<le> ac_ConnectionBurst cfg \<and>
      ac_NotificationMode cfg \<in> {[], ''failover'', ''broadcast''} \<and>
      (\<forall>u \<in> set (ac_NotificationURLs cfg). \<exists>p. pu u = Some p \<and> passes_url_check p) \<and>
      c = cfg\<lparr>ac_MaxFingerprints := (if ac_MaxFingerprints cfg = 0 then 100000 else ac_MaxFingerprints cfg),
              ac_MaxConnections := (if ac_MaxConnections cfg = 0 then 1024 else ac_MaxConnections cfg),
              ac_ConnectionRate := (if ac_ConnectionRate cfg = 0 then 1 else ac_ConnectionRate cfg),
              ac_ConnectionBurst := (if ac_ConnectionBurst cfg = 0 then 120 else ac_ConnectionBurst cfg),
              ac_NotificationMode := (if ac_NotificationMode cfg = [] then ''failover'' else ac_NotificationMode cfg)\<rparr>" for pu
  proof (cases "check_urls pu (ac_NotificationURLs cfg)")
    case (Inl e)
    then have "\<not> (\<forall>u \<in> set (ac_NotificationURLs cfg). \<exists>p. pu u = Some p \<and> passes_url_check p)"
      using check_urls_iff [of pu "ac_NotificationURLs cfg"] by simp
    moreover have "check_config pu cfg \<noteq> Inr c" using Inl by (simp add: check_config_def Let_def)
    ultimately show ?thesis by blast
  next
    case (Inr x)
    then have "\<forall>u \<in> set (ac_NotificationURLs cfg). \<exists>p. pu u = Some p \<and> passes_url_check p"
      using check_urls_iff [of pu "ac_NotificationURLs cfg"] by simp
    then show ?thesis
      using Inr
      by (auto simp: check_config_def Let_def or_default_def defaultMaxFingerprints_def defaultMaxConnections_def
          defaultConnectionRate_def defaultConnectionBurst_def not_less)
  qed
  have "check_config parse_url' cfg = Inr c \<longleftrightarrow> check_config parse_url cfg = Inr c"
    if "\<forall>u. same_url (parse_url u) (parse_url' u)" for parse_url'
    unfolding iff using same_url_cases [OF that [rule_format]] by simp
  with iff show ?thesis by blast
qed

text \<open>
  The documentation says that no accepted URL delivers over cleartext. The check knows the ways
  above; an option of a service that selects the transport in another way passes.
\<close>

lemma other_cleartext_passes:
  assumes "parse_url raw = Some \<lparr>Scheme = ''ntfy'', url_Host = ''h'', url_query = Some [(''scheme'', [''http''])]\<rparr>"
  shows "requireSecureNotificationURL parse_url raw = Inr ()"
proof -
  have ascii: "is_ascii ''ntfy''" "is_ascii ''scheme''" by (simp_all add: is_ascii_def)
  have texts: "string_of_runes [110, 116, 102, 121] = ''ntfy''" "string_of_runes [115, 99, 104, 101, 109, 101] = ''scheme''"
    by (subst string_of_runes_ascii; simp; code_simp)+
  have "ToLower ''ntfy'' = ''ntfy''" "ToLower ''scheme'' = ''scheme''"
    by (simp_all add: ToLower_def map_runes_def runes_ascii ascii codes_def List.map_filter_def lower_rune_def texts)
  then have "passes_url_check \<lparr>Scheme = ''ntfy'', url_Host = ''h'', url_query = Some [(''scheme'', [''http''])]\<rparr>"
    by (simp add: passes_url_check_def has_suffix_def)
  then show ?thesis using assms requireSecure_iff by simp
qed

definition accept_url :: "string \<Rightarrow> parsed_url option" where
  "accept_url raw = (if raw = ''smtp'' then
     Some \<lparr>Scheme = ''smtp'', url_Host = ''mx'', url_query = Some [(''to'', [''x'']), (''Encryption'', [''implicittls''])]\<rparr> else None)"

lemma config_effective_witness:
  "\<exists>c. check_config accept_url
      \<lparr>ac_MaxFingerprints = 0, ac_MaxConnections = 0, ac_ConnectionRate = 0, ac_ConnectionBurst = 7,
       ac_NotificationMode = [], ac_NotificationURLs = [''smtp'']\<rparr> = Inr c \<and>
     ac_MaxConnections c = 1024 \<and> 0 < ac_ConnectionRate c"
proof -
  let ?cfg = "\<lparr>ac_MaxFingerprints = 0, ac_MaxConnections = 0, ac_ConnectionRate = 0, ac_ConnectionBurst = 7,
       ac_NotificationMode = [], ac_NotificationURLs = [''smtp'']\<rparr>"
  have runes: "is_ascii ''smtp''" "is_ascii ''to''" "is_ascii ''Encryption''" "is_ascii ''encryption''" "is_ascii ''implicittls''"
    "is_ascii ''ImplicitTLS''" by (simp_all add: is_ascii_def)
  have "string_of_runes [115, 109, 116, 112] = ''smtp''"
    by (subst string_of_runes_ascii) (simp, code_simp)
  then have low: "ToLower ''smtp'' = ''smtp''"
    by (simp add: ToLower_def map_runes_def runes_ascii runes codes_def List.map_filter_def lower_rune_def)
  have "string_of_runes [116, 111] = ''to''" by (subst string_of_runes_ascii) (simp, code_simp)
  then have low2: "ToLower ''to'' = ''to''"
    by (simp add: ToLower_def map_runes_def runes_ascii runes codes_def List.map_filter_def lower_rune_def)
  have "string_of_runes [101, 110, 99, 114, 121, 112, 116, 105, 111, 110] = ''encryption''" by (subst string_of_runes_ascii) (simp, code_simp)
  then have low3: "ToLower ''Encryption'' = ''encryption''"
    by (simp add: ToLower_def map_runes_def runes_ascii runes codes_def List.map_filter_def lower_rune_def)
  have fold: "\<not> EqualFold ''to'' ''encryption''" "EqualFold ''Encryption'' ''encryption''" "EqualFold ''implicittls'' ''ImplicitTLS''"
    by (simp_all add: EqualFold_def runes_ascii runes codes_def fold_rune_def)
  have "passes_url_check \<lparr>Scheme = ''smtp'', url_Host = ''mx'', url_query = Some [(''to'', [''x'']), (''Encryption'', [''implicittls''])]\<rparr>"
    by (simp add: passes_url_check_def low encryption_options_def fold has_suffix_def) (auto simp: low2 low3)
  then have ok: "check_urls accept_url [''smtp''] = Inr ()"
    by (intro check_urls_iff [THEN iffD2]) (simp add: accept_url_def)
  then have urls: "\<forall>u \<in> set (ac_NotificationURLs ?cfg). \<exists>p. accept_url u = Some p \<and> passes_url_check p"
    using check_urls_iff [of accept_url "[''smtp'']"] by simp
  obtain c where "c = ?cfg\<lparr>ac_MaxFingerprints := 100000, ac_MaxConnections := 1024, ac_ConnectionRate := 1, ac_NotificationMode := ''failover''\<rparr>"
    by blast
  then have "check_config accept_url ?cfg = Inr c"
    using urls by (intro config_effective [THEN conjunct1, THEN iffD2]) simp
  then show ?thesis using \<open>c = _\<close> by (intro exI [of _ c]) simp
qed

section \<open>Sending\<close>

text \<open>
  Failover stops at the first sender without an error and fails only when all fail; broadcast
  fails when any service fails.
\<close>

lemma failover_loop_result:
  "fst (failover_loop senders txt parts) = None \<longleftrightarrow> (\<exists>s \<in> set senders. shoutrrrErrors (s txt) = None)"
  by (induction senders arbitrary: parts) (auto simp: case_prod_beta split: option.splits)

lemma failover_loop_calls:
  "snd (failover_loop senders txt parts) =
     (if \<exists>s \<in> set senders. shoutrrrErrors (s txt) = None
      then Suc (length (takeWhile (\<lambda>s. shoutrrrErrors (s txt) \<noteq> None) senders)) else length senders)"
  by (induction senders arbitrary: parts) (auto simp: case_prod_beta split: option.splits)

lemma shoutrrrErrors_None: "shoutrrrErrors errs = None \<longleftrightarrow> set errs \<subseteq> {None}"
  by (auto simp: shoutrrrErrors_def Let_def filter_empty_conv)

lemma sender_delivery:
  "(fst (sendShoutrrrFailover senders txt) = None \<longleftrightarrow> (\<exists>s \<in> set senders. set (s txt) \<subseteq> {None})) \<and>
   (sendShoutrrrBroadcast s txt = None \<longleftrightarrow> set (s txt) \<subseteq> {None})"
  by (simp add: sendShoutrrrFailover_def sendShoutrrrBroadcast_def failover_loop_result shoutrrrErrors_None)

section \<open>The text of an alert\<close>

text \<open>
  A field of the client cannot leave its code span: the backticks of the message are exactly
  the two around each field.
\<close>

lemma encode_rune_backtick: "0x60 \<in> set (encode_rune r) \<Longrightarrow> r = 0x60"
  by (auto simp: encode_rune_def split: if_splits)

lemma sanitizeAlertField_no_backtick: "CHR 0x60 \<notin> set (sanitizeAlertField s)"
proof
  have bt: "(of_char (CHR 0x60) :: nat) = 0x60" by simp
  assume "CHR 0x60 \<in> set (sanitizeAlertField s)"
  then obtain r where r: "r \<in> set (filter (\<lambda>r. \<not> alert_unsafe r) (runes s))" "CHR 0x60 \<in> char_of ` set (encode_rune r)"
    by (auto simp: sanitizeAlertField_def map_runes_def string_of_runes_def string_of_codes_def map_filter_drop)
  then obtain b where b: "b \<in> set (encode_rune r)" "CHR 0x60 = char_of b" by auto
  then have "b = 0x60" using encode_rune_bytes [OF b(1)] bt by (metis of_char_of_nat)
  with b(1) have "r = 0x60" by (simp add: encode_rune_backtick)
  with r(1) show False by (simp add: alert_unsafe_def)
qed

lemma count_list_code_span:
  "CHR 0x60 \<notin> set name \<Longrightarrow> CHR 0x60 \<notin> set v \<Longrightarrow> count_list (code_span name v) (CHR 0x60) = 2"
  by (simp add: code_span_def count_list_0_iff)

lemma count_list_join_blank: "count_list (join '' '' xs) (CHR 0x60) = sum_list (map (\<lambda>x. count_list x (CHR 0x60)) xs)"
  by (induction "'' ''" xs rule: join.induct) auto

lemma alert_code_spans:
  assumes "CHR 0x60 \<notin> set rangeName" "CHR 0x60 \<notin> set ip" "CHR 0x60 \<notin> set fp"
  shows "count_list (blockedRangeMessage rangeName ip port fp meta) (CHR 0x60) =
    8 + (if SNI meta \<noteq> [] then 2 else 0) + (if JA3 meta \<noteq> [] then 2 else 0) + (if JA4 meta \<noteq> [] then 2 else 0)"
proof -
  have "CHR 0x60 \<notin> set (itoa_int port)"
    by (auto simp: itoa_int_def is_digit_def dest: set_itoa)
  then show ?thesis
    using assms by (simp add: blockedRangeMessage_def count_list_join_blank count_list_code_span sanitizeAlertField_no_backtick)
qed

end
