(* ===== verification/Cleanup.thy ===== *)
theory Cleanup
  imports Gate_Prelude
begin

text \<open>
  Errors that are wrapped and joined, and what \<open>cleanup.go\<close> makes of them when a resource is closed:
  a failure to close is labelled and joined onto the error of the function, so it never hides one
  and never gets lost. \<open>errors.Join\<close> and \<open>errors.As\<close> are those of Go's library. No error is
  \<open>None\<close>.
\<close>

section \<open>Errors\<close>

datatype 'e go_error = Plain 'e | Wrapped string "'e go_error" | Joined "'e go_error list"

definition errors_Join :: "'e go_error option list \<Rightarrow> 'e go_error option" where
  "errors_Join es = (case List.map_filter (\<lambda>e. e) es of [] \<Rightarrow> None | es \<Rightarrow> Some (Joined es))"

text \<open>Whether an error of the wanted kind is in the tree of what is wrapped and joined.\<close>

fun errors_As :: "('e \<Rightarrow> bool) \<Rightarrow> 'e go_error \<Rightarrow> bool" where
  "errors_As wanted (Plain e) = wanted e"
| "errors_As wanted (Wrapped label e) = errors_As wanted e"
| "errors_As wanted (Joined es) = list_ex (errors_As wanted) es"

section \<open>Closing\<close>

text \<open>\<open>closed\<close> is the error that the resource gives when it is closed.\<close>

definition closeError :: "string \<Rightarrow> 'e go_error option \<Rightarrow> 'e go_error option" where
  "closeError label closed = (case closed of None \<Rightarrow> None | Some e \<Rightarrow> Some (Wrapped label e))"

definition closeWithError :: "'e go_error option \<Rightarrow> string \<Rightarrow> 'e go_error option \<Rightarrow> 'e go_error option" where
  "closeWithError err label closed = errors_Join [err, closeError label closed]"

text \<open>A function succeeds exactly if its work and the closing do, and what failed can be found in the error.\<close>

lemma closeWithError_None [simp]: "closeWithError err label closed = None \<longleftrightarrow> err = None \<and> closed = None"
  by (simp add: closeWithError_def errors_Join_def closeError_def List.map_filter_simps split: option.split)

lemma closeWithError_As:
  "(case closeWithError err label closed of None \<Rightarrow> False | Some e \<Rightarrow> errors_As wanted e) \<longleftrightarrow>
   (\<exists>e. (err = Some e \<or> closed = Some e) \<and> errors_As wanted e)"
  by (cases err; cases closed) (auto simp: closeWithError_def errors_Join_def closeError_def List.map_filter_simps)

text \<open>
  The same for a function with a result, of which only the first error is kept: a failure to close
  fails a call that would have succeeded.
\<close>

definition closing :: "'e \<Rightarrow> bool \<Rightarrow> 'e + 'a \<Rightarrow> 'e + 'a" where
  "closing e closes x = (case x of Inl e' \<Rightarrow> Inl e' | Inr y \<Rightarrow> if closes then Inr y else Inl e)"

lemma closing_Inr [simp]: "closing e closes x = Inr y \<longleftrightarrow> x = Inr y \<and> closes"
  by (auto simp: closing_def split: sum.split)

lemma closing_True [simp]: "closing e True x = x"
  by (simp add: closing_def split: sum.split)

lemma closing_closeWithError:
  "(\<exists>y. closing e (closed = None) x = Inr y) \<longleftrightarrow>
   closeWithError (case x of Inl e' \<Rightarrow> Some (Plain e') | Inr y \<Rightarrow> None) label closed = None"
  by (cases x) auto

end
