(* ===== verification/Proxy_Protocol.thy ===== *)
theory Proxy_Protocol
  imports Gate_Prelude
begin

text \<open>
  The PROXY protocol v2 header of \<open>proxy_protocol.go\<close>: \<open>proxyV2Header\<close> fills a zeroed buffer by
  offsets, as the source does. The specification is a receiver's decoder (the HAProxy
  document, binary format): what it reads back is the connection's two addresses and ports,
  and then the untouched stream.
\<close>

section \<open>Addresses\<close>

text \<open>
  \<open>net.IP\<close> is a byte slice of 4 or 16 bytes (or empty); \<open>net.TCPAddr\<close> is the only address type
  the code accepts. A port is an \<open>int\<close> that \<open>uint16(...)\<close> truncates.
\<close>

type_synonym ip = "u8 list"

datatype net_addr = TCPAddr ip int | OtherAddr

definition v4InV6Prefix :: "u8 list" where
  "v4InV6Prefix = [0, 0, 0, 0, 0, 0, 0, 0, 0, 0, 0xff, 0xff]"

definition To4 :: "ip \<Rightarrow> ip option" where
  "To4 a = (if length a = 4 then Some a
     else if length a = 16 \<and> take 12 a = v4InV6Prefix then Some (drop 12 a)
     else None)"

definition To16 :: "ip \<Rightarrow> ip option" where
  "To16 a = (if length a = 4 then Some (v4InV6Prefix @ a)
     else if length a = 16 then Some a
     else None)"

section \<open>The header\<close>

definition proxyV2Signature :: "u8 list" where
  "proxyV2Signature = [0x0d, 0x0a, 0x0d, 0x0a, 0x00, 0x0d, 0x0a, 0x51, 0x55, 0x49, 0x54, 0x0a]"

datatype proxy_error = SourceNotTCP | DestinationNotTCP | FamiliesDiffer

text \<open>\<open>copy(buf[lo:hi], src)\<close>, which copies at most \<open>hi - lo\<close> bytes.\<close>

definition copy_to :: "nat \<Rightarrow> nat \<Rightarrow> u8 list \<Rightarrow> u8 list \<Rightarrow> u8 list" where
  "copy_to lo hi src buf = (let s = take (hi - lo) src in take lo buf @ s @ drop (lo + length s) buf)"

definition put_uint16 :: "nat \<Rightarrow> u16 \<Rightarrow> u8 list \<Rightarrow> u8 list" where
  "put_uint16 lo v buf = copy_to lo (lo + 2) (put16 v) buf"

definition proxyV2Header :: "net_addr \<Rightarrow> net_addr \<Rightarrow> proxy_error + u8 list" where
  "proxyV2Header source destination =
     (case source of OtherAddr \<Rightarrow> Inl SourceNotTCP
      | TCPAddr srcIP srcPort \<Rightarrow>
     (case destination of OtherAddr \<Rightarrow> Inl DestinationNotTCP
      | TCPAddr dstIP dstPort \<Rightarrow>
     (case (To4 srcIP, To4 dstIP) of
        (Some src4, Some dst4) \<Rightarrow>
          (let header = replicate 28 0;
               header = copy_to 0 12 proxyV2Signature header;
               header = header[12 := 0x21];
               header = header[13 := 0x11];
               header = put_uint16 14 12 header;
               header = copy_to 16 20 src4 header;
               header = copy_to 20 24 dst4 header;
               header = put_uint16 24 (word_of_int srcPort) header
           in Inr (put_uint16 26 (word_of_int dstPort) header))
      | (src4, dst4) \<Rightarrow>
     (case (To16 srcIP, To16 dstIP) of
        (Some src6, Some dst6) \<Rightarrow>
          (if src4 \<noteq> None \<or> dst4 \<noteq> None then Inl FamiliesDiffer
           else
            (let header = replicate 52 0;
                 header = copy_to 0 12 proxyV2Signature header;
                 header = header[12 := 0x21];
                 header = header[13 := 0x21];
                 header = put_uint16 14 36 header;
                 header = copy_to 16 32 src6 header;
                 header = copy_to 32 48 dst6 header;
                 header = put_uint16 48 (word_of_int srcPort) header
             in Inr (put_uint16 50 (word_of_int dstPort) header)))
      | _ \<Rightarrow> Inl FamiliesDiffer))))"

section \<open>A receiver\<close>

type_synonym endpoint = "ip \<times> u16"

definition decode_v2 :: "u8 list \<Rightarrow> (endpoint \<times> endpoint \<times> u8 list) option" where
  "decode_v2 s =
     (if length s < 16 \<or> take 12 s \<noteq> proxyV2Signature \<or> s ! 12 \<noteq> 0x21 then None
      else
        (let n = be16n (s ! 14) (s ! 15); a = take n (drop 16 s); rest = drop (16 + n) s
         in if length s < 16 + n then None
            else if s ! 13 = 0x11 \<and> 12 \<le> n
            then Some ((take 4 a, be16 (a ! 8) (a ! 9)), (take 4 (drop 4 a), be16 (a ! 10) (a ! 11)), rest)
            else if s ! 13 = 0x21 \<and> 36 \<le> n
            then Some ((take 16 a, be16 (a ! 32) (a ! 33)), (take 16 (drop 16 a), be16 (a ! 34) (a ! 35)), rest)
            else None))"

text \<open>The address a receiver should see: an IPv4-mapped address is its IPv4 address.\<close>

definition canonical_ip :: "ip \<Rightarrow> ip" where
  "canonical_ip a = (case To4 a of Some b \<Rightarrow> b | None \<Rightarrow> a)"

text \<open>The address family of an address, 4 or 16 bytes; \<open>None\<close> for anything else.\<close>

definition family :: "ip \<Rightarrow> nat option" where
  "family a = (if To4 a \<noteq> None then Some 4 else if length a = 16 then Some 16 else None)"

lemma length_copy_to:
  "lo + length src \<le> length buf \<Longrightarrow> length (copy_to lo hi src buf) = length buf"
  by (simp add: copy_to_def Let_def)

lemma To4_length: "To4 a = Some b \<Longrightarrow> length b = 4"
  by (auto simp: To4_def split: if_splits)

text \<open>The bytes the offsets amount to.\<close>

definition v4_bytes :: "ip \<Rightarrow> u16 \<Rightarrow> ip \<Rightarrow> u16 \<Rightarrow> u8 list" where
  "v4_bytes s sp d dp = proxyV2Signature @ [0x21, 0x11, 0, 12] @ s @ d @ put16 sp @ put16 dp"

definition v6_bytes :: "ip \<Rightarrow> u16 \<Rightarrow> ip \<Rightarrow> u16 \<Rightarrow> u8 list" where
  "v6_bytes s sp d dp = proxyV2Signature @ [0x21, 0x21, 0, 36] @ s @ d @ put16 sp @ put16 dp"

text \<open>A buffer filled from the left: written bytes, then zeros.\<close>

lemma fill_first: "length src \<le> k \<Longrightarrow> copy_to 0 (length src) src (replicate k 0) = src @ replicate (k - length src) 0"
  by (simp add: copy_to_def Let_def)

lemma fill_copy:
  "length a = lo \<Longrightarrow> length src = hi - lo \<Longrightarrow>
   copy_to lo hi src (a @ replicate k 0) = (a @ src) @ replicate (k - (hi - lo)) 0"
  by (simp add: copy_to_def Let_def)

lemma fill_byte:
  "length a = i \<Longrightarrow> 0 < k \<Longrightarrow> (a @ replicate k 0)[i := v] = (a @ [v]) @ replicate (k - 1) 0"
  by (cases k) (simp_all add: list_update_append)

lemma fill_uint16:
  "length a = lo \<Longrightarrow> put_uint16 lo v (a @ replicate k 0) = (a @ put16 v) @ replicate (k - 2) 0"
  by (simp add: put_uint16_def fill_copy)

lemma put16_const: "put16 12 = [0, 12]" "put16 36 = [0, 36]"
  by (simp_all add: put16_def put16n_def)

lemma length_signature [simp]: "length proxyV2Signature = 12"
  by (simp add: proxyV2Signature_def)

lemma proxyV2Header_v4:
  assumes "To4 s = Some s4" "To4 d = Some d4"
  shows "proxyV2Header (TCPAddr s sp) (TCPAddr d dp) =
    Inr (v4_bytes s4 (word_of_int sp) d4 (word_of_int dp))"
proof -
  have len: "length s4 = 4" "length d4 = 4" using assms To4_length by blast+
  have sig: "copy_to 0 12 proxyV2Signature (replicate 28 0) = proxyV2Signature @ replicate 16 0"
    using fill_first [of proxyV2Signature 28] by simp
  show ?thesis
    using assms len
    by (simp add: proxyV2Header_def Let_def sig fill_copy fill_byte fill_uint16 del: append_assoc)
      (simp add: v4_bytes_def put16_const)
qed

lemma proxyV2Header_v6:
  assumes "To4 s = None" "To4 d = None" "length s = 16" "length d = 16"
  shows "proxyV2Header (TCPAddr s sp) (TCPAddr d dp) =
    Inr (v6_bytes s (word_of_int sp) d (word_of_int dp))"
proof -
  have sig: "copy_to 0 12 proxyV2Signature (replicate 52 0) = proxyV2Signature @ replicate 40 0"
    using fill_first [of proxyV2Signature 52] by simp
  show ?thesis
    using assms
    by (simp add: proxyV2Header_def Let_def sig To16_def fill_copy fill_byte fill_uint16 del: append_assoc)
      (simp add: v6_bytes_def put16_const)
qed

lemma put16_nth: "be16 (put16 v ! 0) (put16 v ! Suc 0) = v"
  by (simp add: put16_def put16n_def be16_put)

lemma decode_v4_bytes:
  assumes "length s = 4" "length d = 4"
  shows "decode_v2 (v4_bytes s sp d dp @ stream) = Some ((s, sp), (d, dp), stream)"
  using assms by (simp add: decode_v2_def v4_bytes_def nth_append put16_nth be16n_def Let_def)

lemma decode_v6_bytes:
  assumes "length s = 16" "length d = 16"
  shows "decode_v2 (v6_bytes s sp d dp @ stream) = Some ((s, sp), (d, dp), stream)"
  using assms by (simp add: decode_v2_def v6_bytes_def nth_append put16_nth be16n_def Let_def)

lemma family_cases:
  "family a = Some 4 \<longleftrightarrow> To4 a \<noteq> None"
  "family a = Some 16 \<longleftrightarrow> To4 a = None \<and> length a = 16"
  "family a = None \<longleftrightarrow> To4 a = None \<and> length a \<noteq> 16"
  by (auto simp: family_def)

lemma proxyV2Header_fails:
  assumes "family s \<noteq> family d \<or> family s = None"
  shows "proxyV2Header (TCPAddr s sp) (TCPAddr d dp) = Inl FamiliesDiffer"
  using assms
  by (cases "To4 s"; cases "To4 d")
    (auto simp: proxyV2Header_def family_def To16_def To4_def split: if_splits option.splits)

text \<open>
  C22: the backend learns the client. Whenever \<open>proxyV2Header\<close> produces a header, a PROXY v2
  receiver that reads the header followed by any stream gets exactly the source and the
  destination address (an IPv4-mapped address as its IPv4 address), both ports modulo
  \<open>2 ^ 16\<close>, and the stream itself, not one byte more or less.
\<close>

theorem proxyV2Header_decode:
  assumes "proxyV2Header (TCPAddr s sp) (TCPAddr d dp) = Inr h"
  shows "decode_v2 (h @ stream) =
    Some ((canonical_ip s, word_of_int sp), (canonical_ip d, word_of_int dp), stream)"
proof -
  have "family s = family d" "family s \<noteq> None"
    using assms proxyV2Header_fails [of s d sp dp] by fastforce+
  then consider (v4) s4 d4 where "To4 s = Some s4" "To4 d = Some d4"
    | (v6) "To4 s = None" "To4 d = None" "length s = 16" "length d = 16"
    by (auto simp: family_def split: if_splits)
  then show ?thesis
  proof cases
    case v4
    with assms show ?thesis
      by (auto simp: proxyV2Header_v4 decode_v4_bytes canonical_ip_def To4_length)
  next
    case v6
    with assms show ?thesis
      by (auto simp: proxyV2Header_v6 decode_v6_bytes canonical_ip_def)
  qed
qed

lemma proxyV2Header_decode_witness:
  "decode_v2 (v4_bytes [192, 0, 2, 10] 54321 [198, 51, 100, 20] 443 @ [0x16, 3]) =
     Some (([192, 0, 2, 10], 54321), ([198, 51, 100, 20], 443), [0x16, 3])"
proof -
  have "proxyV2Header (TCPAddr [192, 0, 2, 10] 54321) (TCPAddr (v4InV6Prefix @ [198, 51, 100, 20]) 443) =
      Inr (v4_bytes [192, 0, 2, 10] 54321 [198, 51, 100, 20] 443)"
    by (subst proxyV2Header_v4) (simp_all add: To4_def v4InV6Prefix_def)
  from proxyV2Header_decode [OF this, of "[0x16, 3]"] show ?thesis
    by (simp add: canonical_ip_def To4_def v4InV6Prefix_def)
qed

text \<open>
  The header is refused exactly when it cannot be right: when one of the addresses is
  not TCP, or when the two addresses are not of one family. A header that is produced has
  28 bytes for IPv4 and 52 for IPv6.
\<close>

theorem proxyV2Header_result:
  "case proxyV2Header source destination of
     Inr h \<Rightarrow> (\<exists>s sp d dp f. source = TCPAddr s sp \<and> destination = TCPAddr d dp \<and>
        family s = Some f \<and> family d = Some f \<and> length h = 20 + 2 * f)
   | Inl SourceNotTCP \<Rightarrow> source = OtherAddr
   | Inl DestinationNotTCP \<Rightarrow> source \<noteq> OtherAddr \<and> destination = OtherAddr
   | Inl FamiliesDiffer \<Rightarrow> (\<exists>s sp d dp. source = TCPAddr s sp \<and> destination = TCPAddr d dp \<and>
        \<not> (family s = family d \<and> family s \<noteq> None))"
proof (cases source; cases destination)
  fix s sp d dp
  assume a: "source = TCPAddr s sp" "destination = TCPAddr d dp"
  show ?thesis
  proof (cases "family s \<noteq> family d \<or> family s = None")
    case True
    then show ?thesis using a by (auto simp: proxyV2Header_fails)
  next
    case False
    then consider (v4) s4 d4 where "To4 s = Some s4" "To4 d = Some d4"
      | (v6) "To4 s = None" "To4 d = None" "length s = 16" "length d = 16"
      by (auto simp: family_def split: if_splits)
    then show ?thesis
      using a by cases
        (auto simp: proxyV2Header_v4 proxyV2Header_v6 v4_bytes_def v6_bytes_def family_def To4_length)
  qed
qed (auto simp: proxyV2Header_def)

end
