(* ===== verification/Smtp_Session.thy ===== *)
theory Smtp_Session
  imports Smtp_Observer Proxy_Protocol Net_Addr
begin

text \<open>
  One SMTP connection from accept to close (\<open>handleSMTPConn\<close>) and the event file's writer
  (\<open>smtpEventWriter\<close> with \<open>emit\<close>, \<open>Close\<close> and its goroutine), both of \<open>smtp_proxy.go\<close>. The clock,
  the random connection id, the limiter, the sockets' failures and the reads of the two pumps
  are inputs.
\<close>

section \<open>The handler\<close>

record smtp_inputs =
  si_id :: string
  si_client :: string
  si_listener :: string
  si_source :: net_addr
  si_local :: net_addr
  si_started :: time
  si_ended :: time
  si_dial_ok :: bool
  si_header_ok :: bool
  si_reads :: "observed_read list"

datatype smtp_end =
    SmtpRateLimited
  | SmtpDialFailed
  | SmtpHeaderFailed proxy_error
  | SmtpHeaderWriteFailed
  | SmtpRelayed "u8 list" smtp_observer

definition smtp_base :: "string \<Rightarrow> smtp_inputs \<Rightarrow> smtp_event" where
  "smtp_base backend i =
     \<lparr>ev_Version = 0, ev_Type = [], ev_Timestamp = si_started i, ev_Instance = [], ev_ConnectionID = si_id i,
      ev_Client = si_client i, ev_Listener = si_listener i, ev_Backend = backend, ev_JA3 = [], ev_JA4 = [],
      ev_Error = [], ev_State = [], ev_Behavior = None\<rparr>"

definition smtp_start :: "string \<Rightarrow> smtp_inputs \<Rightarrow> smtp_event" where
  "smtp_start backend i = (smtp_base backend i)\<lparr>ev_Type := ''start''\<rparr>"

text \<open>The end event before the connection's outcome is known; the deferred call sets its time.\<close>

definition smtp_stop :: "string \<Rightarrow> smtp_inputs \<Rightarrow> smtp_event" where
  "smtp_stop backend i =
     (smtp_base backend i)\<lparr>ev_Type := ''end'', ev_State := ''observer_incomplete'', ev_Timestamp := si_ended i\<rparr>"

definition smtp_client_ip :: "smtp_inputs \<Rightarrow> string" where
  "smtp_client_ip i = (case SplitHostPort (si_client i) of None \<Rightarrow> [] | Some (host, _) \<Rightarrow> host)"

text \<open>
  How the connection ended, the events passed to \<open>events.emit\<close> in order, the events only logged
  as blocked, and whether a backend failure was counted. The deferred end event is last.
\<close>

record smtp_outcome =
  so_end :: smtp_end
  so_events :: "smtp_event list"
  so_blocked :: "smtp_event list"
  so_backend_failed :: bool

definition handleSMTPConn ::
  "('l \<Rightarrow> string \<Rightarrow> bool \<times> 'l) option \<Rightarrow> string \<Rightarrow> fingerprint_method \<Rightarrow> bool \<Rightarrow> smtp_inputs \<Rightarrow> 'l \<Rightarrow> smtp_outcome \<times> 'l" where
  "handleSMTPConn limiter backend how sendProxyV2 i l =
     (let base = smtp_base backend i;
          (allowed, l) = (case limiter of None \<Rightarrow> (True, l) | Some f \<Rightarrow> f l (smtp_client_ip i));
          start = smtp_start backend i; stop = smtp_stop backend i
      in if \<not> allowed then
           (\<lparr>so_end = SmtpRateLimited, so_events = [],
             so_blocked = [base\<lparr>ev_Type := ''blocked'', ev_State := ''rate_limit''\<rparr>], so_backend_failed = False\<rparr>, l)
         else if \<not> si_dial_ok i then
           (\<lparr>so_end = SmtpDialFailed, so_events = [start, stop\<lparr>ev_Error := ''backend_connect_failed''\<rparr>],
             so_blocked = [], so_backend_failed = True\<rparr>, l)
         else (case (if sendProxyV2 then proxyV2Header (si_source i) (si_local i) else Inr []) of
             Inl e \<Rightarrow>
               (\<lparr>so_end = SmtpHeaderFailed e, so_events = [start, stop\<lparr>ev_Error := ''proxy_header_failed''\<rparr>],
                 so_blocked = [], so_backend_failed = False\<rparr>, l)
           | Inr h \<Rightarrow>
               (if sendProxyV2 \<and> \<not> si_header_ok i then
                  (\<lparr>so_end = SmtpHeaderWriteFailed, so_events = [start, stop\<lparr>ev_Error := ''proxy_header_write_failed''\<rparr>],
                    so_blocked = [], so_backend_failed = False\<rparr>, l)
                else
                  (let ob = observe_session how base (si_reads i) in
                   (\<lparr>so_end = SmtpRelayed h ob,
                     so_events = start # emitted ob @
                       [stop\<lparr>ev_State := observer_state ob, ev_Behavior := Some (behaviorSnapshot ob)\<rparr>],
                     so_blocked = [], so_backend_failed = False\<rparr>, l)))))"

section \<open>The writer\<close>

text \<open>
  The channel, the event the writer's goroutine has received and not yet dealt with, the counter of
  dropped events, the two flags, and the complete lines in the file (a failed write may leave a
  piece of one more behind them). The file's writes are inputs: whether marshalling and writing one
  line succeeded.
\<close>

record event_writer =
  wr_instance :: string
  wr_queue :: "smtp_event list"
  wr_taken :: "smtp_event option"
  wr_dropped :: u64
  wr_closed :: bool
  wr_failed :: bool
  wr_lines :: "smtp_event list"

definition smtpQueueSize :: nat where
  "smtpQueueSize = 1024"

text \<open>What \<open>emit\<close> sets in an event.\<close>

abbreviation stamp :: "string \<Rightarrow> smtp_event \<Rightarrow> smtp_event" where
  "stamp inst e \<equiv> e\<lparr>ev_Version := 1, ev_Instance := inst\<rparr>"

definition emit :: "event_writer \<Rightarrow> smtp_event \<Rightarrow> event_writer" where
  "emit w e =
     (let e = e\<lparr>ev_Version := 1, ev_Instance := wr_instance w\<rparr> in
      if wr_closed w then w
      else if length (wr_queue w) < smtpQueueSize then w\<lparr>wr_queue := wr_queue w @ [e]\<rparr>
      else w\<lparr>wr_dropped := wr_dropped w + 1\<rparr>)"

text \<open>The receive of the goroutine's \<open>range\<close>, and the body of its loop.\<close>

definition take_next :: "event_writer \<Rightarrow> event_writer" where
  "take_next w =
     (case (wr_taken w, wr_queue w) of
        (None, e # q) \<Rightarrow> w\<lparr>wr_queue := q, wr_taken := Some e\<rparr>
      | _ \<Rightarrow> w)"

definition write_taken :: "event_writer \<Rightarrow> bool \<Rightarrow> event_writer" where
  "write_taken w written =
     (case wr_taken w of
        None \<Rightarrow> w
      | Some e \<Rightarrow>
          (let w = w\<lparr>wr_taken := None\<rparr> in
           if wr_failed w then w\<lparr>wr_dropped := wr_dropped w + 1\<rparr>
           else if written then w\<lparr>wr_lines := wr_lines w @ [e]\<rparr>
           else w\<lparr>wr_failed := True, wr_dropped := wr_dropped w + 1\<rparr>))"

definition close_writer :: "event_writer \<Rightarrow> event_writer" where
  "close_writer w = w\<lparr>wr_closed := True\<rparr>"

definition new_writer :: "string \<Rightarrow> event_writer" where
  "new_writer inst =
     \<lparr>wr_instance = inst, wr_queue = [], wr_taken = None, wr_dropped = 0, wr_closed = False, wr_failed = False, wr_lines = []\<rparr>"

text \<open>The handlers, the writer's goroutine and \<open>Close\<close> interleave.\<close>

datatype writer_op = Emit smtp_event | Take | Write bool | CloseWriter

fun writer_step :: "event_writer \<Rightarrow> writer_op \<Rightarrow> event_writer" where
  "writer_step w (Emit e) = emit w e"
| "writer_step w Take = take_next w"
| "writer_step w (Write ok) = write_taken w ok"
| "writer_step w CloseWriter = close_writer w"

text \<open>What was emitted before the writer was closed, as it stamps it.\<close>

fun offered :: "string \<Rightarrow> writer_op list \<Rightarrow> smtp_event list" where
  "offered inst [] = []"
| "offered inst (Emit e # ops) = stamp inst e # offered inst ops"
| "offered inst (CloseWriter # ops) = []"
| "offered inst (_ # ops) = offered inst ops"

section \<open>The writer loses nothing silently\<close>

text \<open>What the writer has of the events, in their order.\<close>

definition kept_events :: "event_writer \<Rightarrow> smtp_event list" where
  "kept_events w = wr_lines w @ (case wr_taken w of None \<Rightarrow> [] | Some e \<Rightarrow> [e]) @ wr_queue w"

definition accounted :: "event_writer \<Rightarrow> smtp_event list \<Rightarrow> bool" where
  "accounted w es \<longleftrightarrow>
     of_nat (length (kept_events w)) + wr_dropped w = of_nat (length es) \<and>
     subseq (kept_events w) es \<and> length (wr_queue w) \<le> smtpQueueSize"

lemma accounted_emit:
  assumes "accounted w es" "\<not> wr_closed w"
  shows "accounted (emit w e) (es @ [stamp (wr_instance w) e])"
proof (cases "length (wr_queue w) < smtpQueueSize")
  case True
  let ?x = "stamp (wr_instance w) e"
  have kept: "kept_events (emit w e) = kept_events w @ [?x]"
    using True assms(2) by (simp add: kept_events_def emit_def)
  have "subseq (kept_events w @ [?x]) (es @ [?x])"
    using assms(1) unfolding accounted_def by (intro list_emb_append_mono) auto
  then show ?thesis
    using True assms unfolding accounted_def kept by (simp add: emit_def algebra_simps)
next
  case False
  have "kept_events (emit w e) = kept_events w" using False assms(2) by (simp add: kept_events_def emit_def)
  moreover have "subseq (kept_events w) (es @ [x])" for x
    using assms(1) unfolding accounted_def by (meson list_emb_append2 subseq_order.order_trans subseq_rev_drop_many subseq_order.refl)
  ultimately show ?thesis using False assms by (simp add: accounted_def emit_def algebra_simps)
qed

lemma take_next_kept: "kept_events (take_next w) = kept_events w"
  by (auto simp: kept_events_def take_next_def split: option.split list.split)

lemma accounted_take: "accounted w es \<Longrightarrow> accounted (take_next w) es"
  using take_next_kept [of w] by (auto simp: accounted_def take_next_def split: option.splits list.splits)

lemma accounted_write: "accounted w es \<Longrightarrow> accounted (write_taken w ok) es"
proof -
  assume acc: "accounted w es"
  show ?thesis
  proof (cases "wr_taken w")
    case None
    then show ?thesis using acc by (simp add: write_taken_def)
  next
    case (Some e)
    have "subseq (wr_lines w @ wr_queue w) (wr_lines w @ e # wr_queue w)" by (intro list_emb_append_mono) auto
    then have "subseq (wr_lines w @ wr_queue w) es"
      using acc Some by (auto simp: accounted_def kept_events_def intro: subseq_order.order_trans)
    then show ?thesis using acc Some by (auto simp: write_taken_def accounted_def kept_events_def Let_def algebra_simps)
  qed
qed

lemma step_flags:
  "wr_instance (writer_step w op) = wr_instance w"
  "wr_closed (writer_step w op) \<longleftrightarrow> wr_closed w \<or> op = CloseWriter"
  by (cases op; auto simp: emit_def take_next_def write_taken_def close_writer_def Let_def split: option.splits list.splits)+

lemma accounted_closed: "accounted w es \<Longrightarrow> wr_closed w \<Longrightarrow> accounted (foldl writer_step w ops) es"
proof (induction ops arbitrary: w)
  case (Cons op ops)
  have "accounted (writer_step w op) es"
    using Cons.prems accounted_write [of w es] accounted_take [of w es]
    by (cases op) (auto simp: emit_def close_writer_def accounted_def kept_events_def)
  then show ?case using Cons step_flags(2) [of w op] by simp
qed simp

lemma accounted_run:
  "accounted w es \<Longrightarrow> \<not> wr_closed w \<Longrightarrow> accounted (foldl writer_step w ops) (es @ offered (wr_instance w) ops)"
proof (induction ops arbitrary: w es)
  case (Cons op ops)
  note flags = step_flags [of w op]
  show ?case
  proof (cases op)
    case (Emit e)
    then show ?thesis using Cons.IH [OF accounted_emit [OF Cons.prems, of e]] flags Cons.prems by simp
  next
    case Take
    then show ?thesis using Cons.IH [OF accounted_take [OF Cons.prems(1)]] flags Cons.prems by simp
  next
    case (Write ok)
    then show ?thesis using Cons.IH [OF accounted_write [OF Cons.prems(1), of ok]] flags Cons.prems by simp
  next
    case CloseWriter
    have "accounted (close_writer w) es" using Cons.prems by (simp add: accounted_def close_writer_def kept_events_def)
    from accounted_closed [OF this] show ?thesis using CloseWriter by (simp add: close_writer_def)
  qed
qed simp

lemma wr_lines_failed: "wr_failed w \<Longrightarrow> wr_lines (foldl writer_step w ops) = wr_lines w"
proof (induction ops arbitrary: w)
  case (Cons op ops)
  have "wr_failed (writer_step w op) \<and> wr_lines (writer_step w op) = wr_lines w"
    using Cons.prems
    by (cases op) (auto simp: emit_def take_next_def write_taken_def close_writer_def Let_def split: list.splits option.splits)
  then show ?case using Cons.IH by simp
qed simp

lemma wr_closed_run: "wr_closed (foldl writer_step w ops) \<longleftrightarrow> wr_closed w \<or> CloseWriter \<in> set ops"
  by (induction ops arbitrary: w) (auto simp: step_flags)

text \<open>The goroutine left to itself, with a file that takes every line, writes what it has.\<close>

definition drain :: "nat \<Rightarrow> writer_op list" where
  "drain n = concat (replicate n [Write True, Take]) @ [Write True]"

lemma drained:
  "\<not> wr_failed w \<Longrightarrow>
     wr_lines (foldl writer_step w (drain (length (wr_queue w)))) = kept_events w \<and>
     wr_queue (foldl writer_step w (drain (length (wr_queue w)))) = [] \<and>
     wr_dropped (foldl writer_step w (drain (length (wr_queue w)))) = wr_dropped w"
proof (induction "wr_queue w" arbitrary: w)
  case Nil
  then show ?case by (auto simp: drain_def write_taken_def kept_events_def split: option.split)
next
  case (Cons e q)
  define w1 where "w1 = take_next (write_taken w True)"
  have w1: "wr_queue w1 = q" "\<not> wr_failed w1" "kept_events w1 = kept_events w" "wr_dropped w1 = wr_dropped w"
    using Cons.prems Cons.hyps(2) [symmetric]
    by (auto simp: w1_def take_next_def write_taken_def kept_events_def Let_def split: option.split)
  have "foldl writer_step w (drain (length (wr_queue w))) = foldl writer_step w1 (drain (length (wr_queue w1)))"
    using Cons.hyps(2) [symmetric] w1(1) by (simp add: drain_def w1_def)
  then show ?case using Cons.hyps(1) [OF w1(1) [symmetric] w1(2)] w1 by simp
qed

text \<open>
  C29: the event file. Whatever handlers, writer and \<open>Close\<close> interleave to, the lines in the file, the
  event in the hands of the writer and those in the channel are, in the order of emission, among the
  events emitted before the writer was closed, all stamped with version 1 and the writer's instance;
  and together with the drop counter (which wraps at \<open>2 ^ 64\<close>) they account for each of these. An
  event emitted after \<open>Close\<close> changes nothing, not even the counter. The channel holds at most 1024;
  after a failed write the file is not touched again; and without one, whatever was taken before \<open>Close\<close>
  is in the file once the writer has gone through the channel.
\<close>

theorem event_writer_accounting:
  assumes "w = foldl writer_step (new_writer inst) ops"
  shows "subseq (wr_lines w @ (case wr_taken w of None \<Rightarrow> [] | Some e \<Rightarrow> [e]) @ wr_queue w) (offered inst ops) \<and>
   of_nat (length (wr_lines w)) + of_nat (case wr_taken w of None \<Rightarrow> 0 | Some e \<Rightarrow> 1) + of_nat (length (wr_queue w)) + wr_dropped w =
     of_nat (length (offered inst ops)) \<and>
   (\<forall>e. CloseWriter \<in> set ops \<longrightarrow> writer_step w (Emit e) = w) \<and>
   length (wr_queue w) \<le> smtpQueueSize \<and>
   (\<forall>later. wr_failed w \<longrightarrow> wr_lines (foldl writer_step w later) = wr_lines w) \<and>
   (\<not> wr_failed w \<longrightarrow> wr_lines (foldl writer_step w (drain (length (wr_queue w)))) =
      wr_lines w @ (case wr_taken w of None \<Rightarrow> [] | Some e \<Rightarrow> [e]) @ wr_queue w)"
proof -
  have "accounted (new_writer inst) []" by (simp add: accounted_def kept_events_def new_writer_def)
  from accounted_run [OF this, of ops] have acc: "accounted w (offered inst ops)"
    by (simp add: assms new_writer_def)
  have "of_nat (length (kept_events w)) = (of_nat (length (wr_lines w)) + of_nat (case wr_taken w of None \<Rightarrow> 0 | Some e \<Rightarrow> 1) +
      of_nat (length (wr_queue w)) :: u64)"
    by (simp add: kept_events_def split: option.split)
  moreover have "writer_step w (Emit e) = w" if "CloseWriter \<in> set ops" for e
    using that wr_closed_run [of "new_writer inst" ops] by (simp add: assms [symmetric] emit_def)
  ultimately show ?thesis
    using acc drained [of w] wr_lines_failed [of w] by (simp add: accounted_def kept_events_def add.assoc)
qed

text \<open>An example: one event in the file, one in the channel when the writer is closed, one too late.\<close>

lemma event_writer_accounting_witness:
  "let w = foldl writer_step (new_writer ''mx'') [Emit sample_event, Take, Emit sample_event, Write True, CloseWriter, Emit sample_event]
   in wr_lines w = [stamp ''mx'' sample_event] \<and> wr_dropped w = 0 \<and> writer_step w (Emit sample_event) = w \<and>
     wr_lines (foldl writer_step w (drain 1)) = [stamp ''mx'' sample_event, stamp ''mx'' sample_event]"
proof -
  define w where "w = foldl writer_step (new_writer ''mx'') [Emit sample_event, Take, Emit sample_event, Write True, CloseWriter, Emit sample_event]"
  have w: "wr_lines w = [stamp ''mx'' sample_event]" "wr_queue w = [stamp ''mx'' sample_event]" "wr_taken w = None" "wr_dropped w = 0"
    "\<not> wr_failed w"
    by (simp_all add: w_def new_writer_def emit_def take_next_def write_taken_def close_writer_def smtpQueueSize_def Let_def)
  from event_writer_accounting [OF w_def] w show ?thesis unfolding w_def [symmetric] Let_def by simp
qed

section \<open>The events of a connection\<close>

lemma client_line_emits:
  "client_line now ob raw = Inr ob' \<Longrightarrow> o_base ob' = o_base ob \<and> emitted ob' = emitted ob \<and> o_method ob' = o_method ob"
  "client_line now ob raw = Inl ob' \<Longrightarrow> o_base ob' = o_base ob \<and> emitted ob' = emitted ob \<and> o_method ob' = o_method ob"
  by (auto simp: client_line_def Let_def split: if_splits option.splits)

lemma client_loop_emits:
  "o_base (client_loop clk ob) = o_base ob \<and> emitted (client_loop clk ob) = emitted ob \<and> o_method (client_loop clk ob) = o_method ob"
proof (induction clk ob rule: client_loop.induct)
  case (1 clk ob)
  show ?case
    using 1 by (subst (1 2 3) client_loop.simps)
      (auto simp: Let_def dest!: client_line_emits split: option.splits sum.splits)
qed

text \<open>An emitted event is the connection's base event with its own type and time.\<close>

definition emitted_by :: "smtp_event \<Rightarrow> smtp_event \<Rightarrow> bool" where
  "emitted_by base e \<longleftrightarrow> ev_Instance e = ev_Instance base \<and> ev_ConnectionID e = ev_ConnectionID base \<and>
     ev_Client e = ev_Client base \<and> ev_Listener e = ev_Listener base \<and> ev_Backend e = ev_Backend base \<and>
     ev_Version e = ev_Version base \<and> ev_Error e = ev_Error base \<and> ev_Behavior e = ev_Behavior base \<and>
     (if ev_Type e = ''fingerprint'' then ev_JA3 e \<noteq> [] \<and> ev_JA4 e \<noteq> [] \<and> ev_State e = ev_State base
      else ev_Type e = ''starttls'' \<and> ev_JA3 e = ev_JA3 base \<and> ev_JA4 e = ev_JA4 base)"

lemma server_line_emits:
  assumes "case server_line now ob line of Inl ob' \<Rightarrow> ob' = ob1 | Inr ob' \<Rightarrow> ob' = ob1"
  shows "o_base ob1 = o_base ob \<and> o_method ob1 = o_method ob \<and>
    (\<exists>es. emitted ob1 = emitted ob @ es \<and> (\<forall>e \<in> set es. emitted_by (o_base ob) e \<and> ev_Timestamp e = now))"
  using assms
  by (auto simp: server_line_def Let_def emitted_by_def split: if_splits list.splits)

text \<open>What the clock says while a read is handled, in a session whose clock does not run backwards.\<close>

definition read_clock :: "observed_read \<Rightarrow> clock" where
  "read_clock s = (case s of FromClient _ clk \<Rightarrow> clk | FromServer _ clk \<Rightarrow> clk)"

definition clock_forward :: "observed_read list \<Rightarrow> bool" where
  "clock_forward steps \<longleftrightarrow> (\<forall>s \<in> set steps. mono (read_clock s)) \<and>
     sorted_wrt (\<lambda>s t. \<forall>i j. read_clock s i \<le> read_clock t j) steps"

definition timed_emission :: "smtp_event \<Rightarrow> clock \<Rightarrow> smtp_event list \<Rightarrow> bool" where
  "timed_emission base clk es \<longleftrightarrow> (\<forall>e \<in> set es. emitted_by base e \<and> ev_Timestamp e \<in> range clk) \<and>
     (mono clk \<longrightarrow> sorted (map ev_Timestamp es))"

lemma timed_emission_Nil [simp]: "timed_emission base clk []"
  by (simp add: timed_emission_def)

lemma timed_emission_step:
  assumes "\<forall>e \<in> set es. emitted_by base e \<and> ev_Timestamp e = clk 0" "timed_emission base (\<lambda>n. clk (Suc n)) es'"
  shows "timed_emission base clk (es @ es')"
proof -
  have "map ev_Timestamp es = replicate (length es) (clk 0)"
    using assms(1) by (simp add: map_replicate_const [symmetric])
  then have "sorted (map ev_Timestamp es)" by simp
  moreover have "mono (\<lambda>n. clk (Suc n)) \<and> (\<forall>n. clk 0 \<le> clk (Suc n))" if "mono clk"
    using that by (simp add: mono_def)
  ultimately show ?thesis using assms by (auto simp: timed_emission_def sorted_append)
qed

lemma server_loop_emits:
  "o_base (server_loop clk ob) = o_base ob \<and> o_method (server_loop clk ob) = o_method ob \<and>
   (\<exists>es. emitted (server_loop clk ob) = emitted ob @ es \<and> timed_emission (o_base ob) clk es)"
proof (induction clk ob rule: server_loop.induct)
  case (1 clk ob)
  show ?case
  proof (cases "line_end (serverLines ob)")
    case None
    then show ?thesis by (simp add: server_loop.simps)
  next
    case (Some i)
    define ob0 where "ob0 = ob\<lparr>serverLines := drop (i + 1) (serverLines ob)\<rparr>"
    define line where "line = trim_right is_crlf (take (i + 1) (serverLines ob))"
    have ob0: "o_base ob0 = o_base ob" "o_method ob0 = o_method ob" "emitted ob0 = emitted ob" by (simp_all add: ob0_def)
    show ?thesis
    proof (cases "server_line (clk 0) ob0 line")
      case (Inl ob1)
      then have eq: "server_loop clk ob = ob1"
        using Some by (subst server_loop.simps) (simp add: ob0_def line_def)
      obtain es where "o_base ob1 = o_base ob" "o_method ob1 = o_method ob" "emitted ob1 = emitted ob @ es"
        "\<forall>e \<in> set es. emitted_by (o_base ob) e \<and> ev_Timestamp e = clk 0"
        using server_line_emits [of ob1 "clk 0" ob0 line] Inl ob0 by auto
      then show ?thesis unfolding eq using timed_emission_step [of es "o_base ob" clk "[]"] by auto
    next
      case (Inr ob1)
      let ?clk = "\<lambda>n. clk (Suc n)"
      have eq: "server_loop clk ob = server_loop ?clk ob1"
        using Some Inr by (subst server_loop.simps) (simp add: ob0_def line_def)
      obtain es1 where 1: "o_base ob1 = o_base ob" "o_method ob1 = o_method ob" "emitted ob1 = emitted ob @ es1"
        "\<forall>e \<in> set es1. emitted_by (o_base ob) e \<and> ev_Timestamp e = clk 0"
        using server_line_emits [of ob1 "clk 0" ob0 line] Inr ob0 by auto
      have "o_base (server_loop ?clk ob1) = o_base ob1 \<and> o_method (server_loop ?clk ob1) = o_method ob1 \<and>
          (\<exists>es. emitted (server_loop ?clk ob1) = emitted ob1 @ es \<and> timed_emission (o_base ob1) ?clk es)"
        by (rule "1.IH" [OF Some]) (use Inr in \<open>simp add: ob0_def line_def\<close>)
      then obtain es2 where "emitted (server_loop ?clk ob1) = emitted ob1 @ es2" "timed_emission (o_base ob1) ?clk es2"
          "o_base (server_loop ?clk ob1) = o_base ob1" "o_method (server_loop ?clk ob1) = o_method ob1" by blast
      with 1 show ?thesis unfolding eq using timed_emission_step [of es1 "o_base ob" clk es2] by auto
    qed
  qed
qed

lemma hello_metadata_fingerprints: "JA3 (hello_metadata ch) \<noteq> [] \<and> JA4 (hello_metadata ch) \<noteq> []"
proof -
  have "snd (ja3FromHello ch) \<noteq> []"
    by (simp add: ja3FromHello_def Let_def case_prod_beta join_eq_Nil_iff ja3_parts_def)
  moreover have "computeJA4 ch \<noteq> []" by (simp add: computeJA4_def)
  ultimately show ?thesis by (auto simp: hello_metadata_def)
qed

lemma observeTLS_emits:
  "o_base (observeTLS now ob p) = o_base ob \<and> o_method (observeTLS now ob p) = o_method ob \<and>
   (\<exists>es. emitted (observeTLS now ob p) = emitted ob @ es \<and> (\<forall>e \<in> set es. emitted_by (o_base ob) e \<and> ev_Timestamp e = now))"
proof -
  have "extractTLSMetadata buf m = Inr (fp, meta) \<Longrightarrow> JA3 meta \<noteq> [] \<and> JA4 meta \<noteq> []" for buf m fp meta
    using hello_metadata_fingerprints by (auto simp: extractTLSMetadata_Inr hello_metadata_def)
  then show ?thesis
    by (auto simp: observeTLS_def Let_def emitted_by_def split: sum.splits option.splits prod.splits)
qed

lemma observe_step_emits:
  "o_base (observe_step ob s) = o_base ob \<and> o_method (observe_step ob s) = o_method ob \<and>
   (\<exists>es. emitted (observe_step ob s) = emitted ob @ es \<and> timed_emission (o_base ob) (read_clock s) es)"
proof (cases s)
  case (FromClient p clk)
  obtain es where "o_base (observeTLS (clk 0) ob p) = o_base ob" "o_method (observeTLS (clk 0) ob p) = o_method ob"
    "emitted (observeTLS (clk 0) ob p) = emitted ob @ es" "\<forall>e \<in> set es. emitted_by (o_base ob) e \<and> ev_Timestamp e = clk 0"
    using observeTLS_emits [of "clk 0" ob p] by blast
  then show ?thesis
    using FromClient client_loop_emits timed_emission_step [of es "o_base ob" clk "[]"] by (auto simp: client_def read_clock_def)
next
  case (FromServer p clk)
  then show ?thesis
    using server_loop_emits [of clk "ob\<lparr>serverLines := serverLines ob @ string_of_bytes p\<rparr>"]
    by (auto simp: server_def Let_def read_clock_def)
qed

lemma observe_session_emits:
  "o_base (observe_session m base steps) = base \<and> o_method (observe_session m base steps) = m \<and>
   (\<forall>e \<in> set (emitted (observe_session m base steps)). emitted_by base e \<and> (\<exists>s \<in> set steps. ev_Timestamp e \<in> range (read_clock s))) \<and>
   (clock_forward steps \<longrightarrow> sorted (map ev_Timestamp (emitted (observe_session m base steps))))"
proof (induction steps rule: rev_induct)
  case Nil
  then show ?case by (simp add: observe_session_def observer_init_def)
next
  case (snoc s steps)
  let ?ob = "observe_session m base steps"
  have step: "observe_session m base (steps @ [s]) = observe_step ?ob s" by (simp add: observe_session_def)
  obtain es where es: "emitted (observe_step ?ob s) = emitted ?ob @ es" "timed_emission base (read_clock s) es"
    "o_base (observe_step ?ob s) = base" "o_method (observe_step ?ob s) = m"
    using observe_step_emits [of ?ob s] snoc by auto
  have "sorted (map ev_Timestamp (emitted ?ob @ es))" if "clock_forward (steps @ [s])"
  proof -
    have "clock_forward steps" "mono (read_clock s)" "\<forall>r \<in> set steps. \<forall>i j. read_clock r i \<le> read_clock s j"
      using that by (auto simp: clock_forward_def sorted_wrt_append)
    then show ?thesis using snoc es(2) by (fastforce simp: sorted_append timed_emission_def)
  qed
  then show ?case unfolding step es(1,3,4) using snoc es(2) by (auto simp: timed_emission_def)
qed

text \<open>The shape of what a session emits, with its state.\<close>

lemma observer_ok_history:
  assumes "observer_ok ob" "ev_State (o_base ob) = []"
  obtains k where "(0 < k) = refused ob"
    "event_kinds ob = replicate k (''starttls'', ''refused'') @
       (if tlsArmed ob then [(''starttls'', ''accepted'')] else []) @
       (if fingerprinted ob then [(''fingerprint'', [])] else [])"
proof -
  from assms(1) obtain k where "(0 < k) = refused ob"
    "event_kinds ob = replicate k (''starttls'', ''refused'') @
       (if tlsArmed ob then [(''starttls'', ''accepted'')] else []) @
       (if fingerprinted ob then [(''fingerprint'', ev_State (o_base ob))] else [])"
    unfolding observer_ok_def history_ok_def by blast
  then show thesis using that assms(2) by simp
qed

lemma emitted_split:
  assumes "observer_ok ob" "ev_State (o_base ob) = []"
  obtains refs acc fps where "emitted ob = refs @ acc @ fps"
    "\<forall>e \<in> set refs. ev_Type e = ''starttls'' \<and> ev_State e = ''refused''"
    "if tlsArmed ob then \<exists>a. acc = [a] \<and> ev_Type a = ''starttls'' \<and> ev_State a = ''accepted'' else acc = []"
    "if fingerprinted ob then \<exists>e. fps = [e] \<and> ev_Type e = ''fingerprint'' else fps = []"
proof -
  let ?kind = "\<lambda>e. (ev_Type e, ev_State e)"
  obtain k where "map ?kind (emitted ob) = replicate k (''starttls'', ''refused'') @
       (if tlsArmed ob then [(''starttls'', ''accepted'')] else []) @
       (if fingerprinted ob then [(''fingerprint'', [])] else [])"
    using observer_ok_history [OF assms] unfolding event_kinds_def .
  then obtain refs rest where r: "emitted ob = refs @ rest" "replicate k (''starttls'', ''refused'') = map ?kind refs"
    "(if tlsArmed ob then [(''starttls'', ''accepted'')] else []) @ (if fingerprinted ob then [(''fingerprint'', [])] else []) = map ?kind rest"
    unfolding map_eq_append_conv by (elim exE conjE)
  from r(3) [symmetric] obtain acc fps where rest: "rest = acc @ fps"
    "(if tlsArmed ob then [(''starttls'', ''accepted'')] else []) = map ?kind acc"
    "(if fingerprinted ob then [(''fingerprint'', [])] else []) = map ?kind fps"
    unfolding map_eq_append_conv by (elim exE conjE)
  note 1 = r(1) [unfolded rest(1)] r(2) [symmetric] rest(2,3) [symmetric]
  have "\<forall>x \<in> set (map (\<lambda>e. (ev_Type e, ev_State e)) refs). x = (''starttls'', ''refused'')" unfolding 1(2) by simp
  then have "\<forall>e \<in> set refs. ev_Type e = ''starttls'' \<and> ev_State e = ''refused''" by simp
  with 1 that show thesis by (auto split: if_splits)
qed

lemma event_kinds_types: "map ev_Type (emitted ob) = map fst (event_kinds ob)"
  by (simp add: event_kinds_def o_def)

lemma fingerprint_events:
  assumes "observer_ok ob" "ev_State (o_base ob) = []"
  shows "length (filter (\<lambda>e. ev_Type e = ''fingerprint'') (emitted ob)) = (if fingerprinted ob then 1 else 0)"
proof -
  obtain k where k: "event_kinds ob = replicate k (''starttls'', ''refused'') @
       (if tlsArmed ob then [(''starttls'', ''accepted'')] else []) @
       (if fingerprinted ob then [(''fingerprint'', [])] else [])"
    using observer_ok_history [OF assms] .
  have "length (filter (\<lambda>e. ev_Type e = ''fingerprint'') (emitted ob)) =
      length (filter (\<lambda>t. t = ''fingerprint'') (map ev_Type (emitted ob)))"
    by (simp add: filter_map o_def)
  then show ?thesis by (simp add: event_kinds_types k)
qed

text \<open>What the limiter says, and the reason in the end event of a connection that was not relayed.\<close>

definition limiter_answer :: "('l \<Rightarrow> string \<Rightarrow> bool \<times> 'l) option \<Rightarrow> smtp_inputs \<Rightarrow> 'l \<Rightarrow> bool \<times> 'l" where
  "limiter_answer limiter i l = (case limiter of None \<Rightarrow> (True, l) | Some f \<Rightarrow> f l (smtp_client_ip i))"

fun end_reason :: "smtp_end \<Rightarrow> string" where
  "end_reason SmtpDialFailed = ''backend_connect_failed''"
| "end_reason (SmtpHeaderFailed e) = ''proxy_header_failed''"
| "end_reason SmtpHeaderWriteFailed = ''proxy_header_write_failed''"
| "end_reason _ = []"

text \<open>The three ways a connection ends.\<close>

lemma smtp_session_cases:
  assumes "handleSMTPConn limiter backend how v2 i l = (out, l')"
  obtains (limited) "so_end out = SmtpRateLimited" "so_events out = []"
        "so_blocked out = [(smtp_base backend i)\<lparr>ev_Type := ''blocked'', ev_State := ''rate_limit''\<rparr>]"
        "\<not> fst (limiter_answer limiter i l)" "l' = snd (limiter_answer limiter i l)" "\<not> so_backend_failed out"
    | (failed) err where "so_blocked out = []" "err \<noteq> []" "\<forall>h ob. so_end out \<noteq> SmtpRelayed h ob" "so_end out \<noteq> SmtpRateLimited"
        "so_events out = [smtp_start backend i, (smtp_stop backend i)\<lparr>ev_Error := err\<rparr>]"
        "fst (limiter_answer limiter i l)" "l' = snd (limiter_answer limiter i l)" "err = end_reason (so_end out)"
        "so_end out = SmtpDialFailed \<longleftrightarrow> \<not> si_dial_ok i" "so_backend_failed out \<longleftrightarrow> \<not> si_dial_ok i"
    | (relayed) h ob where "so_blocked out = []" "so_end out = SmtpRelayed h ob"
        "ob = observe_session how (smtp_base backend i) (si_reads i)"
        "so_events out = smtp_start backend i # emitted ob @
           [(smtp_stop backend i)\<lparr>ev_State := observer_state ob, ev_Behavior := Some (behaviorSnapshot ob)\<rparr>]"
        "fst (limiter_answer limiter i l)" "l' = snd (limiter_answer limiter i l)" "si_dial_ok i" "\<not> so_backend_failed out"
proof -
  define base where "base = smtp_base backend i"
  define ob where "ob = observe_session how base (si_reads i)"
  define stop where "stop = smtp_stop backend i"
  note d = base_def ob_def stop_def
  obtain allowed l1 where lim: "limiter_answer limiter i l = (allowed, l1)" by fastforce
  note run = assms [unfolded handleSMTPConn_def limiter_answer_def [symmetric] lim Let_def case_prod_conv, folded d, folded d]
  show thesis
  proof (cases "\<not> allowed")
    case True
    then show thesis by (intro limited [folded d]) (use run lim in auto)
  next
    case allowed: False
    show thesis
    proof (cases "\<not> si_dial_ok i")
      case True
      then show thesis
        by (intro failed [of "''backend_connect_failed''", folded d]) (use run lim allowed in auto)
    next
      case dialled: False
      show thesis
      proof (cases "if v2 then proxyV2Header (si_source i) (si_local i) else Inr []")
        case (Inl e)
        then show thesis
          by (intro failed [of "''proxy_header_failed''", folded d]) (use run lim allowed dialled in auto)
      next
        case (Inr h)
        show thesis
        proof (cases "v2 \<and> \<not> si_header_ok i")
          case True
          then show thesis
            by (intro failed [of "''proxy_header_write_failed''", folded d]) (use run lim allowed dialled Inr in auto)
        next
          case False
          then show thesis
            by (intro relayed [of h ob, folded base_def stop_def]) (use run lim allowed dialled Inr in \<open>auto simp: ob_def\<close>)
        qed
      qed
    qed
  qed
qed

lemma smtp_stop_fields [simp]:
  "ev_Error (smtp_stop backend i) = []" "ev_Behavior (smtp_stop backend i) = None" "ev_ConnectionID (smtp_stop backend i) = si_id i"
  "ev_Client (smtp_stop backend i) = si_client i" "ev_Listener (smtp_stop backend i) = si_listener i"
  "ev_Type (smtp_stop backend i) = ''end''" "ev_Timestamp (smtp_stop backend i) = si_ended i"
  "ev_State (smtp_stop backend i) = ''observer_incomplete''"
  by (simp_all add: smtp_base_def smtp_stop_def)

text \<open>
  C35: the events of one SMTP connection. If the limiter refuses the connection, nothing is emitted
  and one event is only logged, as blocked; if it lets it pass, or there is none, a start event
  is emitted first and exactly one end event last, whatever happened in between, both with the
  connection's id and endpoints. A session that was relayed emits between them what its observer
  emitted, and its end event has the observer's state and its behaviour, which the report reader
  accepts; a fingerprint event, with both fingerprints, is among them exactly when the end event
  says \<open>fingerprinted\<close>. A connection that was not relayed emits nothing between them, and its end event
  has no behaviour and the reason: the backend could not be reached, exactly if the dialling
  failed, which is counted, or the PROXY header could not be made or written.
\<close>

theorem smtp_session_events:
  assumes "handleSMTPConn limiter backend how v2 i l = (out, l')"
    and "(case limiter of None \<Rightarrow> (True, l) | Some f \<Rightarrow> f l (smtp_client_ip i)) = (allowed, l1)"
  shows "l' = l1 \<and> (so_backend_failed out \<longleftrightarrow> allowed \<and> \<not> si_dial_ok i) \<and>
    (if \<not> allowed then
       so_end out = SmtpRateLimited \<and> so_events out = [] \<and>
       so_blocked out = [(smtp_base backend i)\<lparr>ev_Type := ''blocked'', ev_State := ''rate_limit''\<rparr>]
     else
       so_blocked out = [] \<and>
       (\<exists>mid stop. so_events out = smtp_start backend i # mid @ [stop] \<and>
          ev_Type stop = ''end'' \<and> ev_ConnectionID stop = si_id i \<and> ev_Client stop = si_client i \<and>
          ev_Listener stop = si_listener i \<and> ev_Backend stop = backend \<and> ev_Timestamp stop = si_ended i \<and>
          (\<forall>e \<in> set mid. emitted_by (smtp_base backend i) e) \<and>
          length (filter (\<lambda>e. ev_Type e = ''fingerprint'') mid) = (if ev_State stop = ''fingerprinted'' then 1 else 0) \<and>
          (case so_end out of
             SmtpRelayed h ob \<Rightarrow>
               ob = observe_session how (smtp_base backend i) (si_reads i) \<and> mid = emitted ob \<and> ev_Error stop = [] \<and>
               ev_State stop = observer_state ob \<and> ev_Behavior stop = Some (behaviorSnapshot ob) \<and>
               validSMTPBehavior (ev_Behavior stop)
           | e \<Rightarrow>
               mid = [] \<and> ev_State stop = ''observer_incomplete'' \<and> ev_Behavior stop = None \<and>
               ev_Error stop = (if \<not> si_dial_ok i then ''backend_connect_failed''
                 else if e = SmtpHeaderWriteFailed then ''proxy_header_write_failed'' else ''proxy_header_failed''))))"
proof -
  have answer: "fst (limiter_answer limiter i l) = allowed" "snd (limiter_answer limiter i l) = l1"
    using assms(2) by (simp_all add: limiter_answer_def)
  have backend: "ev_Backend (smtp_stop backend i) = backend" by (simp add: smtp_stop_def smtp_base_def)
  from assms(1) show ?thesis
  proof (cases rule: smtp_session_cases)
    case limited
    then show ?thesis by (simp add: answer)
  next
    case (failed err)
    then show ?thesis
      by (cases "so_end out") (auto simp: answer backend)
  next
    case (relayed h ob)
    let ?e = "(smtp_stop backend i)\<lparr>ev_State := observer_state ob, ev_Behavior := Some (behaviorSnapshot ob)\<rparr>"
    have ok: "observer_ok ob" unfolding relayed by (rule observe_session_ok)
    have em: "o_base ob = smtp_base backend i" "\<forall>e \<in> set (emitted ob). emitted_by (smtp_base backend i) e"
      using observe_session_emits [of how "smtp_base backend i" "si_reads i"] by (auto simp: relayed)
    have "ev_State (o_base ob) = []" by (simp add: em smtp_base_def)
    moreover have "observer_state ob = ''fingerprinted'' \<longleftrightarrow> fingerprinted ob"
      by (simp add: observer_state_def)
    ultimately have "length (filter (\<lambda>e. ev_Type e = ''fingerprint'') (emitted ob)) = (if ev_State ?e = ''fingerprinted'' then 1 else 0)"
      using fingerprint_events [OF ok] by simp
    moreover have "validSMTPBehavior (Some (behaviorSnapshot ob))"
      unfolding behaviorSnapshot_def by (rule snapshot_valid) (use ok in \<open>simp add: observer_ok_def\<close>)
    ultimately have "\<exists>mid stop. so_events out = smtp_start backend i # mid @ [stop] \<and>
          ev_Type stop = ''end'' \<and> ev_ConnectionID stop = si_id i \<and> ev_Client stop = si_client i \<and>
          ev_Listener stop = si_listener i \<and> ev_Backend stop = backend \<and> ev_Timestamp stop = si_ended i \<and>
          (\<forall>e \<in> set mid. emitted_by (smtp_base backend i) e) \<and>
          length (filter (\<lambda>e. ev_Type e = ''fingerprint'') mid) = (if ev_State stop = ''fingerprinted'' then 1 else 0) \<and>
          mid = emitted ob \<and> ev_Error stop = [] \<and> ev_State stop = observer_state ob \<and> ev_Behavior stop = Some (behaviorSnapshot ob) \<and>
          validSMTPBehavior (ev_Behavior stop)"
      using em(2) by (intro exI [of _ "emitted ob"] exI [of _ ?e]) (simp add: relayed(4) backend)
    then show ?thesis using relayed(1-3,5-8) by (simp add: answer)
  qed
qed

definition sample_smtp :: smtp_inputs where
  "sample_smtp =
     \<lparr>si_id = ''c1'', si_client = ''192.0.2.1:47'', si_listener = ''198.51.100.2:25'', si_source = OtherAddr,
      si_local = OtherAddr, si_started = 1, si_ended = 9, si_dial_ok = True, si_header_ok = True, si_reads = starttls_steps\<rparr>"

lemma smtp_session_events_witness:
  "\<exists>out stop. handleSMTPConn (Some (\<lambda>n ip. (n < 5, n + 1))) ''10.0.0.5:25'' MethodJA4 False sample_smtp (0 :: nat) = (out, 1) \<and>
     last (so_events out) = stop \<and> ev_Type stop = ''end'' \<and> ev_Timestamp stop = 9"
proof -
  let ?limiter = "Some (\<lambda>n ip. (n < 5, n + 1)) :: (nat \<Rightarrow> string \<Rightarrow> bool \<times> nat) option"
  obtain out l where run: "handleSMTPConn ?limiter ''10.0.0.5:25'' MethodJA4 False sample_smtp 0 = (out, l)" by fastforce
  have "(case ?limiter of None \<Rightarrow> (True, 0) | Some f \<Rightarrow> f 0 (smtp_client_ip sample_smtp)) = (True, 1)" by simp
  from smtp_session_events [OF run this] have "l = 1 \<and> (\<exists>mid stop. so_events out = smtp_start ''10.0.0.5:25'' sample_smtp # mid @ [stop] \<and>
      ev_Type stop = ''end'' \<and> ev_Timestamp stop = si_ended sample_smtp)" by auto
  then show ?thesis using run by (auto simp: sample_smtp_def)
qed

end
