(* ===== verification/Go_Regexp.thy ===== *)
theory Go_Regexp
  imports Go_Strings
begin

text \<open>
  The part of Go's \<open>regexp\<close> package that the log readers use: byte classes, concatenation,
  alternation, greedy repetition, groups and anchors, with the leftmost-first match that Go
  specifies. Every class of the program's patterns is a set of ASCII bytes or the complement
  of one, so matching bytes and matching UTF-8 runes find the same spans. The matcher lists
  all ways to match in the order of preference; the lemmas say that it finds exactly the
  spans of the declarative meaning of the pattern.
\<close>

section \<open>Patterns\<close>

datatype re =
    Eps
  | Sym "char \<Rightarrow> bool"
  | Cat re re
  | Or re re
  | Star re
  | Group nat re
  | Bol
  | Eol

definition Plus :: "re \<Rightarrow> re" where
  "Plus r = Cat r (Star r)"

definition Opt :: "re \<Rightarrow> re" where
  "Opt r = Or r Eps"

fun Times :: "nat \<Rightarrow> re \<Rightarrow> re" where
  "Times 0 r = Eps"
| "Times (Suc n) r = Cat r (Times n r)"

fun Lit :: "string \<Rightarrow> re" where
  "Lit [] = Eps"
| "Lit (c # cs) = Cat (Sym (\<lambda>x. x = c)) (Lit cs)"

fun Seq :: "re list \<Rightarrow> re" where
  "Seq [] = Eps"
| "Seq [r] = r"
| "Seq (r # s # rs) = Cat r (Seq (s # rs))"

fun OneOf :: "re list \<Rightarrow> re" where
  "OneOf [] = Sym (\<lambda>_. False)"
| "OneOf [r] = r"
| "OneOf (r # s # rs) = Or r (OneOf (s # rs))"

text \<open>Go's \<open>\s\<close> and \<open>\S\<close>, \<open>\d\<close>, the dot, and the classes of the patterns.\<close>

definition re_space :: "char \<Rightarrow> bool" where
  "re_space c \<longleftrightarrow> c \<in> {CHR 0x09, CHR 0x0A, CHR 0x0C, CHR 0x0D, CHR 0x20}"

definition Space :: re where "Space = Sym re_space"
definition NonSpace :: re where "NonSpace = Sym (\<lambda>c. \<not> re_space c)"
definition Digit :: re where "Digit = Sym is_digit"
definition Dot :: re where "Dot = Sym (\<lambda>c. c \<noteq> CHR 0x0A)"
definition Not :: "string \<Rightarrow> re" where "Not cs = Sym (\<lambda>c. c \<notin> set cs)"
definition In :: "string \<Rightarrow> re" where "In cs = Sym (\<lambda>c. c \<in> set cs)"

definition is_letter :: "char \<Rightarrow> bool" where
  "is_letter c \<longleftrightarrow> is_lower c \<or> is_upper c"

text \<open>\<open>[A-Za-z0-9_.-]\<close>.\<close>

definition HostChar :: re where
  "HostChar = Sym (\<lambda>c. is_letter c \<or> is_digit c \<or> c \<in> set ''_.-'')"

section \<open>Matching\<close>

text \<open>
  The groups that took part, the last match of a group first.
\<close>

type_synonym captures = "(nat \<times> string) list"

text \<open>
  All matches at position \<open>pos\<close> of the text with \<open>s\<close> left, in the order of preference, each with
  what is left after it. A repetition goes on only when it has made progress.
\<close>

definition consumed :: "string \<Rightarrow> string \<Rightarrow> string" where
  "consumed s s' = take (length s - length s') s"

function (sequential) matches :: "re \<Rightarrow> nat \<Rightarrow> string \<Rightarrow> captures \<Rightarrow> (string \<times> captures) list" where
  "matches Eps n s cs = [(s, cs)]"
| "matches (Sym p) n s cs = (case s of [] \<Rightarrow> [] | c # s' \<Rightarrow> if p c then [(s', cs)] else [])"
| "matches (Cat r1 r2) n s cs =
     concat (map (\<lambda>(s', cs'). matches r2 (n + (length s - length s')) s' cs') (matches r1 n s cs))"
| "matches (Or r1 r2) n s cs = matches r1 n s cs @ matches r2 n s cs"
| "matches (Star r) n s cs =
     concat (map (\<lambda>(s', cs'). if length s' < length s then matches (Star r) (n + (length s - length s')) s' cs' else [])
       (matches r n s cs)) @ [(s, cs)]"
| "matches (Group g r) n s cs = map (\<lambda>(s', cs'). (s', (g, consumed s s') # cs')) (matches r n s cs)"
| "matches Bol n s cs = (if n = 0 then [(s, cs)] else [])"
| "matches Eol n s cs = (if s = [] then [(s, cs)] else [])"
  by pat_completeness auto
termination
  by (relation "measures [\<lambda>(r, n, s, cs). size r, \<lambda>(r, n, s, cs). length s]") auto

declare matches.simps(5) [simp del]

lemma matches_Star:
  "x \<in> set (matches (Star r) n s cs) \<longleftrightarrow>
     x = (s, cs) \<or> (\<exists>t ct. (t, ct) \<in> set (matches r n s cs) \<and> length t < length s \<and>
       x \<in> set (matches (Star r) (n + (length s - length t)) t ct))"
  by (subst matches.simps(5)) (auto split: if_splits)

text \<open>The text of group \<open>g\<close>, empty when the group took no part (as in \<open>FindStringSubmatch\<close>).\<close>

definition group :: "captures \<Rightarrow> nat \<Rightarrow> string" where
  "group cs g = (case map_of cs g of None \<Rightarrow> [] | Some t \<Rightarrow> t)"

text \<open>The leftmost match; \<open>n\<close> is the position at which the search goes on.\<close>

fun find_from :: "re \<Rightarrow> nat \<Rightarrow> string \<Rightarrow> captures option" where
  "find_from r n [] = (case matches r n [] [] of [] \<Rightarrow> None | (_, cs) # _ \<Rightarrow> Some cs)"
| "find_from r n (c # s) =
     (case matches r n (c # s) [] of [] \<Rightarrow> find_from r (n + 1) s | (_, cs) # _ \<Rightarrow> Some cs)"

definition FindSubmatch :: "re \<Rightarrow> string \<Rightarrow> captures option" where
  "FindSubmatch r s = find_from r 0 s"

definition MatchString :: "re \<Rightarrow> string \<Rightarrow> bool" where
  "MatchString r s \<longleftrightarrow> FindSubmatch r s \<noteq> None"

section \<open>The meaning of a pattern\<close>

text \<open>\<open>spans r n s s'\<close>: the pattern matches what is between \<open>s\<close> and its suffix \<open>s'\<close>, at position \<open>n\<close>.\<close>

inductive spans :: "re \<Rightarrow> nat \<Rightarrow> string \<Rightarrow> string \<Rightarrow> bool" where
  eps: "spans Eps n s s"
| sym: "p c \<Longrightarrow> spans (Sym p) n (c # s) s"
| cat: "spans r1 n s s' \<Longrightarrow> spans r2 (n + (length s - length s')) s' s'' \<Longrightarrow> spans (Cat r1 r2) n s s''"
| left: "spans r1 n s s' \<Longrightarrow> spans (Or r1 r2) n s s'"
| right: "spans r2 n s s' \<Longrightarrow> spans (Or r1 r2) n s s'"
| stop: "spans (Star r) n s s"
| again: "spans r n s s' \<Longrightarrow> spans (Star r) (n + (length s - length s')) s' s'' \<Longrightarrow> spans (Star r) n s s''"
| group: "spans r n s s' \<Longrightarrow> spans (Group g r) n s s'"
| bol: "spans Bol 0 s s"
| eol: "spans Eol n [] []"

inductive_cases spansE:
  "spans Eps n s s'" "spans (Sym p) n s s'" "spans (Cat r1 r2) n s s'" "spans (Or r1 r2) n s s'"
  "spans (Group g r) n s s'" "spans Bol n s s'" "spans Eol n s s'"

lemma spans_suffix: "spans r n s s' \<Longrightarrow> suffix s' s"
  by (induction rule: spans.induct) (auto intro: suffix_order.order_trans suffix_ConsI)

lemma matches_sound: "(s', cs') \<in> set (matches r n s cs) \<Longrightarrow> spans r n s s'"
proof (induction r n s cs arbitrary: s' cs' rule: matches.induct)
  case (5 r n s cs)
  from matches_Star [THEN iffD1, OF "5.prems"] consider "s' = s"
    | t ct where "(t, ct) \<in> set (matches r n s cs)" "length t < length s"
        "(s', cs') \<in> set (matches (Star r) (n + (length s - length t)) t ct)"
    by auto
  then show ?case
  proof cases
    case (2 t ct)
    then show ?thesis using "5.IH" by (blast intro: spans.again)
  qed (simp add: spans.stop)
qed (force intro: spans.intros split: list.splits if_splits)+

text \<open>Matching finds every span, whatever has been captured before.\<close>

lemma matches_complete: "spans r n s s' \<Longrightarrow> \<exists>cs'. (s', cs') \<in> set (matches r n s cs)"
proof (induction arbitrary: cs rule: spans.induct)
  case (cat r1 n s s' r2 s'')
  then show ?case by fastforce
next
  case (again r n s s' s'')
  show ?case
  proof (cases "length s' < length s")
    case True
    obtain c1 where c1: "(s', c1) \<in> set (matches r n s cs)" using again.IH(1) by blast
    obtain c2 where c2: "(s'', c2) \<in> set (matches (Star r) (n + (length s - length s')) s' c1)" using again.IH(2) by blast
    have "(s'', c2) \<in> set (matches (Star r) n s cs)"
      by (rule matches_Star [THEN iffD2]) (use c1 c2 True in blast)
    then show ?thesis ..
  next
    case False
    from spans_suffix [OF again.hyps(1)] obtain zs where "s = zs @ s'" by (auto simp: suffix_def)
    with False have "s' = s" by simp
    then show ?thesis using again.IH(2) by simp
  qed
next
  case (stop r n s)
  have "(s, cs) \<in> set (matches (Star r) n s cs)" by (rule matches_Star [THEN iffD2]) simp
  then show ?case ..
next
  case (group r n s s' g)
  then obtain c where "(s', c) \<in> set (matches r n s cs)" by blast
  then have "(s', (g, consumed s s') # c) \<in> set (matches (Group g r) n s cs)" by force
  then show ?case ..
qed (auto split: list.splits)

lemma matches_iff: "(\<exists>cs'. (s', cs') \<in> set (matches r n s cs)) \<longleftrightarrow> spans r n s s'"
  using matches_sound matches_complete by blast

lemma find_from_iff: "find_from r n s \<noteq> None \<longleftrightarrow> (\<exists>k \<le> length s. \<exists>s'. spans r (n + k) (drop k s) s')"
proof (induction r n s rule: find_from.induct)
  case (1 r n)
  show ?case
    using matches_iff [of _ r n "[]" "[]"] by (cases "matches r n [] []") force+
next
  case (2 r n c s)
  show ?case
  proof (cases "matches r n (c # s) []")
    case Nil
    have no: "\<not> spans r n (c # s) s'" for s' using matches_iff [of s' r n "c # s" "[]"] Nil by simp
    have "find_from r n (c # s) \<noteq> None \<longleftrightarrow> (\<exists>k \<le> length s. \<exists>s'. spans r (n + 1 + k) (drop k s) s')"
      using 2 Nil by simp
    also have "\<dots> \<longleftrightarrow> (\<exists>k \<le> length (c # s). \<exists>s'. spans r (n + k) (drop k (c # s)) s')"
    proof
      assume "\<exists>k \<le> length s. \<exists>s'. spans r (n + 1 + k) (drop k s) s'"
      then obtain k s' where "k \<le> length s" "spans r (n + 1 + k) (drop k s) s'" by blast
      then show "\<exists>k \<le> length (c # s). \<exists>s'. spans r (n + k) (drop k (c # s)) s'"
        by (intro exI [of _ "Suc k"]) auto
    next
      assume "\<exists>k \<le> length (c # s). \<exists>s'. spans r (n + k) (drop k (c # s)) s'"
      then obtain k s' where k: "k \<le> length (c # s)" "spans r (n + k) (drop k (c # s)) s'" by blast
      then obtain j where "k = Suc j" using no by (cases k) auto
      then show "\<exists>k \<le> length s. \<exists>s'. spans r (n + 1 + k) (drop k s) s'" using k by auto
    qed
    finally show ?thesis .
  next
    case (Cons m ms)
    obtain s' cs' where m: "m = (s', cs')" by (cases m)
    have "spans r n (c # s) s'" using matches_iff [of s' r n "c # s" "[]"] Cons m by auto
    then have "\<exists>k \<le> length (c # s). \<exists>s'. spans r (n + k) (drop k (c # s)) s'" by (intro exI [of _ 0]) auto
    then show ?thesis using Cons m by simp
  qed
qed

text \<open>A group's text is part of the matched text.\<close>

lemma matches_captures:
  "(s', cs') \<in> set (matches r n s cs) \<Longrightarrow> \<forall>(g, t) \<in> set cs'. (g, t) \<in> set cs \<or> set t \<subseteq> set s"
proof (induction r n s cs arbitrary: s' cs' rule: matches.induct)
  case (3 r1 r2 n s cs)
  then obtain t ct where t: "(t, ct) \<in> set (matches r1 n s cs)" "(s', cs') \<in> set (matches r2 (n + (length s - length t)) t ct)" by auto
  have "set t \<subseteq> set s" using spans_suffix [OF matches_sound [OF t(1)]] by (auto dest: set_mono_suffix)
  then show ?case using "3.IH"(1) [OF t(1)] "3.IH"(2) [OF t(1) refl t(2)] by fastforce
next
  case (4 r1 r2 n s cs)
  then have "(s', cs') \<in> set (matches r1 n s cs) \<or> (s', cs') \<in> set (matches r2 n s cs)" by simp
  then show ?case using "4.IH" by blast
next
  case (5 r n s cs)
  from matches_Star [THEN iffD1, OF "5.prems"] consider "cs' = cs"
    | t ct where "(t, ct) \<in> set (matches r n s cs)" "length t < length s"
        "(s', cs') \<in> set (matches (Star r) (n + (length s - length t)) t ct)"
    by auto
  then show ?case
  proof cases
    case (2 t ct)
    have "set t \<subseteq> set s" using spans_suffix [OF matches_sound [OF 2(1)]] by (auto dest: set_mono_suffix)
    then show ?thesis using "5.IH"(1) [OF 2(1)] "5.IH"(2) [OF 2(1) refl 2(2,3)] by fastforce
  qed auto
next
  case (6 g r n s cs)
  then obtain ct where ct: "(s', ct) \<in> set (matches r n s cs)" "cs' = (g, consumed s s') # ct" by auto
  have "set (consumed s s') \<subseteq> set s" by (auto simp: consumed_def dest: in_set_takeD)
  then show ?case using "6.IH" [OF ct(1)] ct(2) by auto
qed (auto split: list.splits if_splits)

lemma find_from_captures: "find_from r n s = Some cs \<Longrightarrow> (g, t) \<in> set cs \<Longrightarrow> set t \<subseteq> set s"
proof (induction r n s rule: find_from.induct)
  case (1 r n)
  then show ?case using matches_captures [of _ _ r n "[]" "[]"] by (fastforce split: list.splits prod.splits)
next
  case (2 r n c s)
  show ?case
  proof (cases "matches r n (c # s) []")
    case Nil
    then show ?thesis using 2 by auto
  next
    case (Cons m ms)
    obtain s' where m: "m = (s', cs)" using "2.prems"(1) Cons by (cases m) simp
    show ?thesis using matches_captures [of s' cs r n "c # s" "[]"] Cons m "2.prems"(2) by auto
  qed
qed

lemma group_chars:
  assumes "FindSubmatch r s = Some cs"
  shows "set (group cs g) \<subseteq> set s"
proof (cases "map_of cs g")
  case (Some t)
  from find_from_captures [OF assms [unfolded FindSubmatch_def] map_of_SomeD [OF Some]] show ?thesis
    using Some by (simp add: group_def)
qed (simp add: group_def)

end
