(* ===== verification/Net_Text.thy ===== *)
theory Net_Text
  imports Net_Addr
begin

text \<open>
  Printing addresses: \<open>netip.Addr.String\<close>, \<open>netip.Prefix.String\<close> and \<open>net.JoinHostPort\<close>. The
  lemmas bound the length of a printed address and say that \<open>net.SplitHostPort\<close> takes apart
  what \<open>net.JoinHostPort\<close> put together.
\<close>

section \<open>Addresses as text\<close>

definition ipv4_bytes :: "32 word \<Rightarrow> nat list" where
  "ipv4_bytes w = map (\<lambda>i. unat (drop_bit (24 - 8 * i) w) mod 256) [0..<4]"

definition ipv4_text :: "32 word \<Rightarrow> string" where
  "ipv4_text w = join ''.'' (map itoa (ipv4_bytes w))"

definition ipv6_groups :: "128 word \<Rightarrow> nat list" where
  "ipv6_groups w = map (\<lambda>i. unat (drop_bit (112 - 16 * i) w) mod 65536) [0..<8]"

text \<open>Hexadecimal without leading zeros.\<close>

fun hex_text :: "nat \<Rightarrow> string" where
  "hex_text n = (if n < 16 then [hex_digit n] else hex_text (n div 16) @ [hex_digit (n mod 16)])"

declare hex_text.simps [simp del]

text \<open>The first of the longest runs of at least two zero groups, as its start and end.\<close>

definition zero_run :: "nat list \<Rightarrow> (nat \<times> nat) option" where
  "zero_run ws =
     fold (\<lambda>i best.
         let l = length (takeWhile (\<lambda>w. w = 0) (drop i ws)) in
         if l \<ge> 2 \<and> l > (case best of None \<Rightarrow> 0 | Some (s, e) \<Rightarrow> e - s) then Some (i, i + l) else best)
       [0..<length ws] None"

definition groups_text :: "nat list \<Rightarrow> string" where
  "groups_text ws = join '':'' (map hex_text ws)"

definition ipv6_text :: "128 word \<Rightarrow> string" where
  "ipv6_text w =
     (let ws = ipv6_groups w in
      case zero_run ws of
        None \<Rightarrow> groups_text ws
      | Some (s, e) \<Rightarrow> groups_text (take s ws) @ ''::'' @ groups_text (drop e ws))"

fun Addr_String :: "addr \<Rightarrow> string" where
  "Addr_String (Addr4 w) = ipv4_text w"
| "Addr_String (Addr6 w z) =
     (if Is4In6 (Addr6 w z) then ''::ffff:'' @ ipv4_text (ucast w) else ipv6_text w) @
     (if z = [] then [] else CHR ''%'' # z)"

fun Prefix_String :: "net_prefix \<Rightarrow> string" where
  "Prefix_String (Prefix4 w b) = Addr_String (Addr4 w) @ CHR ''/'' # itoa b"
| "Prefix_String (Prefix6 w b) = Addr_String (Addr6 w []) @ CHR ''/'' # itoa b"

definition JoinHostPort :: "string \<Rightarrow> string \<Rightarrow> string" where
  "JoinHostPort host port =
     (if CHR '':'' \<in> set host then ''['' @ host @ '']:'' @ port else host @ '':'' @ port)"

section \<open>Their lengths and characters\<close>

lemma length_join_le:
  "\<forall>x \<in> set xs. length x \<le> n \<Longrightarrow> length (join sep xs) \<le> length xs * (n + length sep)"
proof (induction sep xs rule: join.induct)
  case (3 sep x y xs)
  then have "length (join sep (y # xs)) \<le> length (y # xs) * (n + length sep)" by simp
  then show ?case using "3.prems" by (simp add: algebra_simps)
qed auto

lemma length_itoa: "n < 10 ^ k \<Longrightarrow> 0 < k \<Longrightarrow> length (itoa n) \<le> k"
proof (induction n arbitrary: k rule: itoa.induct)
  case (1 n)
  show ?case
  proof (cases "n < 10")
    case True
    then show ?thesis using 1 by (subst itoa.simps) simp
  next
    case False
    then obtain k' where k: "k = Suc k'" "0 < k'" using "1.prems" by (cases k) (auto, metis gr_zeroI less_one mult.commute mult.right_neutral not_less power_0)
    have "n div 10 < 10 ^ k'" using "1.prems"(1) by (simp add: k less_mult_imp_div_less mult.commute)
    then have "length (itoa (n div 10)) \<le> k'" using "1.IH" False k by simp
    then show ?thesis using False by (subst itoa.simps) (simp add: k)
  qed
qed

lemma length_hex_text: "n < 16 ^ k \<Longrightarrow> 0 < k \<Longrightarrow> length (hex_text n) \<le> k"
proof (induction n arbitrary: k rule: hex_text.induct)
  case (1 n)
  show ?case
  proof (cases "n < 16")
    case True
    then show ?thesis using 1 by (subst hex_text.simps) simp
  next
    case False
    then obtain k' where k: "k = Suc k'" "0 < k'"
      using "1.prems" by (cases k) (auto, metis gr_zeroI less_one mult.commute mult.right_neutral not_less power_0)
    have "n div 16 < 16 ^ k'" using "1.prems"(1) by (simp add: k less_mult_imp_div_less mult.commute)
    then have "length (hex_text (n div 16)) \<le> k'" using "1.IH" False k by simp
    then show ?thesis using False by (subst hex_text.simps) (simp add: k)
  qed
qed

lemma set_hex_text: "c \<in> set (hex_text n) \<Longrightarrow> is_hex_lower c"
proof (induction n rule: hex_text.induct)
  case (1 n)
  then show ?case by (subst (asm) hex_text.simps) (auto split: if_splits)
qed

lemma zero_run_bounds:
  assumes "zero_run ws = Some (s, e)"
  shows "s + 2 \<le> e \<and> e \<le> length ws"
proof -
  let ?f = "\<lambda>i best. let l = length (takeWhile (\<lambda>w. w = 0) (drop i ws)) in
         if l \<ge> 2 \<and> l > (case best of None \<Rightarrow> 0 | Some (s, e) \<Rightarrow> e - s) then Some (i, i + l) else best"
  have "(case fold ?f xs best of None \<Rightarrow> True | Some (s, e) \<Rightarrow> s + 2 \<le> e \<and> e \<le> length ws)"
    if "case best of None \<Rightarrow> True | Some (s, e) \<Rightarrow> s + 2 \<le> e \<and> e \<le> length ws" "\<forall>i \<in> set xs. i < length ws" for xs best
    using that
  proof (induction xs arbitrary: best)
    case (Cons i xs)
    have "i + length (takeWhile (\<lambda>w. w = 0) (drop i ws)) \<le> length ws"
      using length_takeWhile_le [of "\<lambda>w. w = 0" "drop i ws"] Cons.prems(2) by (simp add: le_diff_conv2)
    then have "case ?f i best of None \<Rightarrow> True | Some (s, e) \<Rightarrow> s + 2 \<le> e \<and> e \<le> length ws"
      using Cons.prems(1) by (auto simp: Let_def)
    from Cons.IH [OF this] show ?case using Cons.prems(2) by simp
  qed simp
  from this [of None "[0..<length ws]"] assms show ?thesis by (simp add: zero_run_def)
qed

lemma length_groups_text: "\<forall>w \<in> set ws. w < 65536 \<Longrightarrow> length (groups_text ws) \<le> length ws * 5"
  unfolding groups_text_def
  using length_join_le [of "map hex_text ws" 4 "'':''"] length_hex_text [of _ 4] by auto

lemma ipv6_groups_bounds: "length (ipv6_groups w) = 8" "\<forall>g \<in> set (ipv6_groups w). g < 65536"
  by (auto simp: ipv6_groups_def)

lemma length_ipv6_text: "length (ipv6_text w) \<le> 40"
proof (cases "zero_run (ipv6_groups w)")
  case None
  then show ?thesis using length_groups_text [OF ipv6_groups_bounds(2), of w] by (simp add: ipv6_text_def ipv6_groups_bounds(1))
next
  case (Some r)
  obtain s e where r: "r = (s, e)" by (cases r)
  note b = zero_run_bounds [OF Some [unfolded r], unfolded ipv6_groups_bounds(1)]
  have "length (groups_text (take s (ipv6_groups w))) \<le> s * 5"
    using length_groups_text [of "take s (ipv6_groups w)"] ipv6_groups_bounds [of w] b
    by (auto dest: in_set_takeD simp: min_def split: if_splits)
  moreover have "length (groups_text (drop e (ipv6_groups w))) \<le> (8 - e) * 5"
    using length_groups_text [of "drop e (ipv6_groups w)"] ipv6_groups_bounds [of w] by (auto dest: in_set_dropD)
  moreover have "s + (8 - e) \<le> 6" using b by arith
  ultimately show ?thesis by (simp add: ipv6_text_def Some r Let_def)
qed

lemma length_ipv4_text: "length (ipv4_text w) \<le> 16"
  unfolding ipv4_text_def
  using length_join_le [of "map itoa (ipv4_bytes w)" 3 "''.''"] length_itoa [of _ 3] by (auto simp: ipv4_bytes_def)

lemma length_Addr_String: "length (Addr_String a) \<le> 41 + length (addr_zone a)"
proof (cases a)
  case (Addr4 w)
  then show ?thesis using length_ipv4_text [of w] by simp
next
  case (Addr6 w z)
  then show ?thesis using length_ipv4_text [of "ucast w"] length_ipv6_text [of w] by simp
qed

definition addr_char :: "char \<Rightarrow> bool" where
  "addr_char c \<longleftrightarrow> is_hex_lower c \<or> c = CHR ''.'' \<or> c = CHR '':'' \<or> c = CHR ''%''"

lemma set_groups_text: "c \<in> set (groups_text ws) \<Longrightarrow> addr_char c"
  using set_join [of "'':''" "map hex_text ws"] by (auto simp: groups_text_def addr_char_def dest: set_hex_text)

lemma digit_hex_lower: "is_digit c \<Longrightarrow> is_hex_lower c"
  by (simp add: is_hex_lower_def is_digit_def)

lemma set_ipv4_text: "c \<in> set (ipv4_text w) \<Longrightarrow> addr_char c"
  using set_join [of "''.''" "map itoa (ipv4_bytes w)"]
  by (auto simp: ipv4_text_def addr_char_def dest: set_itoa digit_hex_lower)

lemma set_Addr_String: "c \<in> set (Addr_String a) \<Longrightarrow> addr_char c \<or> c \<in> set (addr_zone a)"
proof (cases a)
  case (Addr4 w)
  assume "c \<in> set (Addr_String a)"
  then show ?thesis using Addr4 set_ipv4_text by auto
next
  case (Addr6 w z)
  assume "c \<in> set (Addr_String a)"
  moreover have "addr_char CHR '':''" "addr_char CHR ''f''" "addr_char CHR ''%''" by (simp_all add: addr_char_def is_hex_lower_def)
  ultimately show ?thesis using Addr6 set_ipv4_text set_groups_text
    by (auto simp: ipv6_text_def Let_def split: if_splits option.splits prod.splits)
qed

lemma cut_last_append: "c \<notin> set b \<Longrightarrow> cut_last c (a @ c # b) = Some (a, b)"
  by (simp add: cut_last_def cut_char_append)

lemma SplitHostPort_JoinHostPort:
  assumes "CHR ''['' \<notin> set host" "CHR '']'' \<notin> set host"
    "CHR ''['' \<notin> set port" "CHR '']'' \<notin> set port" "CHR '':'' \<notin> set port"
  shows "SplitHostPort (JoinHostPort host port) = Some (host, port)"
proof (cases "CHR '':'' \<in> set host")
  case True
  have "cut_char (CHR '']'') ((''['' @ host) @ CHR '']'' # ('':'' @ port)) = (''['' @ host, Some ('':'' @ port))"
    by (rule cut_char_append) (use assms in auto)
  moreover have "cut_last (CHR '':'') ((''['' @ host @ '']'') @ CHR '':'' # port) = Some (''['' @ host @ '']'', port)"
    by (rule cut_last_append) (rule assms(5))
  ultimately show ?thesis using True assms by (simp add: SplitHostPort_def JoinHostPort_def)
next
  case False
  have "hd (host @ CHR '':'' # port) \<noteq> CHR ''[''" using assms(1) by (cases host) auto
  then show ?thesis using False assms by (simp add: SplitHostPort_def JoinHostPort_def cut_last_append)
qed

end
