(* ===== verification/Smtp_Batch.thy ===== *)
theory Smtp_Batch
  imports Cleanup Smtp_Session Go_Regexp Net_Text "HOL-Library.AList"
begin

text \<open>
  Reading back what was written: the bounded batch scanner, the SMTP event file, the Postfix
  log and the verdict file (\<open>newSMTPBatchScanner\<close>, \<open>readSMTPConnectionsStats\<close>,
  \<open>readPostfixMessages\<close>, \<open>readSMTPVerdicts\<close> of \<open>smtp_correlate.go\<close>). Decoding a JSON line and
  parsing an RFC 3339 time are arguments; a decoder returns the value together with the text
  that \<open>json.Marshal\<close> gives for it, which the readers compare. Times are instants.
\<close>

section \<open>The batch scanner\<close>

definition maxSMTPBatchBytes :: nat where
  "maxSMTPBatchBytes = 64 * 1024 * 1024"

definition maxSMTPBatchLines :: nat where
  "maxSMTPBatchLines = 100000"

definition maxSMTPBatchLine :: nat where
  "maxSMTPBatchLine = 1024 * 1024"

text \<open>
  A path: what \<open>os.Stat\<close> says, what reading yields (it can grow in between) and whether the file
  can be closed.
\<close>

record batch_file =
  bf_regular :: bool
  bf_size :: nat
  bf_data :: string
  bf_closes :: bool

datatype batch_error = BatchMissing | BatchNotRegular | BatchTooLarge | BatchIncompleteLine | BatchLineTooLong | BatchTooManyLines | BatchClose

definition newSMTPBatchScanner :: "batch_file option \<Rightarrow> batch_error + string" where
  "newSMTPBatchScanner f =
     (case f of
        None \<Rightarrow> Inl BatchMissing
      | Some f \<Rightarrow>
          (if \<not> bf_regular f \<or> bf_size f > maxSMTPBatchBytes then Inl BatchNotRegular
           else closing BatchClose (bf_closes f) (let b = take (maxSMTPBatchBytes + 1) (bf_data f) in
             if length b > maxSMTPBatchBytes then Inl BatchTooLarge
             else if b \<noteq> [] \<and> last b \<noteq> CHR 0x0A then Inl BatchIncompleteLine
             else Inr b)))"

text \<open>
  \<open>bufio.ScanLines\<close> drops a carriage return before the line feed. The scanner fails on a line
  that does not fit its buffer of one MiB with its line feed, and after 100000 lines; a reader
  that fails discards what it has read.
\<close>

definition drop_cr :: "string \<Rightarrow> string" where
  "drop_cr s = (if s \<noteq> [] \<and> last s = CHR 0x0D then butlast s else s)"

fun scan_lines :: "nat \<Rightarrow> string list \<Rightarrow> batch_error + string list" where
  "scan_lines k [] = Inr []"
| "scan_lines k (l # ls) =
     (if length l \<ge> maxSMTPBatchLine then Inl BatchLineTooLong
      else if k \<ge> maxSMTPBatchLines then Inl BatchTooManyLines
      else ebind (scan_lines (k + 1) ls) (\<lambda>ls. Inr (drop_cr l # ls)))"

definition batch_lines :: "batch_file option \<Rightarrow> batch_error + string list" where
  "batch_lines f = ebind (newSMTPBatchScanner f) (\<lambda>b. scan_lines 0 (butlast (split_char (CHR 0x0A) b)))"

text \<open>A file with the given lines, for examples.\<close>

definition text_file :: "string list \<Rightarrow> batch_file" where
  "text_file ls = (let b = concat (map (\<lambda>l. l @ [CHR 0x0A]) ls) in \<lparr>bf_regular = True, bf_size = length b, bf_data = b, bf_closes = True\<rparr>)"

section \<open>Connections from the event file\<close>

record smtp_conn_record =
  cr_ID :: string
  cr_Instance :: string
  cr_Client :: string
  cr_Listener :: string
  cr_JA3 :: string
  cr_JA4 :: string
  cr_Start :: time
  cr_End :: time
  cr_TLS :: time
  cr_Accepted :: time
  cr_State :: string
  cr_Invalid :: bool
  cr_Behavior :: "smtp_behavior option"

definition new_conn_record :: "smtp_event \<Rightarrow> smtp_conn_record" where
  "new_conn_record e =
     \<lparr>cr_ID = ev_ConnectionID e, cr_Instance = ev_Instance e, cr_Client = [], cr_Listener = [], cr_JA3 = [],
      cr_JA4 = [], cr_Start = 0, cr_End = 0, cr_TLS = 0, cr_Accepted = 0, cr_State = [], cr_Invalid = False,
      cr_Behavior = None\<rparr>"

definition nul :: string where
  "nul = [CHR 0x00]"

text \<open>
  The reader's state: the connections by instance and id (in the order of their first event;
  Go's map has no order, and nothing that follows depends on it), the marshalled events that
  may occur once, and the number of bad lines.
\<close>

record conn_reader =
  rd_by :: "(string \<times> smtp_conn_record) list"
  rd_seen :: "(string \<times> string) list"
  rd_bad :: nat

definition note_endpoints :: "smtp_event \<Rightarrow> smtp_conn_record \<Rightarrow> smtp_conn_record" where
  "note_endpoints e c =
     (let c = (if ev_Client e \<noteq> [] then
            (if cr_Client c \<noteq> [] \<and> cr_Client c \<noteq> ev_Client e then c\<lparr>cr_Invalid := True\<rparr> else c)\<lparr>cr_Client := ev_Client e\<rparr>
          else c)
      in if ev_Listener e \<noteq> [] then
           (if cr_Listener c \<noteq> [] \<and> cr_Listener c \<noteq> ev_Listener e then c\<lparr>cr_Invalid := True\<rparr> else c)\<lparr>cr_Listener := ev_Listener e\<rparr>
         else c)"

definition once_only :: "smtp_event \<Rightarrow> bool" where
  "once_only e \<longleftrightarrow> ev_Type e = ''start'' \<or> ev_Type e = ''end'' \<or> ev_Type e = ''fingerprint'' \<or>
     (ev_Type e = ''starttls'' \<and> ev_State e = ''accepted'')"

text \<open>The \<open>switch e.Type\<close>; the second component is whether the event is counted as bad.\<close>

definition note_type :: "smtp_event \<Rightarrow> smtp_conn_record \<Rightarrow> smtp_conn_record \<times> bool" where
  "note_type e c =
     (if ev_Type e = ''start'' then
        (c\<lparr>cr_Start := ev_Timestamp e, cr_Client := ev_Client e, cr_Listener := ev_Listener e\<rparr>, False)
      else if ev_Type e = ''fingerprint'' then
        (c\<lparr>cr_TLS := ev_Timestamp e, cr_JA3 := ev_JA3 e, cr_JA4 := ev_JA4 e\<rparr>, False)
      else if ev_Type e = ''starttls'' then
        (if ev_State e = ''accepted'' then c\<lparr>cr_Accepted := ev_Timestamp e\<rparr> else c, False)
      else if ev_Type e = ''end'' then
        (c\<lparr>cr_End := ev_Timestamp e, cr_State := ev_State e, cr_Behavior := ev_Behavior e\<rparr>, False)
      else (c\<lparr>cr_Invalid := True\<rparr>, True))"

definition conn_key :: "smtp_event \<Rightarrow> string" where
  "conn_key e = ev_Instance e @ nul @ ev_ConnectionID e"

definition conn_event :: "conn_reader \<Rightarrow> (smtp_event \<times> string) option \<Rightarrow> conn_reader" where
  "conn_event rd decoded =
     (case decoded of
        None \<Rightarrow> rd\<lparr>rd_bad := rd_bad rd + 1\<rparr>
      | Some (e, raw) \<Rightarrow>
          (if ev_ConnectionID e = [] \<or> ev_Instance e = [] \<or> ev_Timestamp e = 0 \<or> ev_Version e \<noteq> 1
           then rd\<lparr>rd_bad := rd_bad rd + 1\<rparr>
           else
             (let k = conn_key e;
                  c = (case map_of (rd_by rd) k of None \<Rightarrow> new_conn_record e | Some c \<Rightarrow> c);
                  c = note_endpoints e c;
                  key = k @ nul @ ev_Type e;
                  clash = (once_only e \<and> (case map_of (rd_seen rd) key of None \<Rightarrow> False | Some old \<Rightarrow> old \<noteq> raw))
              in if clash then
                   rd\<lparr>rd_by := AList.update k (c\<lparr>cr_Invalid := True\<rparr>) (rd_by rd), rd_bad := rd_bad rd + 1\<rparr>
                 else
                   (case note_type e c of (c, bad) \<Rightarrow>
                      rd\<lparr>rd_by := AList.update k c (rd_by rd),
                        rd_seen := (if once_only e then AList.update key raw (rd_seen rd) else rd_seen rd),
                        rd_bad := rd_bad rd + (if bad then 1 else 0)\<rparr>))))"

definition readSMTPConnectionsStats ::
  "(string \<Rightarrow> (smtp_event \<times> string) option) \<Rightarrow> batch_file option \<Rightarrow> batch_error + (smtp_conn_record list \<times> nat)" where
  "readSMTPConnectionsStats decode f =
     ebind (batch_lines f) (\<lambda>ls.
       let rd = foldl conn_event \<lparr>rd_by = [], rd_seen = [], rd_bad = 0\<rparr> (map decode ls)
       in Inr (map snd (rd_by rd), rd_bad rd))"

text \<open>What a complete observation is.\<close>

definition completeObservation :: "smtp_conn_record \<Rightarrow> bool" where
  "completeObservation c =
     (if cr_Invalid c \<or> cr_Start c = 0 \<or> cr_End c < cr_Start c then False
      else if cr_State c \<in> {''no_observed_upgrade'', ''starttls_refused'', ''premature_tls''} then
        cr_Accepted c = 0 \<and> cr_TLS c = 0
      else if cr_State c = ''fingerprinted'' then
        cr_Accepted c \<noteq> 0 \<and> \<not> cr_TLS c < cr_Accepted c \<and> \<not> cr_Accepted c < cr_Start c \<and> \<not> cr_TLS c > cr_End c \<and>
        cr_JA3 c \<noteq> [] \<and> cr_JA4 c \<noteq> []
      else if cr_State c = ''starttls_accepted_no_fingerprint'' then
        cr_Accepted c \<noteq> 0 \<and> \<not> cr_Accepted c < cr_Start c \<and> \<not> cr_Accepted c > cr_End c
      else False)"

section \<open>Messages from the Postfix log\<close>

text \<open>The patterns, group by group as in the source.\<close>

definition syslog_stamp :: "re list" where
  "syslog_stamp =
     [Sym is_upper, Times 2 (Sym is_lower), Plus Space, Sym (\<lambda>c. c = CHR '' '' \<or> is_digit c), Digit, Plus Space,
      Times 8 (Sym (\<lambda>c. is_digit c \<or> c = CHR '':'')), Plus Space]"

definition host_bracket :: "re list" where
  "host_bracket = [Plus HostChar, Lit ''['', Plus Digit, Lit '']:'', Plus Space]"

definition rest_of_line :: re where
  "rest_of_line = Star (Not [CHR 0x0D, CHR 0x0A])"

definition postfixEnvelope :: re where
  "postfixEnvelope = Seq
     [Bol, Group 1 (Plus NonSpace), Plus Space, Plus NonSpace, Plus Space,
      Opt (Seq (host_bracket @ [Opt (Seq (syslog_stamp @ [Opt (Seq [Plus HostChar, Plus Space])]))])),
      Lit ''postfix/smtpd['', Group 2 (Plus Digit), Lit '']:'', Plus Space, Group 3 rest_of_line, Eol]"

definition bracketed_client :: "nat \<Rightarrow> nat \<Rightarrow> re list" where
  "bracketed_client g h = [Lit ''['', Group g (Plus (Not '']'')), Lit '']'', Opt (Cat (Lit '':'') (Group h (Plus Digit)))]"

definition postfixConnect :: re where
  "postfixConnect = Seq ([Bol, Lit ''connect from '', Plus Dot] @ bracketed_client 1 2 @ [Eol])"

definition postfixQueue :: re where
  "postfixQueue = Seq ([Bol, Group 1 (Plus (Sym (\<lambda>c. is_letter c \<or> is_digit c))), Lit '': client='', Plus Dot] @ bracketed_client 2 3)"

definition postfixDisconnect :: re where
  "postfixDisconnect = Cat Bol (Lit ''disconnect from '')"

definition postfixTLSEstablished :: re where
  "postfixTLSEstablished = Seq
     ([Bol, OneOf [Lit ''Anonymous'', Lit ''Untrusted'', Lit ''Trusted'', Lit ''Verified''],
       Lit '' TLS connection established from '', Plus (Sym (\<lambda>c. \<not> re_space c \<and> c \<noteq> CHR ''[''))] @
      bracketed_client 1 2 @ [OneOf [Lit '': '', Lit '' to '']])"

text \<open>\<open>postfixTLSOrder\<close>, and the message and session records.\<close>

datatype postfix_tls = TLSUnknown | TLSBeforeMessage | TLSAfterMessage | TLSConflict

record smtp_message =
  msg_Instance :: string
  msg_QueueID :: string
  msg_Client :: string
  msg_PID :: string
  msg_At :: time
  msg_SessionStart :: time
  msg_HasSession :: bool
  msg_PostfixTLS :: postfix_tls

record postfix_session =
  ps_client :: string
  ps_epoch :: time
  ps_tls :: postfix_tls
  ps_messages :: "nat list"

record postfix_reader =
  pf_sessions :: "string \<Rightarrow> postfix_session option"
  pf_out :: "smtp_message list"

definition session_message :: "string \<Rightarrow> string \<Rightarrow> string \<Rightarrow> string \<Rightarrow> time \<Rightarrow> smtp_message" where
  "session_message inst queue peer pid at =
     \<lparr>msg_Instance = inst, msg_QueueID = queue, msg_Client = peer, msg_PID = pid, msg_At = at, msg_SessionStart = 0,
      msg_HasSession = False, msg_PostfixTLS = TLSUnknown\<rparr>"

definition set_tls :: "postfix_tls \<Rightarrow> nat list \<Rightarrow> smtp_message list \<Rightarrow> smtp_message list" where
  "set_tls order is out = foldl (\<lambda>out i. out[i := (out ! i)\<lparr>msg_PostfixTLS := order\<rparr>]) out is"

text \<open>One log record of process \<open>pid\<close> at time \<open>at\<close>.\<close>

definition postfix_body :: "string \<Rightarrow> postfix_reader \<Rightarrow> time \<Rightarrow> string \<Rightarrow> string \<Rightarrow> postfix_reader" where
  "postfix_body inst rd at pid body =
     (case FindSubmatch postfixConnect body of
        Some x \<Rightarrow>
          (if group x 2 = [] then rd\<lparr>pf_sessions := (pf_sessions rd)(pid := None)\<rparr>
           else rd\<lparr>pf_sessions := (pf_sessions rd)(pid \<mapsto>
             \<lparr>ps_client = JoinHostPort (group x 1) (group x 2), ps_epoch = at, ps_tls = TLSUnknown, ps_messages = []\<rparr>)\<rparr>)
      | None \<Rightarrow>
     (case FindSubmatch postfixTLSEstablished body of
        Some x \<Rightarrow>
          (case pf_sessions rd pid of
             None \<Rightarrow> rd
           | Some s \<Rightarrow>
               (if group x 2 = [] \<or> ps_client s \<noteq> JoinHostPort (group x 1) (group x 2) \<or> at < ps_epoch s then rd
                else
                  (let (tls, order) = (if ps_tls s \<noteq> TLSUnknown then (TLSConflict, TLSConflict)
                       else (TLSBeforeMessage, TLSAfterMessage))
                   in rd\<lparr>pf_sessions := (pf_sessions rd)(pid \<mapsto> s\<lparr>ps_tls := tls\<rparr>),
                        pf_out := set_tls order (ps_messages s) (pf_out rd)\<rparr>)))
      | None \<Rightarrow>
     (if MatchString postfixDisconnect body then rd\<lparr>pf_sessions := (pf_sessions rd)(pid := None)\<rparr>
      else (case FindSubmatch postfixQueue body of
          None \<Rightarrow> rd
        | Some x \<Rightarrow>
            (if group x 3 = [] then rd\<lparr>pf_out := pf_out rd @ [session_message inst (group x 1) [] pid at]\<rparr>
             else
               (let peer = JoinHostPort (group x 2) (group x 3) in
                case pf_sessions rd pid of
                  None \<Rightarrow> rd\<lparr>pf_out := pf_out rd @ [session_message inst (group x 1) peer pid at]\<rparr>
                | Some s \<Rightarrow>
                    (if ps_client s \<noteq> peer \<or> at < ps_epoch s
                     then rd\<lparr>pf_out := pf_out rd @ [session_message inst (group x 1) peer pid at]\<rparr>
                     else rd\<lparr>pf_sessions := (pf_sessions rd)(pid \<mapsto> s\<lparr>ps_messages := ps_messages s @ [length (pf_out rd)]\<rparr>),
                       pf_out := pf_out rd @ [(session_message inst (group x 1) peer pid at)
                         \<lparr>msg_SessionStart := ps_epoch s, msg_HasSession := True, msg_PostfixTLS := ps_tls s\<rparr>]\<rparr>)))))))"

definition postfix_line :: "(string \<Rightarrow> time option) \<Rightarrow> string \<Rightarrow> postfix_reader \<Rightarrow> string \<Rightarrow> postfix_reader" where
  "postfix_line parse_time inst rd line =
     (case FindSubmatch postfixEnvelope line of
        None \<Rightarrow> rd
      | Some m \<Rightarrow>
          (case parse_time (group m 1) of
             None \<Rightarrow> rd
           | Some at \<Rightarrow> postfix_body inst rd at (group m 2) (group m 3)))"

definition readPostfixMessages ::
  "(string \<Rightarrow> time option) \<Rightarrow> batch_file option \<Rightarrow> string \<Rightarrow> batch_error + smtp_message list" where
  "readPostfixMessages parse_time f inst =
     ebind (batch_lines f) (\<lambda>ls.
       Inr (pf_out (foldl (postfix_line parse_time inst) \<lparr>pf_sessions = Map.empty, pf_out = []\<rparr> ls)))"

section \<open>Verdicts\<close>

text \<open>A verdict; the score is copied only. The text is \<open>json.Marshal\<close>'s.\<close>

record smtp_verdict =
  vd_Timestamp :: time
  vd_Instance :: string
  vd_QueueID :: string
  vd_Classification :: string
  vd_Score :: string
  vd_Action :: string
  vd_Symbols :: "string list"

definition verdict_ok :: "smtp_verdict \<Rightarrow> bool" where
  "verdict_ok v \<longleftrightarrow> vd_QueueID v \<noteq> [] \<and> vd_Instance v \<noteq> [] \<and>
     (vd_Classification v = ''spam'' \<or> vd_Classification v = ''ham'' \<or> vd_Classification v = ''unknown'') \<and>
     vd_Timestamp v \<noteq> 0"

fun verdict_lines :: "(smtp_verdict \<times> string) option list \<Rightarrow> (smtp_verdict \<times> string) list \<times> nat" where
  "verdict_lines [] = ([], 0)"
| "verdict_lines (d # ds) =
     (case verdict_lines ds of (out, bad) \<Rightarrow>
       (case d of
          Some (v, raw) \<Rightarrow> if verdict_ok v then ((v, raw) # out, bad) else (out, bad + 1)
        | None \<Rightarrow> (out, bad + 1)))"

definition readSMTPVerdicts ::
  "(string \<Rightarrow> (smtp_verdict \<times> string) option) \<Rightarrow> batch_file option \<Rightarrow>
     batch_error + ((smtp_verdict \<times> string) list \<times> nat)" where
  "readSMTPVerdicts decode f = ebind (batch_lines f) (\<lambda>ls. Inr (verdict_lines (map decode ls)))"

section \<open>One connection among the lines of the file\<close>

text \<open>
  What the reader knows of one key: its record, and what it has seen of each type. Lines of
  other keys do not change it.
\<close>

definition conn_view :: "string \<Rightarrow> conn_reader \<Rightarrow> smtp_conn_record option \<times> (string \<Rightarrow> string option)" where
  "conn_view k rd = (map_of (rd_by rd) k, \<lambda>t. if CHR 0x00 \<in> set t then None else map_of (rd_seen rd) (k @ nul @ t))"

definition valid_event :: "smtp_event \<Rightarrow> bool" where
  "valid_event e \<longleftrightarrow> \<not> (ev_ConnectionID e = [] \<or> ev_Instance e = [] \<or> ev_Timestamp e = 0 \<or> ev_Version e \<noteq> 1)"

fun conn_step ::
  "smtp_conn_record option \<times> (string \<Rightarrow> string option) \<Rightarrow> smtp_event \<times> string \<Rightarrow>
     smtp_conn_record option \<times> (string \<Rightarrow> string option)" where
  "conn_step (co, seen) (e, raw) =
     (let c = note_endpoints e (case co of None \<Rightarrow> new_conn_record e | Some c \<Rightarrow> c) in
      if once_only e \<and> (case seen (ev_Type e) of None \<Rightarrow> False | Some old \<Rightarrow> old \<noteq> raw)
      then (Some (c\<lparr>cr_Invalid := True\<rparr>), seen)
      else (Some (fst (note_type e c)), if once_only e then seen(ev_Type e \<mapsto> raw) else seen))"

lemma once_only_no_nul: "once_only e \<Longrightarrow> CHR 0x00 \<notin> set (ev_Type e)"
  by (auto simp: once_only_def)

lemma nul_key_inj:
  assumes "CHR 0x00 \<notin> set t" "CHR 0x00 \<notin> set t'"
  shows "k @ nul @ t = k' @ nul @ t' \<longleftrightarrow> k = k' \<and> t = t'"
proof -
  have "rev t @ CHR 0x00 # rev k = rev t' @ CHR 0x00 # rev k' \<longleftrightarrow> rev t = rev t' \<and> rev k = rev k'"
    by (rule append_sep_inj) (use assms in auto)
  moreover have "k @ nul @ t = k' @ nul @ t' \<longleftrightarrow> rev (k @ nul @ t) = rev (k' @ nul @ t')" by (rule rev_is_rev_conv [symmetric])
  ultimately show ?thesis by (auto simp: nul_def)
qed

lemma conn_view_bad [simp]: "conn_view k (rd\<lparr>rd_bad := n\<rparr>) = conn_view k rd"
  by (simp add: conn_view_def cong: if_cong)

lemma conn_event_view:
  "conn_view k (conn_event rd d) =
     (case d of Some (e, raw) \<Rightarrow> if valid_event e \<and> conn_key e = k then conn_step (conn_view k rd) (e, raw) else conn_view k rd
      | None \<Rightarrow> conn_view k rd)"
proof (cases d)
  case None
  then show ?thesis by (simp add: conn_event_def)
next
  case (Some er)
  obtain e raw where er: "er = (e, raw)" by (cases er)
  show ?thesis
  proof (cases "valid_event e")
    case False
    then have "conn_event rd d = rd\<lparr>rd_bad := rd_bad rd + 1\<rparr>"
      by (simp add: Some er conn_event_def valid_event_def)
    then show ?thesis using False by (simp add: Some er)
  next
    case valid: True
    define c where "c = note_endpoints e (case map_of (rd_by rd) (conn_key e) of None \<Rightarrow> new_conn_record e | Some c \<Rightarrow> c)"
    define clash where "clash = (once_only e \<and> (case map_of (rd_seen rd) (conn_key e @ nul @ ev_Type e) of None \<Rightarrow> False | Some old \<Rightarrow> old \<noteq> raw))"
    have step: "conn_event rd d = (if clash then
         rd\<lparr>rd_by := AList.update (conn_key e) (c\<lparr>cr_Invalid := True\<rparr>) (rd_by rd), rd_bad := rd_bad rd + 1\<rparr>
       else rd\<lparr>rd_by := AList.update (conn_key e) (fst (note_type e c)) (rd_by rd),
           rd_seen := (if once_only e then AList.update (conn_key e @ nul @ ev_Type e) raw (rd_seen rd) else rd_seen rd),
           rd_bad := rd_bad rd + (if snd (note_type e c) then 1 else 0)\<rparr>)"
      using valid unfolding valid_event_def c_def clash_def
      by (simp add: Some er conn_event_def Let_def split: prod.split)
    have seen: "map_of (AList.update (conn_key e @ nul @ ev_Type e) raw (rd_seen rd)) (k @ nul @ t) =
        (if k = conn_key e \<and> t = ev_Type e then Some raw else map_of (rd_seen rd) (k @ nul @ t))"
      if "once_only e" "CHR 0x00 \<notin> set t" for t
      using nul_key_inj [OF that(2) once_only_no_nul [OF that(1)], of k "conn_key e"] by (simp add: update_conv')
    show ?thesis
    proof (cases "conn_key e = k")
      case True
      have "clash \<longleftrightarrow> once_only e \<and> (case snd (conn_view k rd) (ev_Type e) of None \<Rightarrow> False | Some old \<Rightarrow> old \<noteq> raw)"
        using once_only_no_nul [of e] by (auto simp: clash_def conn_view_def True)
      moreover have "c = note_endpoints e (case fst (conn_view k rd) of None \<Rightarrow> new_conn_record e | Some c \<Rightarrow> c)"
        by (simp add: c_def conn_view_def True)
      ultimately show ?thesis
        using valid True seen once_only_no_nul [of e] unfolding step
        by (auto simp: Some er conn_view_def update_conv' Let_def fun_eq_iff)
    next
      case False
      then show ?thesis
        using seen unfolding step by (auto simp: Some er conn_view_def update_conv' fun_eq_iff)
    qed
  qed
qed

text \<open>The lines of one key.\<close>

fun keyed :: "string \<Rightarrow> (smtp_event \<times> string) option list \<Rightarrow> (smtp_event \<times> string) list" where
  "keyed k [] = []"
| "keyed k (d # ds) =
     (case d of Some (e, raw) \<Rightarrow> if valid_event e \<and> conn_key e = k then (e, raw) # keyed k ds else keyed k ds
      | None \<Rightarrow> keyed k ds)"

lemma conn_view_fold: "conn_view k (foldl conn_event rd ds) = foldl conn_step (conn_view k rd) (keyed k ds)"
  by (induction ds arbitrary: rd) (auto simp: conn_event_view split: option.split)

text \<open>Every record is stored under its own key, once.\<close>

definition by_ok :: "conn_reader \<Rightarrow> bool" where
  "by_ok rd \<longleftrightarrow> distinct (map fst (rd_by rd)) \<and> (\<forall>(k, c) \<in> set (rd_by rd). k = cr_Instance c @ nul @ cr_ID c)"

lemma note_identity [simp]:
  "cr_Instance (note_endpoints e c) = cr_Instance c" "cr_ID (note_endpoints e c) = cr_ID c"
  "cr_Instance (fst (note_type e c)) = cr_Instance c" "cr_ID (fst (note_type e c)) = cr_ID c"
  by (simp_all add: note_endpoints_def note_type_def Let_def)

lemma by_ok_update:
  assumes "by_ok rd" "k = cr_Instance c @ nul @ cr_ID c"
  shows "by_ok (rd\<lparr>rd_by := AList.update k c (rd_by rd)\<rparr>)"
proof -
  have d: "distinct (map fst (AList.update k c (rd_by rd)))" using assms(1) by (simp add: by_ok_def distinct_update)
  have "k' = cr_Instance c' @ nul @ cr_ID c'" if "(k', c') \<in> set (AList.update k c (rd_by rd))" for k' c'
  proof -
    from map_of_is_SomeI [OF d that] have "((map_of (rd_by rd))(k \<mapsto> c)) k' = Some c'" by (simp add: update_conv')
    then show ?thesis using assms by (auto simp: by_ok_def split: if_splits dest!: map_of_SomeD)
  qed
  then show ?thesis using d by (auto simp: by_ok_def)
qed

lemma by_ok_frame [simp]:
  "by_ok (rd\<lparr>rd_bad := n\<rparr>) = by_ok rd" "by_ok (rd\<lparr>rd_seen := s\<rparr>) = by_ok rd"
  by (simp_all add: by_ok_def)

lemma by_ok_event: "by_ok rd \<Longrightarrow> by_ok (conn_event rd d)"
proof (cases d)
  case (Some er)
  assume ok: "by_ok rd"
  obtain e raw where er: "er = (e, raw)" by (cases er)
  define c where "c = note_endpoints e (case map_of (rd_by rd) (conn_key e) of None \<Rightarrow> new_conn_record e | Some c \<Rightarrow> c)"
  have key: "conn_key e = cr_Instance c @ nul @ cr_ID c"
    using ok by (auto simp: c_def conn_key_def new_conn_record_def by_ok_def split: option.split dest!: map_of_SomeD)
  obtain c1 bad where c1: "note_type e c = (c1, bad)" by (cases "note_type e c")
  have "conn_key e = cr_Instance c1 @ nul @ cr_ID c1" using note_identity(3,4) [of e c] key by (simp add: c1)
  from by_ok_update [OF ok this] by_ok_update [OF ok, of "conn_key e" "c\<lparr>cr_Invalid := True\<rparr>"] key ok show ?thesis
    unfolding Some er conn_event_def Let_def option.case prod.case c_def [symmetric] c1 by simp
qed (simp add: conn_event_def)

lemma by_ok_fold: "by_ok rd \<Longrightarrow> by_ok (foldl conn_event rd ds)"
  by (induction ds arbitrary: rd) (simp_all add: by_ok_event)

text \<open>The events of one session, and the record they give.\<close>

definition session_record :: "string \<Rightarrow> smtp_event \<Rightarrow> smtp_event list \<Rightarrow> smtp_event list \<Rightarrow> smtp_event \<Rightarrow> smtp_conn_record" where
  "session_record inst start acc fps stop =
     \<lparr>cr_ID = ev_ConnectionID start, cr_Instance = inst, cr_Client = ev_Client start, cr_Listener = ev_Listener start,
      cr_JA3 = concat (map ev_JA3 fps), cr_JA4 = concat (map ev_JA4 fps), cr_Start = ev_Timestamp start,
      cr_End = ev_Timestamp stop, cr_TLS = sum_list (map ev_Timestamp fps), cr_Accepted = sum_list (map ev_Timestamp acc),
      cr_State = ev_State stop, cr_Invalid = False, cr_Behavior = ev_Behavior stop\<rparr>"

lemma conn_step_known:
  assumes "cr_Client c = ev_Client e" "cr_Listener c = ev_Listener e" "once_only e \<Longrightarrow> seen (ev_Type e) = None"
  shows "conn_step (Some c, seen) (e, raw) =
    (Some (fst (note_type e c)), if once_only e then seen(ev_Type e \<mapsto> raw) else seen)"
proof -
  have "note_endpoints e c = c" using assms(1,2) by (cases c) (simp add: note_endpoints_def Let_def)
  then show ?thesis using assms(3) by (cases "once_only e") (simp_all add: Let_def)
qed

lemma conn_step_refused:
  assumes "\<forall>e \<in> set refs. ev_Type e = ''starttls'' \<and> ev_State e = ''refused'' \<and> ev_Client e = cr_Client c \<and> ev_Listener e = cr_Listener c"
  shows "foldl conn_step (Some c, seen) (map (\<lambda>e. (stamp inst e, encode (stamp inst e))) refs) = (Some c, seen)"
  using assms
proof (induction refs)
  case (Cons e refs)
  have "conn_step (Some c, seen) (stamp inst e, encode (stamp inst e)) = (Some c, seen)"
    using Cons.prems by (subst conn_step_known) (auto simp: once_only_def note_type_def)
  then show ?case using Cons by simp
qed simp

lemma session_fold:
  assumes "\<forall>e \<in> set (start # refs @ acc @ fps @ [stop]). ev_ConnectionID e = ev_ConnectionID start \<and>
      ev_Client e = ev_Client start \<and> ev_Listener e = ev_Listener start"
    and "ev_Type start = ''start''" "ev_Type stop = ''end''" "ev_Client start \<noteq> []" "ev_Listener start \<noteq> []"
    and "\<forall>e \<in> set refs. ev_Type e = ''starttls'' \<and> ev_State e = ''refused''"
    and "acc = [] \<or> (\<exists>a. acc = [a] \<and> ev_Type a = ''starttls'' \<and> ev_State a = ''accepted'')"
    and "fps = [] \<or> (\<exists>e. fps = [e] \<and> ev_Type e = ''fingerprint'')"
  shows "fst (foldl conn_step (None, \<lambda>_. None) (map (\<lambda>e. (stamp inst e, encode (stamp inst e))) (start # refs @ acc @ fps @ [stop]))) =
    Some (session_record inst start acc fps stop)"
proof -
  let ?g = "\<lambda>e. (stamp inst e, encode (stamp inst e))"
  define c0 where "c0 = (session_record inst start [] [] stop)\<lparr>cr_End := 0, cr_State := [], cr_Behavior := None\<rparr>"
  have ends: "cr_Client c0 = ev_Client start" "cr_Listener c0 = ev_Listener start" by (simp_all add: c0_def session_record_def)
  obtain s0 where s0: "conn_step (None, \<lambda>_. None) (?g start) = (Some c0, s0)" "s0 ''starttls'' = None" "s0 ''fingerprint'' = None" "s0 ''end'' = None"
    using assms(2,4,5) by (simp add: note_endpoints_def new_conn_record_def note_type_def once_only_def c0_def session_record_def)
  have refs: "foldl conn_step (Some c0, s0) (map ?g refs) = (Some c0, s0)"
    by (rule conn_step_refused) (use assms(1,6) ends in auto)
  define c1 where "c1 = c0\<lparr>cr_Accepted := sum_list (map ev_Timestamp acc)\<rparr>"
  obtain s1 where s1: "foldl conn_step (Some c0, s0) (map ?g acc) = (Some c1, s1)" "s1 ''fingerprint'' = None" "s1 ''end'' = None"
    using assms(7)
  proof
    assume "acc = []"
    then show thesis using s0 that [of s0] by (simp add: c1_def c0_def session_record_def)
  next
    assume "\<exists>a. acc = [a] \<and> ev_Type a = ''starttls'' \<and> ev_State a = ''accepted''"
    then obtain a where a: "acc = [a]" "ev_Type a = ''starttls''" "ev_State a = ''accepted''" by blast
    have "conn_step (Some c0, s0) (?g a) = (Some c1, s0(''starttls'' \<mapsto> encode (stamp inst a)))"
      using assms(1) ends s0 by (subst conn_step_known) (auto simp: a once_only_def note_type_def c1_def)
    then show thesis using s0 that by (simp add: a(1))
  qed
  define c2 where "c2 = c1\<lparr>cr_TLS := sum_list (map ev_Timestamp fps), cr_JA3 := concat (map ev_JA3 fps), cr_JA4 := concat (map ev_JA4 fps)\<rparr>"
  obtain s2 where s2: "foldl conn_step (Some c1, s1) (map ?g fps) = (Some c2, s2)" "s2 ''end'' = None"
    using assms(8)
  proof
    assume "fps = []"
    then show thesis using s1 that [of s1] by (simp add: c2_def c1_def c0_def session_record_def)
  next
    assume "\<exists>e. fps = [e] \<and> ev_Type e = ''fingerprint''"
    then obtain a where a: "fps = [a]" "ev_Type a = ''fingerprint''" by blast
    have "conn_step (Some c1, s1) (?g a) = (Some c2, s1(''fingerprint'' \<mapsto> encode (stamp inst a)))"
      using assms(1) ends s1 by (subst conn_step_known) (auto simp: a once_only_def note_type_def c2_def c1_def)
    then show thesis using s1 that by (simp add: a(1))
  qed
  have "conn_step (Some c2, s2) (?g stop) = (Some (session_record inst start acc fps stop), s2(''end'' \<mapsto> encode (stamp inst stop)))"
    using assms(1,3) ends s2
    by (subst conn_step_known) (auto simp: once_only_def note_type_def c2_def c1_def c0_def session_record_def)
  with s0 refs s1 s2 show ?thesis by (simp del: conn_step.simps)
qed

lemma session_shape:
  assumes "handleSMTPConn limiter backend how v2 i l = (out, l')" "so_end out \<noteq> SmtpRateLimited"
    and "0 < si_started i" "si_started i \<le> si_ended i" "clock_forward (si_reads i)"
    and "\<forall>s \<in> set (si_reads i). \<forall>n. si_started i \<le> read_clock s n \<and> read_clock s n \<le> si_ended i"
  obtains refs acc fps stop where
    "so_events out = smtp_start backend i # refs @ acc @ fps @ [stop]"
    "\<forall>e \<in> set (refs @ acc @ fps). emitted_by (smtp_base backend i) e"
    "\<forall>e \<in> set refs. ev_Type e = ''starttls'' \<and> ev_State e = ''refused''"
    "acc = [] \<or> (\<exists>a. acc = [a] \<and> ev_Type a = ''starttls'' \<and> ev_State a = ''accepted'')"
    "fps = [] \<or> (\<exists>e. fps = [e] \<and> ev_Type e = ''fingerprint'')"
    "ev_Type stop = ''end''" "ev_ConnectionID stop = si_id i" "ev_Client stop = si_client i" "ev_Listener stop = si_listener i"
    "completeObservation (session_record inst (smtp_start backend i) acc fps stop) \<longleftrightarrow> ev_State stop \<noteq> ''observer_incomplete''"
  using assms(1)
proof (cases rule: smtp_session_cases)
  case limited
  then show thesis using assms(2) by simp
next
  case (failed err)
  show thesis
    by (rule that [of "[]" "[]" "[]" "(smtp_stop backend i)\<lparr>ev_Error := err\<rparr>"])
      (use failed in \<open>simp_all add: completeObservation_def session_record_def\<close>)
next
  case (relayed h ob)
  let ?stop = "(smtp_stop backend i)\<lparr>ev_State := observer_state ob, ev_Behavior := Some (behaviorSnapshot ob)\<rparr>"
  have ok: "observer_ok ob" unfolding relayed by (rule observe_session_ok)
  have em: "o_base ob = smtp_base backend i" "\<forall>e \<in> set (emitted ob). emitted_by (smtp_base backend i) e \<and> (\<exists>s \<in> set (si_reads i). ev_Timestamp e \<in> range (read_clock s))"
    "sorted (map ev_Timestamp (emitted ob))"
    using observe_session_emits [of how "smtp_base backend i" "si_reads i"] assms(5) by (auto simp: relayed)
  have times: "si_started i \<le> ev_Timestamp e \<and> ev_Timestamp e \<le> si_ended i" if "e \<in> set (emitted ob)" for e
    using em(2) assms(6) that by auto
  have base: "ev_State (o_base ob) = []" by (simp add: em smtp_base_def)
  obtain refs acc fps where split: "emitted ob = refs @ acc @ fps"
    "\<forall>e \<in> set refs. ev_Type e = ''starttls'' \<and> ev_State e = ''refused''"
    "if tlsArmed ob then \<exists>a. acc = [a] \<and> ev_Type a = ''starttls'' \<and> ev_State a = ''accepted'' else acc = []"
    "if fingerprinted ob then \<exists>e. fps = [e] \<and> ev_Type e = ''fingerprint'' else fps = []"
    using emitted_split [OF ok base] .
  have armed: "fingerprinted ob \<Longrightarrow> tlsArmed ob" using ok by (auto simp: observer_ok_def)
  have start: "ev_Timestamp (smtp_start backend i) = si_started i" by (simp add: smtp_start_def smtp_base_def)
  have complete: "completeObservation (session_record inst (smtp_start backend i) acc fps ?stop) \<longleftrightarrow> observer_state ob \<noteq> ''observer_incomplete''"
  proof (cases "tlsArmed ob")
    case False
    then have none: "acc = []" "fps = []" using split(3,4) armed by (cases "fingerprinted ob"; simp)+
    have "observer_state ob \<notin> {''fingerprinted'', ''starttls_accepted_no_fingerprint''}"
      using False armed by (auto simp: observer_state_def)
    moreover have "observer_state ob \<in> {''no_observed_upgrade'', ''starttls_refused'', ''premature_tls'', ''observer_incomplete''}"
      using False armed by (auto simp: observer_state_def)
    ultimately show ?thesis
      using assms(3,4) by (auto simp: completeObservation_def session_record_def none start)
  next
    case True
    then obtain a where a: "acc = [a]" using split(3) by auto
    have ta: "si_started i \<le> ev_Timestamp a" "ev_Timestamp a \<le> si_ended i" using times [of a] by (auto simp: split a)
    show ?thesis
    proof (cases "fingerprinted ob")
      case False
      then have "observer_state ob = ''starttls_accepted_no_fingerprint''" using True by (simp add: observer_state_def)
      then show ?thesis using ta assms(3,4) by (simp add: completeObservation_def session_record_def a start)
    next
      case fp: True
      then obtain e where e: "fps = [e]" "ev_Type e = ''fingerprint''" using split(4) by auto
      have "ev_Timestamp a \<le> ev_Timestamp e" using em(3) by (simp add: split a e sorted_append)
      moreover have "ev_JA3 e \<noteq> []" "ev_JA4 e \<noteq> []" using em(2) e(2) by (simp_all add: split e(1) emitted_by_def)
      moreover have "ev_Timestamp e \<le> si_ended i" using times [of e] by (simp add: split e)
      moreover have "observer_state ob = ''fingerprinted''" using fp by (simp add: observer_state_def)
      ultimately show ?thesis using ta assms(3,4) by (simp add: completeObservation_def session_record_def a e start)
    qed
  qed
  show thesis
    by (rule that [of refs acc fps ?stop]) (use split em(2) complete in \<open>auto simp: relayed(4) split: if_splits\<close>)
qed

text \<open>
  C34: what a connection emitted is what the correlator reads. If the lines of a connection's
  key in the event file are the events its handler emitted, in order, among any lines of
  other connections, and the clock did not run backwards, then the reader returns exactly one
  record for the connection. The record is valid, has the connection's endpoints, its start and
  end, the state and behaviour of the end event and the fingerprints of the fingerprint event,
  if there was one; and it counts as a complete observation exactly when the end event does
  not say \<open>observer_incomplete\<close>.
\<close>

theorem session_read_back:
  assumes "handleSMTPConn limiter backend how v2 i l = (out, l')" "so_end out \<noteq> SmtpRateLimited"
    and "batch_lines f = Inr ls" "readSMTPConnectionsStats decode f = Inr (cs, bad)"
    and "keyed (inst @ nul @ si_id i) (map decode ls) = map (\<lambda>e. (stamp inst e, encode (stamp inst e))) (so_events out)"
    and "si_client i \<noteq> []" "si_listener i \<noteq> []"
    and "0 < si_started i" "si_started i \<le> si_ended i" "clock_forward (si_reads i)"
    and "\<forall>s \<in> set (si_reads i). \<forall>n. si_started i \<le> read_clock s n \<and> read_clock s n \<le> si_ended i"
  shows "\<exists>c stop. stop = last (so_events out) \<and>
    (\<forall>c'. c' \<in> set cs \<and> cr_Instance c' = inst \<and> cr_ID c' = si_id i \<longleftrightarrow> c' = c) \<and>
    \<not> cr_Invalid c \<and> cr_Client c = si_client i \<and> cr_Listener c = si_listener i \<and>
    cr_Start c = si_started i \<and> cr_End c = ev_Timestamp stop \<and> cr_State c = ev_State stop \<and> cr_Behavior c = ev_Behavior stop \<and>
    cr_JA3 c = concat (map ev_JA3 (filter (\<lambda>e. ev_Type e = ''fingerprint'') (so_events out))) \<and>
    cr_JA4 c = concat (map ev_JA4 (filter (\<lambda>e. ev_Type e = ''fingerprint'') (so_events out))) \<and>
    (completeObservation c \<longleftrightarrow> ev_State stop \<noteq> ''observer_incomplete'')"
proof -
  define rd where "rd = foldl conn_event \<lparr>rd_by = [], rd_seen = [], rd_bad = 0\<rparr> (map decode ls)"
  define k where "k = inst @ nul @ si_id i"
  have cs: "cs = map snd (rd_by rd)" using assms(3,4) by (simp add: readSMTPConnectionsStats_def Let_def rd_def)
  have ok: "by_ok rd" unfolding rd_def by (rule by_ok_fold) (simp add: by_ok_def)
  let ?start = "smtp_start backend i"
  have start: "ev_Type ?start = ''start''" "ev_Client ?start = si_client i" "ev_Listener ?start = si_listener i"
    "ev_ConnectionID ?start = si_id i" "ev_Timestamp ?start = si_started i"
    by (simp_all add: smtp_start_def smtp_base_def)
  obtain refs acc fps stop where sh: "so_events out = ?start # refs @ acc @ fps @ [stop]"
    "\<forall>e \<in> set (refs @ acc @ fps). emitted_by (smtp_base backend i) e"
    "\<forall>e \<in> set refs. ev_Type e = ''starttls'' \<and> ev_State e = ''refused''"
    "acc = [] \<or> (\<exists>a. acc = [a] \<and> ev_Type a = ''starttls'' \<and> ev_State a = ''accepted'')"
    "fps = [] \<or> (\<exists>e. fps = [e] \<and> ev_Type e = ''fingerprint'')"
    "ev_Type stop = ''end''" "ev_ConnectionID stop = si_id i" "ev_Client stop = si_client i" "ev_Listener stop = si_listener i"
    "completeObservation (session_record inst ?start acc fps stop) \<longleftrightarrow> ev_State stop \<noteq> ''observer_incomplete''"
    using session_shape [OF assms(1,2,8-11)] .
  let ?c = "session_record inst ?start acc fps stop"
  have ends: "\<forall>e \<in> set (?start # refs @ acc @ fps @ [stop]). ev_ConnectionID e = ev_ConnectionID ?start \<and>
      ev_Client e = ev_Client ?start \<and> ev_Listener e = ev_Listener ?start"
    using sh(2,7-9) start by (auto simp: emitted_by_def smtp_base_def)
  have "fst (conn_view k rd) = Some ?c"
    unfolding rd_def conn_view_fold k_def assms(5) sh(1)
    using session_fold [OF ends start(1) sh(6) _ _ sh(3-5), of inst encode] assms(6,7) start
    by (simp add: conn_view_def del: conn_step.simps cong: if_cong)
  then have found: "map_of (rd_by rd) k = Some ?c" by (simp add: conn_view_def)
  have mem: "c' \<in> set cs \<and> cr_Instance c' = inst \<and> cr_ID c' = si_id i \<longleftrightarrow> c' = ?c" for c'
  proof
    assume c': "c' \<in> set cs \<and> cr_Instance c' = inst \<and> cr_ID c' = si_id i"
    then obtain k' where "(k', c') \<in> set (rd_by rd)" by (auto simp: cs)
    moreover from this c' have "k' = k" using ok by (auto simp: by_ok_def k_def)
    ultimately show "c' = ?c" using ok found by (auto simp: by_ok_def dest: map_of_is_SomeI)
  next
    assume "c' = ?c"
    then show "c' \<in> set cs \<and> cr_Instance c' = inst \<and> cr_ID c' = si_id i"
      using map_of_SomeD [OF found] start by (auto simp: cs session_record_def intro: image_eqI [of _ snd "(k, ?c)"])
  qed
  have fps: "filter (\<lambda>e. ev_Type e = ''fingerprint'') (so_events out) = fps"
    using sh(3-6) start(1) by (auto simp: sh(1) filter_empty_conv)
  show ?thesis
    unfolding fps by (intro exI [of _ ?c] exI [of _ stop]) (use mem sh(1,10) start in \<open>simp add: session_record_def\<close>)
qed

text \<open>An example: a connection whose backend could not be reached, next to a line of garbage.\<close>

definition failed_smtp :: smtp_inputs where
  "failed_smtp = sample_smtp\<lparr>si_dial_ok := False, si_reads := []\<rparr>"

definition line_of :: "smtp_event \<Rightarrow> string" where
  "line_of e = (if ev_Type e = ''start'' then ''{s}'' else ''{e}'')"

definition event_of :: "string \<Rightarrow> (smtp_event \<times> string) option" where
  "event_of l = (if l = ''{s}'' then Some (stamp ''mx'' (smtp_start ''10.0.0.5:25'' failed_smtp), l)
     else if l = ''{e}'' then Some (stamp ''mx'' ((smtp_stop ''10.0.0.5:25'' failed_smtp)\<lparr>ev_Error := ''backend_connect_failed''\<rparr>), l)
     else None)"

definition event_file :: batch_file where
  "event_file = \<lparr>bf_regular = True, bf_size = 10, bf_data = ''{s}'' @ [CHR 0x0A] @ ''?'' @ [CHR 0x0A] @ ''{e}'' @ [CHR 0x0A], bf_closes = True\<rparr>"

lemma event_file_lines: "batch_lines (Some event_file) = Inr [''{s}'', ''?'', ''{e}'']"
  by (simp add: batch_lines_def newSMTPBatchScanner_def event_file_def maxSMTPBatchBytes_def maxSMTPBatchLine_def
      maxSMTPBatchLines_def drop_cr_def Let_def)

lemma session_read_back_witness:
  "\<exists>c cs bad. readSMTPConnectionsStats event_of (Some event_file) = Inr (cs, bad) \<and> c \<in> set cs \<and>
     cr_State c = ''observer_incomplete'' \<and> \<not> completeObservation c"
proof -
  let ?out = "\<lparr>so_end = SmtpDialFailed, so_events = [smtp_start ''10.0.0.5:25'' failed_smtp,
      (smtp_stop ''10.0.0.5:25'' failed_smtp)\<lparr>ev_Error := ''backend_connect_failed''\<rparr>], so_blocked = [], so_backend_failed = True\<rparr>"
  have run: "handleSMTPConn (None :: (nat \<Rightarrow> string \<Rightarrow> bool \<times> nat) option) ''10.0.0.5:25'' MethodJA4 False failed_smtp 0 = (?out, 0)"
    by (simp add: handleSMTPConn_def failed_smtp_def sample_smtp_def Let_def)
  obtain cs bad where rd: "readSMTPConnectionsStats event_of (Some event_file) = Inr (cs, bad)"
    by (simp add: readSMTPConnectionsStats_def event_file_lines Let_def)
  have keyed: "keyed (''mx'' @ nul @ si_id failed_smtp) (map event_of [''{s}'', ''?'', ''{e}'']) =
      map (\<lambda>e. (stamp ''mx'' e, line_of (stamp ''mx'' e))) (so_events ?out)"
    by (simp add: event_of_def line_of_def valid_event_def conn_key_def smtp_start_def smtp_stop_def smtp_base_def
        failed_smtp_def sample_smtp_def nul_def)
  from session_read_back [OF run _ event_file_lines rd keyed] rd show ?thesis
    by (auto simp: failed_smtp_def sample_smtp_def clock_forward_def)
qed

end
