(* ===== verification/Smtp_Campaign.thy ===== *)
theory Smtp_Campaign
  imports Smtp_Batch Source_Sets Digest
begin

text \<open>
  Campaign classification: the Postscreen evidence read from the log, mailboxes and domains,
  the operator's network prefixes, the match of a session with a connection, the two
  signatures, and the report (all of \<open>smtp_campaign.go\<close> but its command). The decoded prefix
  file, the parser of times and the lower case of arbitrary runes are arguments. A difference
  of two times does not overflow here; Go saturates it, far above every limit it is compared
  with.
\<close>

section \<open>Data\<close>

definition smtpCampaignReportSchema :: string where
  "smtpCampaignReportSchema = ''smtp-campaign-report/v1''"

definition pregreetSupportSignature :: string where
  "pregreetSupportSignature = ''smtp/pregreet-helo-support-selfdomain/v1''"

definition pregreetEHLOUserSignature :: string where
  "pregreetEHLOUserSignature = ''smtp/pregreet-ehlo-user/v1''"

record smtp_campaign_record =
  cp_Timestamp :: time
  cp_Client :: string
  cp_ConnectionID :: string
  cp_BehaviorFingerprint :: string
  cp_Signature :: string
  cp_Reason :: string
  cp_Provider :: string
  cp_NetworkPrefix :: string
  cp_RecipientCluster :: string

record smtp_campaign_report =
  cg_Schema :: string
  cg_Instance :: string
  cg_Listener :: string
  cg_Signature :: string
  cg_Signatures :: "string list"
  cg_Connections :: int
  cg_EvidenceSessions :: int
  cg_Matched :: int
  cg_Unmatched :: int
  cg_ConnectionsWithoutEvidence :: int
  cg_MalformedEvents :: int
  cg_MalformedLogLines :: int
  cg_Records :: "smtp_campaign_record list"

record smtp_evidence =
  en_Client :: string
  en_Start :: time
  en_PregreetAt :: time
  en_RejectAt :: time
  en_LastAt :: time
  en_Pregreet :: bool
  en_Rejected :: bool
  en_PregreetVerb :: string
  en_PregreetEHLOUser :: bool
  en_EnvelopeFrom :: string
  en_EnvelopeTo :: string
  en_HELO :: string
  en_sawPostscreen :: bool
  en_sawSMTPD :: bool

definition no_evidence :: smtp_evidence where
  "no_evidence =
     \<lparr>en_Client = [], en_Start = 0, en_PregreetAt = 0, en_RejectAt = 0, en_LastAt = 0, en_Pregreet = False,
      en_Rejected = False, en_PregreetVerb = [], en_PregreetEHLOUser = False, en_EnvelopeFrom = [],
      en_EnvelopeTo = [], en_HELO = [], en_sawPostscreen = False, en_sawSMTPD = False\<rparr>"

section \<open>Clients and mailboxes\<close>

definition canonicalClientTuple :: "string \<Rightarrow> string \<Rightarrow> string option" where
  "canonicalClientTuple host port =
     (case ParseAddr host of
        None \<Rightarrow> None
      | Some addr \<Rightarrow>
          (case parse_uint 16 port of
             None \<Rightarrow> None
           | Some n \<Rightarrow> if n = 0 then None else Some (JoinHostPort (Addr_String addr) (itoa n))))"

text \<open>A label: letters, digits, and hyphens inside. Any byte of another rune fails.\<close>

definition label_ok :: "string \<Rightarrow> bool" where
  "label_ok l \<longleftrightarrow> l \<noteq> [] \<and> length l \<le> 63 \<and>
     list_all (\<lambda>i. is_lower (l ! i) \<or> is_digit (l ! i) \<or> (l ! i = CHR ''-'' \<and> i > 0 \<and> i < length l - 1)) [0..<length l]"

definition TrimSuffix :: "string \<Rightarrow> string \<Rightarrow> string" where
  "TrimSuffix s p = (if has_suffix s p then take (length s - length p) s else s)"

definition canonicalDomain :: "string \<Rightarrow> string" where
  "canonicalDomain s =
     (let d = TrimSuffix (ToLower (TrimSpace s)) ''.'' in
      if d = [] \<or> length d > 253 \<or> list_ex (\<lambda>c. c \<in> set ''@[]<>'' \<or> c \<in> {CHR 0x0D, CHR 0x0A, CHR 0x00}) d then []
      else if list_all label_ok (split_char (CHR ''.'') d) then d else [])"

definition splitMailbox :: "string \<Rightarrow> string \<times> string" where
  "splitMailbox s =
     (case cut_last (CHR ''@'') (TrimSpace s) of
        None \<Rightarrow> ([], [])
      | Some (mbox, rest) \<Rightarrow>
          if mbox = [] \<or> rest = [] then ([], [])
          else (let domain = canonicalDomain rest in
            if length mbox > 64 \<or> domain = [] then ([], []) else (mbox, domain)))"

text \<open>\<open>lower\<close> is \<open>strings.ToLower\<close> for all of Unicode.\<close>

definition normalizeMailbox :: "(string \<Rightarrow> string) \<Rightarrow> string \<Rightarrow> string" where
  "normalizeMailbox lower s =
     (case splitMailbox s of (mbox, domain) \<Rightarrow>
        if mbox = [] \<or> domain = [] then [] else lower mbox @ ''@'' @ domain)"

definition smtpValueHash :: "string \<Rightarrow> string" where
  "smtpValueHash s = ''sha256:'' @ hex_encode (sha256 s)"

section \<open>Signatures\<close>

definition classifySMTPCampaignSignature :: "smtp_behavior option \<Rightarrow> smtp_evidence \<Rightarrow> string \<times> string" where
  "classifySMTPCampaignSignature behavior ev =
     (case behavior of
        None \<Rightarrow> ([], ''missing_or_invalid_behavior'')
      | Some b \<Rightarrow>
          if \<not> validSMTPBehavior behavior then ([], ''missing_or_invalid_behavior'')
          else if bh_PreGreeting b \<noteq> ''none'' \<and> bh_FirstVerb b = ''EHLO'' \<and>
              en_Pregreet ev \<and> en_PregreetVerb ev = ''EHLO'' \<and> en_PregreetEHLOUser ev
          then (pregreetEHLOUserSignature, ''matched'')
          else if bh_PreGreeting b = ''none'' \<or> bh_FirstVerb b \<noteq> ''HELO'' then ([], ''behavior_not_pregreet_helo'')
          else if \<not> en_Pregreet ev \<or> en_PregreetVerb ev \<noteq> ''HELO'' then ([], ''postscreen_not_pregreet_helo'')
          else if \<not> en_Rejected ev then ([], ''no_rejection_evidence'')
          else (case splitMailbox (en_EnvelopeFrom ev) of (mbox, domain) \<Rightarrow>
            if \<not> EqualFold mbox ''support'' \<or> domain = [] then ([], ''sender_not_support_domain'')
            else if canonicalDomain (en_HELO ev) \<noteq> domain then ([], ''helo_sender_domain_mismatch'')
            else (pregreetSupportSignature, ''matched'')))"

definition evidenceTime :: "smtp_evidence \<Rightarrow> time" where
  "evidenceTime e =
     (case filter (\<lambda>t. t \<noteq> 0) [en_RejectAt e, en_PregreetAt e, en_Start e, en_LastAt e] of [] \<Rightarrow> 0 | t # _ \<Rightarrow> t)"

text \<open>Whether a session's times fit a connection.\<close>

definition session_fits :: "int \<Rightarrow> int \<Rightarrow> smtp_evidence \<Rightarrow> smtp_conn_record \<Rightarrow> bool" where
  "session_fits maxLifetime tolerance ev c =
     (if cr_Invalid c \<or> cr_Start c = 0 \<or> cr_End c = 0 \<or> cr_End c < cr_Start c \<or> cr_End c - cr_Start c > maxLifetime then False
      else (let inside = (\<lambda>at. at = 0 \<or> (\<not> at < cr_Start c - tolerance \<and> \<not> at > cr_End c + tolerance)) in
        inside (en_Start ev) \<and> inside (en_PregreetAt ev) \<and> inside (en_RejectAt ev) \<and> inside (en_LastAt ev)))"

definition matchingSMTPConnections :: "smtp_conn_record list \<Rightarrow> smtp_evidence \<Rightarrow> int \<Rightarrow> int \<Rightarrow> smtp_conn_record list" where
  "matchingSMTPConnections candidates ev maxLifetime tolerance = filter (session_fits maxLifetime tolerance ev) candidates"

section \<open>Evidence from the log\<close>

definition smtpCampaignEnvelope :: re where
  "smtpCampaignEnvelope = Seq
     [Bol, Group 1 (Plus NonSpace), Plus Space, Plus NonSpace, Plus Space,
      Opt (Seq [Opt (Seq host_bracket), Opt (Seq (syslog_stamp @ [Plus HostChar, Plus Space]))]),
      OneOf [Lit ''postfix'', Lit ''haproxy''], Lit ''/'', Group 2 (OneOf [Lit ''postscreen'', Lit ''smtpd'']),
      Lit ''['', Plus Digit, Lit '']:'', Plus Space, Group 3 rest_of_line, Eol]"

definition bracketed_tuple :: "re list" where
  "bracketed_tuple = [Lit ''['', Group 1 (Plus (Not '']'')), Lit '']:'', Group 2 (Plus Digit)]"

definition blank :: re where
  "blank = In [CHR '' '', CHR 0x09]"

definition smtpCampaignConnect :: re where
  "smtpCampaignConnect = Seq ([Bol, OneOf [Lit ''CONNECT'', Lit ''connect''], Lit '' from '', Opt (Star (Not ''[''))] @ bracketed_tuple)"

definition smtpCampaignPregreet :: re where
  "smtpCampaignPregreet = Seq
     ([Bol, Lit ''PREGREET '', Plus Digit, Lit '' after '', Plus (Not '' ''), Lit '' from ''] @ bracketed_tuple @
      [Lit '':'', Star blank, Group 3 (Plus (Sym is_letter)),
       Opt (Cat (Plus blank) (Group 4 (Plus (Not [CHR 0x5C, CHR 0x0D, CHR 0x0A, CHR '' '', CHR 0x09]))))])"

definition smtpCampaignReject :: re where
  "smtpCampaignReject = Seq
     ([Bol, Lit ''NOQUEUE: reject: '', Plus (Sym is_upper), Lit '' from '', Opt (Star (Not ''[''))] @ bracketed_tuple @ [Lit '':''])"

definition envelope_field :: "string \<Rightarrow> re" where
  "envelope_field name = Seq
     [Or Bol (Cat (In '',;'') (Plus blank)), Lit name, Lit ''=<'', Group 1 (Star (Not ''>'')), Lit ''>'']"

definition smtpEnvelopeFrom :: re where "smtpEnvelopeFrom = envelope_field ''from''"
definition smtpEnvelopeTo :: re where "smtpEnvelopeTo = envelope_field ''to''"
definition smtpEnvelopeHELO :: re where "smtpEnvelopeHELO = envelope_field ''helo''"

definition boundedSMTPLogField :: "re \<Rightarrow> string \<Rightarrow> string option" where
  "boundedSMTPLogField pattern line =
     (case FindSubmatch pattern line of
        None \<Rightarrow> None
      | Some m \<Rightarrow>
          if length (group m 1) > 320 \<or> list_ex (\<lambda>c. c \<in> {CHR 0x0D, CHR 0x0A, CHR 0x00}) (group m 1) then None
          else Some (group m 1))"

text \<open>The sessions that are open, by client, those that are closed, and the malformed lines.\<close>

record evidence_reader =
  er_active :: "(string \<times> smtp_evidence) list"
  er_result :: "smtp_evidence list"
  er_malformed :: nat

definition flush :: "string \<Rightarrow> evidence_reader \<Rightarrow> evidence_reader" where
  "flush peer rd =
     (case map_of (er_active rd) peer of
        None \<Rightarrow> rd
      | Some item \<Rightarrow> rd\<lparr>er_result := er_result rd @ [item], er_active := AList.delete peer (er_active rd)\<rparr>)"

definition active_item :: "string \<Rightarrow> evidence_reader \<Rightarrow> smtp_evidence" where
  "active_item peer rd = (case map_of (er_active rd) peer of None \<Rightarrow> no_evidence | Some item \<Rightarrow> item)"

definition set_active :: "string \<Rightarrow> smtp_evidence \<Rightarrow> evidence_reader \<Rightarrow> evidence_reader" where
  "set_active peer item rd = rd\<lparr>er_active := AList.update peer item (er_active rd)\<rparr>"

definition malformed_line :: "evidence_reader \<Rightarrow> evidence_reader" where
  "malformed_line rd = rd\<lparr>er_malformed := er_malformed rd + 1\<rparr>"

text \<open>The three kinds of lines of a client \<open>peer\<close>.\<close>

definition on_connect :: "int \<Rightarrow> string \<Rightarrow> time \<Rightarrow> string \<Rightarrow> evidence_reader \<Rightarrow> evidence_reader" where
  "on_connect maxLifetime service at peer rd =
     (let item = active_item peer rd in
      if service = ''smtpd'' \<and> en_sawPostscreen item \<and> \<not> en_sawSMTPD item \<and>
         \<not> at < en_LastAt item \<and> at - en_LastAt item \<le> maxLifetime
      then set_active peer (item\<lparr>en_sawSMTPD := True, en_LastAt := at\<rparr>) rd
      else set_active peer (no_evidence\<lparr>en_Client := peer, en_Start := at, en_LastAt := at,
             en_sawPostscreen := (service = ''postscreen''), en_sawSMTPD := (service = ''smtpd'')\<rparr>) (flush peer rd))"

definition on_pregreet :: "int \<Rightarrow> time \<Rightarrow> string \<Rightarrow> string \<Rightarrow> string \<Rightarrow> evidence_reader \<Rightarrow> evidence_reader" where
  "on_pregreet maxLifetime at peer verb argument rd =
     (let item = active_item peer rd;
          stale = (en_Pregreet item \<or> (en_LastAt item \<noteq> 0 \<and> (at < en_LastAt item \<or> at - en_LastAt item > maxLifetime)));
          rd = (if stale then flush peer rd else rd);
          item = (if stale then no_evidence else item);
          item = (if en_Client item = [] then item\<lparr>en_Client := peer, en_Start := at\<rparr> else item);
          verb = canonicalSMTPVerb verb
      in set_active peer (item\<lparr>en_Pregreet := True, en_PregreetAt := at, en_LastAt := at, en_PregreetVerb := verb,
             en_PregreetEHLOUser := (verb = ''EHLO'' \<and> EqualFold argument ''user'')\<rparr>) rd)"

definition on_reject :: "int \<Rightarrow> time \<Rightarrow> string \<Rightarrow> string \<Rightarrow> evidence_reader \<Rightarrow> evidence_reader" where
  "on_reject maxLifetime at peer body rd =
     (let item = active_item peer rd;
          stale = (en_Client item = [] \<or> at < en_LastAt item \<or> at - en_LastAt item > maxLifetime);
          rd = (if stale then flush peer rd else rd);
          item = (if stale then no_evidence\<lparr>en_Client := peer, en_Start := at\<rparr> else item)
      in case (boundedSMTPLogField smtpEnvelopeFrom body, boundedSMTPLogField smtpEnvelopeTo body,
            boundedSMTPLogField smtpEnvelopeHELO body) of
           (Some sender, Some recipient, Some helo) \<Rightarrow>
             flush peer (set_active peer (item\<lparr>en_Rejected := True, en_RejectAt := at, en_LastAt := at,
                 en_EnvelopeFrom := sender, en_EnvelopeTo := recipient, en_HELO := helo\<rparr>) rd)
         | _ \<Rightarrow> malformed_line rd)"

definition campaign_body :: "int \<Rightarrow> evidence_reader \<Rightarrow> time \<Rightarrow> string \<Rightarrow> string \<Rightarrow> evidence_reader" where
  "campaign_body maxLifetime rd at service body =
     (case FindSubmatch smtpCampaignConnect body of
        Some m \<Rightarrow>
          (case canonicalClientTuple (group m 1) (group m 2) of
             None \<Rightarrow> malformed_line rd
           | Some peer \<Rightarrow> on_connect maxLifetime service at peer rd)
      | None \<Rightarrow>
     (case FindSubmatch smtpCampaignPregreet body of
        Some m \<Rightarrow>
          (case canonicalClientTuple (group m 1) (group m 2) of
             None \<Rightarrow> malformed_line rd
           | Some peer \<Rightarrow> on_pregreet maxLifetime at peer (group m 3) (group m 4) rd)
      | None \<Rightarrow>
     (case FindSubmatch smtpCampaignReject body of
        Some m \<Rightarrow>
          (case canonicalClientTuple (group m 1) (group m 2) of
             None \<Rightarrow> malformed_line rd
           | Some peer \<Rightarrow> on_reject maxLifetime at peer body rd)
      | None \<Rightarrow>
          if has_prefix body ''PREGREET '' \<or> has_prefix body ''NOQUEUE: reject:'' \<or>
             has_prefix body ''CONNECT from '' \<or> has_prefix body ''connect from ''
          then malformed_line rd else rd)))"

definition campaign_line :: "(string \<Rightarrow> time option) \<Rightarrow> int \<Rightarrow> evidence_reader \<Rightarrow> string \<Rightarrow> evidence_reader" where
  "campaign_line parse_time maxLifetime rd line =
     (case FindSubmatch smtpCampaignEnvelope line of
        None \<Rightarrow> rd
      | Some m \<Rightarrow>
          (case parse_time (group m 1) of
             None \<Rightarrow> malformed_line rd
           | Some at \<Rightarrow> campaign_body maxLifetime rd at (group m 2) (group m 3)))"

definition readSMTPCampaignEvidence ::
  "(string \<Rightarrow> time option) \<Rightarrow> batch_file option \<Rightarrow> int \<Rightarrow> batch_error + (smtp_evidence list \<times> nat)" where
  "readSMTPCampaignEvidence parse_time f maxLifetime =
     ebind (batch_lines f) (\<lambda>ls.
       let rd = foldl (campaign_line parse_time maxLifetime) \<lparr>er_active = [], er_result = [], er_malformed = 0\<rparr> ls;
           rd = foldl (\<lambda>rd k. flush k rd) rd (sort (map fst (er_active rd)))
       in Inr (er_result rd, er_malformed rd))"

section \<open>Network prefixes\<close>

record network_prefix =
  np_Prefix :: net_prefix
  np_Provider :: string

datatype prefix_error = PrefixFileFailed | InvalidPrefix string | InvalidProvider string

fun prefix_bits :: "net_prefix \<Rightarrow> nat" where
  "prefix_bits (Prefix4 p b) = b"
| "prefix_bits (Prefix6 p b) = b"

fun network_prefixes :: "(string \<times> string) list \<Rightarrow> prefix_error + network_prefix list" where
  "network_prefixes [] = Inr []"
| "network_prefixes ((text, label) # items) =
     (case ParsePrefix text of
        None \<Rightarrow> Inl (InvalidPrefix text)
      | Some p \<Rightarrow>
          if p \<noteq> Masked p then Inl (InvalidPrefix text)
          else
            (let provider = TrimSpace label in
             if provider = [] \<or> length provider > 64 \<or> list_ex (\<lambda>c. c \<in> {CHR 0x0D, CHR 0x0A, CHR 0x00}) provider
             then Inl (InvalidProvider text)
             else ebind (network_prefixes items) (\<lambda>ps. Inr (\<lparr>np_Prefix = p, np_Provider = provider\<rparr> # ps))))"

text \<open>
  The file: no path, a file that cannot be read or decoded, or its entries. \<open>sort.Slice\<close> is not
  stable, so the sorted list is whatever \<open>order\<close> makes of it.
\<close>

datatype prefix_input = NoPrefixFile | BadPrefixFile | PrefixEntries "(string \<times> string) list"

definition readSMTPNetworkPrefixes ::
  "(network_prefix list \<Rightarrow> network_prefix list) \<Rightarrow> prefix_input \<Rightarrow> prefix_error + network_prefix list" where
  "readSMTPNetworkPrefixes order f =
     (case f of
        NoPrefixFile \<Rightarrow> Inr []
      | BadPrefixFile \<Rightarrow> Inl PrefixFileFailed
      | PrefixEntries es \<Rightarrow> ebind (network_prefixes es) (\<lambda>ps. Inr (order ps)))"

fun matchSMTPNetworkPrefix :: "network_prefix list \<Rightarrow> addr \<Rightarrow> string \<times> string" where
  "matchSMTPNetworkPrefix [] a = ([], [])"
| "matchSMTPNetworkPrefix (p # ps) a =
     (if prefix_contains (np_Prefix p) a then (Prefix_String (np_Prefix p), np_Provider p)
      else matchSMTPNetworkPrefix ps a)"

section \<open>The report\<close>

datatype campaign_error =
    CampaignInstanceRequired
  | CampaignListenerInvalid
  | CampaignLifetimeOutOfRange
  | CampaignToleranceOutOfRange
  | CampaignBatch batch_error
  | CampaignPrefixes prefix_error

text \<open>
  What the run is given besides its parameters. \<open>cm_sort\<close> is the final \<open>sort.Slice\<close>, which
  leaves open how it orders records with the same time and client.
\<close>

record campaign_env =
  cm_events :: "batch_file option"
  cm_event :: "string \<Rightarrow> (smtp_event \<times> string) option"
  cm_postfix :: "batch_file option"
  cm_time :: "string \<Rightarrow> time option"
  cm_prefixes :: prefix_input
  cm_order :: "network_prefix list \<Rightarrow> network_prefix list"
  cm_lower :: "string \<Rightarrow> string"
  cm_sort :: "smtp_campaign_record list \<Rightarrow> smtp_campaign_record list"

text \<open>The connections that are kept, the events found malformed and the connections excluded.\<close>

fun campaign_connections ::
  "net_prefix list \<Rightarrow> string \<Rightarrow> string \<Rightarrow> smtp_conn_record list \<Rightarrow> smtp_conn_record list \<times> nat \<times> nat" where
  "campaign_connections exclude inst listener [] = ([], 0, 0)"
| "campaign_connections exclude inst listener (c # cs) =
     (case campaign_connections exclude inst listener cs of (kept, bad, excl) \<Rightarrow>
       if cr_Instance c \<noteq> inst \<or> cr_Listener c \<noteq> listener then (kept, bad, excl)
       else (case SplitHostPort (cr_Client c) of
           None \<Rightarrow> (kept, bad + 1, excl)
         | Some (host, port) \<Rightarrow>
             (case canonicalClientTuple host port of
                None \<Rightarrow> (kept, bad + 1, excl)
              | Some peer \<Rightarrow>
                  if excludesClient exclude peer then (kept, bad, excl + 1)
                  else if cr_Behavior c \<noteq> None \<and> \<not> validSMTPBehavior (cr_Behavior c)
                  then (c\<lparr>cr_Client := peer, cr_Behavior := None\<rparr> # kept, bad + 1, excl)
                  else (c\<lparr>cr_Client := peer\<rparr> # kept, bad, excl))))"

definition evidence_network :: "network_prefix list \<Rightarrow> string \<Rightarrow> string \<times> string" where
  "evidence_network nets peer =
     (case SplitHostPort peer of
        None \<Rightarrow> ([], [])
      | Some (host, _) \<Rightarrow> (case ParseAddr host of None \<Rightarrow> ([], []) | Some a \<Rightarrow> matchSMTPNetworkPrefix nets a))"

definition recipient_cluster :: "(string \<Rightarrow> string) \<Rightarrow> string \<Rightarrow> string" where
  "recipient_cluster lower recipient =
     (let mbox = normalizeMailbox lower recipient in if mbox = [] then [] else smtpValueHash mbox)"

text \<open>The record of one session, and the connection it was attributed to.\<close>

definition campaign_record ::
  "(string \<Rightarrow> string) \<Rightarrow> network_prefix list \<Rightarrow> int \<Rightarrow> int \<Rightarrow> smtp_conn_record list \<Rightarrow> smtp_evidence \<Rightarrow>
     smtp_campaign_record \<times> string option" where
  "campaign_record lower nets maxLifetime tolerance conns item =
     (let network = evidence_network nets (en_Client item);
          r = \<lparr>cp_Timestamp = evidenceTime item, cp_Client = en_Client item, cp_ConnectionID = [], cp_BehaviorFingerprint = [],
            cp_Signature = [], cp_Reason = ''no_exact_connection'', cp_Provider = snd network, cp_NetworkPrefix = fst network,
            cp_RecipientCluster = recipient_cluster lower (en_EnvelopeTo item)\<rparr>
      in case matchingSMTPConnections (filter (\<lambda>c. cr_Client c = en_Client item) conns) item maxLifetime tolerance of
           [] \<Rightarrow> (r, None)
         | [c] \<Rightarrow>
             (r\<lparr>cp_ConnectionID := cr_ID c,
                cp_BehaviorFingerprint := (case cr_Behavior c of None \<Rightarrow> [] | Some b \<Rightarrow> bh_Fingerprint b),
                cp_Signature := fst (classifySMTPCampaignSignature (cr_Behavior c) item),
                cp_Reason := snd (classifySMTPCampaignSignature (cr_Behavior c) item)\<rparr>, Some (cr_ID c))
         | _ \<Rightarrow> (r\<lparr>cp_Reason := ''ambiguous_exact_connection''\<rparr>, None))"

record campaign_state =
  ct_records :: "smtp_campaign_record list"
  ct_seen :: "string list"
  ct_matched :: nat
  ct_unmatched :: nat

definition campaign_step ::
  "(smtp_evidence \<Rightarrow> smtp_campaign_record \<times> string option) \<Rightarrow> campaign_state \<Rightarrow> smtp_evidence \<Rightarrow> campaign_state" where
  "campaign_step judge st item =
     (case judge item of (r, attributed) \<Rightarrow>
       \<lparr>ct_records = ct_records st @ [r],
        ct_seen = (case attributed of None \<Rightarrow> ct_seen st | Some i \<Rightarrow> i # ct_seen st),
        ct_matched = ct_matched st + (if attributed \<noteq> None \<and> cp_Reason r = ''matched'' then 1 else 0),
        ct_unmatched = ct_unmatched st + (if attributed \<noteq> None \<and> cp_Reason r = ''matched'' then 0 else 1)\<rparr>)"

definition campaign_report ::
  "campaign_env \<Rightarrow> string \<Rightarrow> string \<Rightarrow> int \<Rightarrow> int \<Rightarrow> smtp_conn_record list \<Rightarrow> smtp_evidence list \<Rightarrow> network_prefix list \<Rightarrow>
     nat \<Rightarrow> nat \<Rightarrow> smtp_campaign_report" where
  "campaign_report env inst listener maxLifetime tolerance conns evidence nets malformedEvents malformedLogs =
     (let st = foldl (campaign_step (campaign_record (cm_lower env) nets maxLifetime tolerance conns))
            \<lparr>ct_records = [], ct_seen = [], ct_matched = 0, ct_unmatched = 0\<rparr> evidence
      in \<lparr>cg_Schema = smtpCampaignReportSchema, cg_Instance = inst, cg_Listener = listener,
          cg_Signature = pregreetSupportSignature,
          cg_Signatures = [pregreetSupportSignature, pregreetEHLOUserSignature],
          cg_Connections = int (length conns), cg_EvidenceSessions = int (length evidence),
          cg_Matched = int (ct_matched st), cg_Unmatched = int (ct_unmatched st),
          cg_ConnectionsWithoutEvidence = int (length (filter (\<lambda>c. cr_ID c \<notin> set (ct_seen st)) conns)),
          cg_MalformedEvents = int malformedEvents, cg_MalformedLogLines = int malformedLogs,
          cg_Records = cm_sort env (ct_records st)\<rparr>)"

definition runSMTPCampaignClassificationExcluding ::
  "campaign_env \<Rightarrow> string \<Rightarrow> string \<Rightarrow> int \<Rightarrow> int \<Rightarrow> net_prefix list \<Rightarrow>
     campaign_error + (smtp_campaign_report \<times> nat \<times> nat)" where
  "runSMTPCampaignClassificationExcluding env inst listener maxLifetime tolerance exclude =
     (if TrimSpace inst = [] then Inl CampaignInstanceRequired
      else if SplitHostPort listener = None then Inl CampaignListenerInvalid
      else if maxLifetime \<le> 0 \<or> maxLifetime > 3600 * second then Inl CampaignLifetimeOutOfRange
      else if tolerance < 0 \<or> tolerance > 60 * second then Inl CampaignToleranceOutOfRange
      else (case readSMTPConnectionsStats (cm_event env) (cm_events env) of
          Inl e \<Rightarrow> Inl (CampaignBatch e)
        | Inr (connections, malformed) \<Rightarrow>
            (case campaign_connections exclude inst listener connections of (conns, bad, excludedConns) \<Rightarrow>
              (case readSMTPCampaignEvidence (cm_time env) (cm_postfix env) maxLifetime of
                 Inl e \<Rightarrow> Inl (CampaignBatch e)
               | Inr (evidence, malformedLogs) \<Rightarrow>
                   (let kept = filter (\<lambda>e. \<not> excludesClient exclude (en_Client e)) evidence in
                    case readSMTPNetworkPrefixes (cm_order env) (cm_prefixes env) of
                      Inl e \<Rightarrow> Inl (CampaignPrefixes e)
                    | Inr nets \<Rightarrow>
                        Inr (campaign_report env inst listener maxLifetime tolerance conns kept nets
                            (malformed + bad) malformedLogs,
                          excludedConns, length evidence - length kept))))))"

section \<open>What the evidence is\<close>

text \<open>
  A client, with a zone or without, and a session, with a zero time or without: the flags say whether
  \<open>zones\<close> and \<open>zeros\<close> are allowed.
\<close>

definition tuple_ok :: "bool \<Rightarrow> string \<Rightarrow> bool" where
  "tuple_ok zones peer \<longleftrightarrow> (\<exists>a n. (zones \<or> addr_zone a = []) \<and> n < 2 ^ 16 \<and> peer = JoinHostPort (Addr_String a) (itoa n))"

lemma ParseAddr_zone: "ParseAddr s = Some a \<Longrightarrow> CHR ''%'' \<notin> set s \<Longrightarrow> addr_zone a = []"
  by (auto simp: ParseAddr_def parse_ipv6_def cut_char_none split: list.splits if_splits option.splits prod.splits)

lemma canonicalClientTuple_ok: "canonicalClientTuple host port = Some peer \<Longrightarrow> zones \<or> CHR ''%'' \<notin> set host \<Longrightarrow> tuple_ok zones peer"
  unfolding canonicalClientTuple_def tuple_ok_def
  by (auto simp: parse_uint_def split: option.splits if_splits dest!: ParseAddr_zone intro!: exI)

lemma tuple_ok_nonempty: "tuple_ok zones peer \<Longrightarrow> peer \<noteq> []"
  by (auto simp: tuple_ok_def JoinHostPort_def split: if_splits)

text \<open>A printed client without a percent sign has no zone, so it is short and an endpoint.\<close>

lemma tuple_ok_no_percent: "tuple_ok zones peer \<Longrightarrow> CHR ''%'' \<notin> set peer \<Longrightarrow> tuple_ok False peer"
  unfolding tuple_ok_def
proof (elim exE conjE)
  fix a n
  assume a: "CHR ''%'' \<notin> set peer" "n < 2 ^ 16" "peer = JoinHostPort (Addr_String a) (itoa n)"
  then have "CHR ''%'' \<notin> set (Addr_String a)" by (auto simp: JoinHostPort_def split: if_splits)
  then have "addr_zone a = []" by (cases a) (auto split: if_splits)
  then show "\<exists>a n. (False \<or> addr_zone a = []) \<and> n < 2 ^ 16 \<and> peer = JoinHostPort (Addr_String a) (itoa n)" using a by blast
qed

lemma tuple_ok_bounds:
  assumes "tuple_ok zones peer" "zones \<Longrightarrow> CHR ''%'' \<notin> set peer"
  shows "length peer \<le> 256" "SplitHostPort peer \<noteq> None"
proof -
  have "tuple_ok False peer" using assms tuple_ok_no_percent by (cases zones) auto
  then obtain a n where an: "addr_zone a = []" "n < 2 ^ 16" "peer = JoinHostPort (Addr_String a) (itoa n)"
    by (auto simp: tuple_ok_def)
  have "length (Addr_String a) \<le> 41" using length_Addr_String [of a] an(1) by simp
  moreover have "length (itoa n) \<le> 5" by (rule length_itoa) (use an(2) in simp_all)
  ultimately show "length peer \<le> 256" by (simp add: an(3) JoinHostPort_def)
  have no: "c \<notin> set (Addr_String a)" if "c = CHR ''['' \<or> c = CHR '']''" for c
    using set_Addr_String [of c a] that by (auto simp: an(1) addr_char_def is_hex_lower_def is_digit_def)
  have "\<not> is_digit (CHR ''['')" "\<not> is_digit (CHR '']'')" "\<not> is_digit (CHR '':'')" by (simp_all add: is_digit_def)
  then have "SplitHostPort peer = Some (Addr_String a, itoa n)"
    unfolding an(3) using no by (intro SplitHostPort_JoinHostPort) auto
  then show "SplitHostPort peer \<noteq> None" by simp
qed

definition evidence_ok :: "bool \<Rightarrow> bool \<Rightarrow> smtp_evidence \<Rightarrow> bool" where
  "evidence_ok zones zeros e \<longleftrightarrow> tuple_ok zones (en_Client e) \<and> (zeros \<or> en_Start e \<noteq> 0)"

definition reader_ok :: "bool \<Rightarrow> bool \<Rightarrow> evidence_reader \<Rightarrow> bool" where
  "reader_ok zones zeros rd \<longleftrightarrow> (\<forall>e \<in> set (er_result rd). evidence_ok zones zeros e) \<and>
     (\<forall>k e. map_of (er_active rd) k = Some e \<longrightarrow> evidence_ok zones zeros e \<and> en_Client e = k)"

lemma reader_ok_malformed [simp]: "reader_ok zones zeros (malformed_line rd) = reader_ok zones zeros rd"
  by (simp add: reader_ok_def malformed_line_def)

lemma reader_ok_flush: "reader_ok zones zeros rd \<Longrightarrow> reader_ok zones zeros (flush peer rd)"
  by (auto simp: reader_ok_def flush_def delete_conv' split: option.splits if_splits)

lemma reader_ok_set: "reader_ok zones zeros rd \<Longrightarrow> evidence_ok zones zeros e \<Longrightarrow> en_Client e = peer \<Longrightarrow> reader_ok zones zeros (set_active peer e rd)"
  by (auto simp: reader_ok_def set_active_def update_conv' split: if_splits)

lemma active_item_cases:
  assumes "reader_ok zones zeros rd"
  obtains (none) "active_item peer rd = no_evidence" | (found) "evidence_ok zones zeros (active_item peer rd)" "en_Client (active_item peer rd) = peer"
  using assms by (cases "map_of (er_active rd) peer") (auto simp: active_item_def reader_ok_def)

lemma evidence_ok_update [simp]:
  "evidence_ok zones zeros (e\<lparr>en_sawSMTPD := b, en_LastAt := t\<rparr>) = evidence_ok zones zeros e"
  "evidence_ok zones zeros (e\<lparr>en_Pregreet := b, en_PregreetAt := t, en_LastAt := t, en_PregreetVerb := v, en_PregreetEHLOUser := u\<rparr>) = evidence_ok zones zeros e"
  "evidence_ok zones zeros (e\<lparr>en_Rejected := b, en_RejectAt := t, en_LastAt := t, en_EnvelopeFrom := x, en_EnvelopeTo := y, en_HELO := z\<rparr>) = evidence_ok zones zeros e"
  by (simp_all add: evidence_ok_def)

lemma no_evidence_client [simp]: "en_Client no_evidence = []" "en_sawPostscreen no_evidence = False" "en_Pregreet no_evidence = False" "en_LastAt no_evidence = 0"
  by (simp_all add: no_evidence_def)

lemma on_connect_ok:
  assumes "reader_ok zones zeros rd" "tuple_ok zones peer" "zeros \<or> at \<noteq> 0"
  shows "reader_ok zones zeros (on_connect maxLifetime service at peer rd)"
proof -
  have new: "reader_ok zones zeros (set_active peer (no_evidence\<lparr>en_Client := peer, en_Start := at, en_LastAt := at,
             en_sawPostscreen := x, en_sawSMTPD := y\<rparr>) (flush peer rd))" for x y
    by (rule reader_ok_set) (use assms in \<open>simp_all add: reader_ok_flush evidence_ok_def\<close>)
  show ?thesis
    using assms(1)
  proof (cases rule: active_item_cases [of zones zeros rd peer])
    case none
    then show ?thesis using new by (simp add: on_connect_def)
  next
    case found
    have "reader_ok zones zeros (set_active peer ((active_item peer rd)\<lparr>en_sawSMTPD := True, en_LastAt := at\<rparr>) rd)"
      by (rule reader_ok_set) (use assms found in simp_all)
    then show ?thesis using new by (simp add: on_connect_def Let_def)
  qed
qed

lemma on_pregreet_ok:
  assumes "reader_ok zones zeros rd" "tuple_ok zones peer" "zeros \<or> at \<noteq> 0"
  shows "reader_ok zones zeros (on_pregreet maxLifetime at peer verb argument rd)"
proof -
  let ?item = "active_item peer rd"
  define stale where "stale = (en_Pregreet ?item \<or> (en_LastAt ?item \<noteq> 0 \<and> (at < en_LastAt ?item \<or> at - en_LastAt ?item > maxLifetime)))"
  define rd1 where "rd1 = (if stale then flush peer rd else rd)"
  define item1 where "item1 = (if stale then no_evidence else ?item)"
  define item2 where "item2 = (if en_Client item1 = [] then item1\<lparr>en_Client := peer, en_Start := at\<rparr> else item1)"
  have rd1: "reader_ok zones zeros rd1" using assms(1) by (simp add: rd1_def reader_ok_flush)
  have ne: "peer \<noteq> []" using tuple_ok_nonempty [OF assms(2)] .
  have "evidence_ok zones zeros item2 \<and> en_Client item2 = peer"
    using assms(1)
  proof (cases rule: active_item_cases [of zones zeros rd peer])
    case none
    then show ?thesis using assms by (simp add: item2_def item1_def evidence_ok_def)
  next
    case found
    then show ?thesis using assms ne by (simp add: item2_def item1_def evidence_ok_def)
  qed
  then show ?thesis
    unfolding on_pregreet_def Let_def stale_def [symmetric] rd1_def [symmetric] item1_def [symmetric] item2_def [symmetric]
    using rd1 by (intro reader_ok_set) simp_all
qed

lemma on_reject_ok:
  assumes "reader_ok zones zeros rd" "tuple_ok zones peer" "zeros \<or> at \<noteq> 0"
  shows "reader_ok zones zeros (on_reject maxLifetime at peer body rd)"
proof -
  let ?item = "active_item peer rd"
  define stale where "stale = (en_Client ?item = [] \<or> at < en_LastAt ?item \<or> at - en_LastAt ?item > maxLifetime)"
  define rd1 where "rd1 = (if stale then flush peer rd else rd)"
  define item1 where "item1 = (if stale then no_evidence\<lparr>en_Client := peer, en_Start := at\<rparr> else ?item)"
  have rd1: "reader_ok zones zeros rd1" using assms(1) by (simp add: rd1_def reader_ok_flush)
  have "evidence_ok zones zeros item1 \<and> en_Client item1 = peer"
    using assms(1)
  proof (cases rule: active_item_cases [of zones zeros rd peer])
    case none
    then show ?thesis using assms by (simp add: item1_def stale_def evidence_ok_def)
  next
    case found
    then show ?thesis using assms by (simp add: item1_def evidence_ok_def)
  qed
  then have "reader_ok zones zeros (flush peer (set_active peer (item1\<lparr>en_Rejected := True, en_RejectAt := at, en_LastAt := at,
      en_EnvelopeFrom := x, en_EnvelopeTo := y, en_HELO := z\<rparr>) rd1))" for x y z
    using rd1 by (intro reader_ok_flush reader_ok_set) simp_all
  then show ?thesis
    unfolding on_reject_def Let_def stale_def [symmetric] rd1_def [symmetric] item1_def [symmetric]
    using rd1 by (auto split: option.splits)
qed

lemma campaign_body_ok:
  assumes "reader_ok zones zeros rd" "zeros \<or> at \<noteq> 0" "zones \<or> CHR ''%'' \<notin> set body"
  shows "reader_ok zones zeros (campaign_body maxLifetime rd at service body)"
proof -
  have client: "tuple_ok zones peer" if "FindSubmatch r body = Some m" "canonicalClientTuple (group m 1) (group m 2) = Some peer" for r m peer
    using canonicalClientTuple_ok [OF that(2)] group_chars [OF that(1), of 1] assms(3) by blast
  note ok = on_connect_ok [OF assms(1) _ assms(2)] on_pregreet_ok [OF assms(1) _ assms(2)] on_reject_ok [OF assms(1) _ assms(2)]
  show ?thesis
    unfolding campaign_body_def using assms(1) client ok by (simp split: option.split)
qed

lemma campaign_line_ok:
  assumes "reader_ok zones zeros rd" "\<And>t. zeros \<or> parse_time t \<noteq> Some 0" "zones \<or> CHR ''%'' \<notin> set line"
  shows "reader_ok zones zeros (campaign_line parse_time maxLifetime rd line)"
proof (cases "FindSubmatch smtpCampaignEnvelope line")
  case None
  then show ?thesis using assms(1) by (simp add: campaign_line_def)
next
  case (Some m)
  then have "zones \<or> CHR ''%'' \<notin> set (group m 3)" using group_chars [OF Some, of 3] assms(3) by blast
  then have "reader_ok zones zeros (campaign_body maxLifetime rd at (group m 2) (group m 3))" if "parse_time (group m 1) = Some at" for at
    by (rule campaign_body_ok [OF assms(1), rotated]) (use assms(2) [of "group m 1"] that in auto)
  then show ?thesis using Some assms(1) by (simp add: campaign_line_def split: option.split)
qed

lemma campaign_lines_ok:
  "reader_ok zones zeros rd \<Longrightarrow> (\<And>t. zeros \<or> parse_time t \<noteq> Some 0) \<Longrightarrow> (\<And>l. l \<in> set ls \<Longrightarrow> zones \<or> CHR ''%'' \<notin> set l) \<Longrightarrow>
   reader_ok zones zeros (foldl (campaign_line parse_time maxLifetime) rd ls)"
  by (induction ls arbitrary: rd) (simp_all add: campaign_line_ok)

lemma flush_all_ok: "reader_ok zones zeros rd \<Longrightarrow> reader_ok zones zeros (foldl (\<lambda>rd k. flush k rd) rd ks)"
  by (induction ks arbitrary: rd) (simp_all add: reader_ok_flush)

lemma campaign_evidence_ok:
  assumes "readSMTPCampaignEvidence parse_time f maxLifetime = Inr (evidence, bad)"
    "\<And>t. zeros \<or> parse_time t \<noteq> Some 0" "\<And>ls l. batch_lines f = Inr ls \<Longrightarrow> l \<in> set ls \<Longrightarrow> zones \<or> CHR ''%'' \<notin> set l"
    "e \<in> set evidence"
  shows "evidence_ok zones zeros e"
proof -
  obtain ls where ls: "batch_lines f = Inr ls"
    using assms(1) by (cases "batch_lines f") (auto simp: readSMTPCampaignEvidence_def)
  let ?rd = "foldl (campaign_line parse_time maxLifetime) \<lparr>er_active = [], er_result = [], er_malformed = 0\<rparr> ls"
  have "reader_ok zones zeros \<lparr>er_active = [], er_result = [], er_malformed = 0\<rparr>" by (simp add: reader_ok_def)
  then have "reader_ok zones zeros ?rd" by (rule campaign_lines_ok) (use assms ls in auto)
  then have "reader_ok zones zeros (foldl (\<lambda>rd k. flush k rd) ?rd (sort (map fst (er_active ?rd))))" by (rule flush_all_ok)
  then show ?thesis using assms(1,4) ls by (auto simp: readSMTPCampaignEvidence_def Let_def reader_ok_def)
qed

lemma evidenceTime_nonzero: "evidence_ok zones False e \<Longrightarrow> evidenceTime e \<noteq> 0"
  by (auto simp: evidence_ok_def evidenceTime_def)

text \<open>A record is within the bounds of the report.\<close>

lemma matchSMTPNetworkPrefix_found:
  "matchSMTPNetworkPrefix nets a = (s, p) \<Longrightarrow> (s, p) = ([], []) \<or> (\<exists>n \<in> set nets. s = Prefix_String (np_Prefix n) \<and> p = np_Provider n)"
  by (induction nets a rule: matchSMTPNetworkPrefix.induct) (auto split: if_splits)

lemma length_smtpValueHash [simp]: "length (smtpValueHash s) = 71"
  by (simp add: smtpValueHash_def)

lemma length_smtpBehaviorFingerprint: "length (smtpBehaviorFingerprint b) = 81"
  by (simp add: smtpBehaviorFingerprint_def)

lemma validSMTPBehavior_fingerprint: "validSMTPBehavior (Some b) \<Longrightarrow> bh_Fingerprint b = smtpBehaviorFingerprint b"
  by (simp add: validSMTPBehavior_def Let_def split: if_splits)

lemma classify_signature:
  "fst (classifySMTPCampaignSignature b ev) \<in> {[], pregreetSupportSignature, pregreetEHLOUserSignature}"
  "length (snd (classifySMTPCampaignSignature b ev)) \<le> 128"
  by (simp_all add: classifySMTPCampaignSignature_def split: option.split prod.split)

lemma length_Prefix_String:
  assumes "prefix_bits p < 1000"
  shows "length (Prefix_String p) \<le> 45"
proof -
  obtain a where a: "addr_zone a = []" "length (Prefix_String p) = length (Addr_String a) + 1 + length (itoa (prefix_bits p))"
    by (cases p) (use that [of "Addr4 _"] that [of "Addr6 _ []"] in \<open>simp_all del: Addr_String.simps\<close>)
  moreover have "length (itoa (prefix_bits p)) \<le> 3" by (rule length_itoa) (use assms in simp_all)
  moreover have "length (Addr_String a) \<le> 41" using length_Addr_String [of a] a(1) by simp
  ultimately show ?thesis by linarith
qed

definition network_ok :: "network_prefix \<Rightarrow> bool" where
  "network_ok n \<longleftrightarrow> prefix_bits (np_Prefix n) < 1000 \<and> length (np_Provider n) \<le> 64"

lemma ParsePrefix_bits: "ParsePrefix s = Some p \<Longrightarrow> prefix_bits p < 1000"
  by (auto simp: ParsePrefix_def parse_bits_def split: option.splits addr.splits if_splits prod.splits)

lemma network_prefixes_ok: "network_prefixes es = Inr ns \<Longrightarrow> n \<in> set ns \<Longrightarrow> network_ok n"
proof (induction es arbitrary: ns rule: network_prefixes.induct)
  case 1
  then show ?case by simp
next
  case (2 cidr label items)
  then obtain p where p: "ParsePrefix cidr = Some p" "p = Masked p" by (auto split: option.splits if_splits)
  with "2.prems"(1) obtain ns' where ns': "network_prefixes items = Inr ns'" "length (TrimSpace label) \<le> 64"
    "ns = \<lparr>np_Prefix = p, np_Provider = TrimSpace label\<rparr> # ns'"
    by (cases "network_prefixes items") (auto simp: Let_def split: if_splits)
  then show ?case using "2.IH" [OF p(1) _ refl _ ns'(1)] "2.prems" p ParsePrefix_bits [OF p(1)]
    by (auto simp: network_ok_def Let_def split: if_splits)
qed

section \<open>What a record is\<close>

definition conn_ok :: "smtp_conn_record list \<Rightarrow> smtp_conn_record \<Rightarrow> bool" where
  "conn_ok cs c \<longleftrightarrow> cr_ID c \<in> cr_ID ` set cs \<and> (cr_Behavior c \<noteq> None \<longrightarrow> validSMTPBehavior (cr_Behavior c))"

lemma campaign_connections_ok:
  "campaign_connections exclude inst listener cs = (kept, bad, excl) \<Longrightarrow> c \<in> set kept \<Longrightarrow> conn_ok cs c"
proof (induction exclude inst listener cs arbitrary: kept bad excl rule: campaign_connections.induct)
  case (1 exclude inst listener)
  then show ?case by simp
next
  case (2 exclude inst listener d cs)
  obtain kept' bad' excl' where rec: "campaign_connections exclude inst listener cs = (kept', bad', excl')"
    by (metis prod_cases3)
  from 2(1) [OF rec] have IH: "c \<in> set kept' \<Longrightarrow> conn_ok cs c" .
  have "c \<in> set kept' \<or> (\<exists>peer. c = d\<lparr>cr_Client := peer, cr_Behavior := None\<rparr>) \<or>
      (\<exists>peer. c = d\<lparr>cr_Client := peer\<rparr> \<and> \<not> (cr_Behavior d \<noteq> None \<and> \<not> validSMTPBehavior (cr_Behavior d)))"
    using "2.prems" rec by (simp split: option.splits prod.splits if_splits) auto
  then show ?case using IH by (auto simp: conn_ok_def)
qed

text \<open>
  A record of a run: its client is a printed address, its connection id one of the given ids or
  empty, and every other text is short.
\<close>

definition record_ok :: "bool \<Rightarrow> bool \<Rightarrow> string set \<Rightarrow> smtp_campaign_record \<Rightarrow> bool" where
  "record_ok zones zeros ids r \<longleftrightarrow> (zeros \<or> cp_Timestamp r \<noteq> 0) \<and> tuple_ok zones (cp_Client r) \<and>
     cp_ConnectionID r \<in> insert [] ids \<and> length (cp_BehaviorFingerprint r) \<le> 128 \<and> length (cp_Reason r) \<le> 128 \<and>
     length (cp_Provider r) \<le> 128 \<and> length (cp_NetworkPrefix r) \<le> 128 \<and> length (cp_RecipientCluster r) \<le> 128 \<and>
     cp_Signature r \<in> {[], pregreetSupportSignature, pregreetEHLOUserSignature}"

lemma evidence_network_ok:
  assumes "\<And>n. n \<in> set nets \<Longrightarrow> network_ok n"
  shows "length (fst (evidence_network nets peer)) \<le> 128" "length (snd (evidence_network nets peer)) \<le> 128"
proof -
  have found: "length (fst (matchSMTPNetworkPrefix nets a)) \<le> 128 \<and> length (snd (matchSMTPNetworkPrefix nets a)) \<le> 128" for a
  proof -
    obtain s p where sp: "matchSMTPNetworkPrefix nets a = (s, p)" by fastforce
    from matchSMTPNetworkPrefix_found [OF sp] show ?thesis
    proof
      assume "\<exists>n \<in> set nets. s = Prefix_String (np_Prefix n) \<and> p = np_Provider n"
      then obtain n where "n \<in> set nets" "s = Prefix_String (np_Prefix n)" "p = np_Provider n" by blast
      with assms [of n] length_Prefix_String [of "np_Prefix n"] show ?thesis by (simp add: sp network_ok_def)
    qed (simp add: sp)
  qed
  then show "length (fst (evidence_network nets peer)) \<le> 128" "length (snd (evidence_network nets peer)) \<le> 128"
    by (simp_all add: evidence_network_def split: option.split)
qed

lemma length_fingerprint_conn: "conn_ok cs c \<Longrightarrow> cr_Behavior c = Some b \<Longrightarrow> length (bh_Fingerprint b) \<le> 128"
  using validSMTPBehavior_fingerprint [of b] by (simp add: conn_ok_def length_smtpBehaviorFingerprint)

lemma campaign_record_ok:
  assumes "evidence_ok zones zeros item" "\<And>n. n \<in> set nets \<Longrightarrow> network_ok n" "\<And>c. c \<in> set conns \<Longrightarrow> conn_ok all c"
  shows "record_ok zones zeros (cr_ID ` set all) (fst (campaign_record lower nets maxLifetime tolerance conns item))"
proof -
  let ?hits = "matchingSMTPConnections (filter (\<lambda>c. cr_Client c = en_Client item) conns) item maxLifetime tolerance"
  have client: "tuple_ok zones (en_Client item)" using assms(1) by (simp add: evidence_ok_def)
  have at: "zeros \<or> evidenceTime item \<noteq> 0" using assms(1) evidenceTime_nonzero [of zones item] by (cases zeros) auto
  have cluster: "length (recipient_cluster lower t) \<le> 128" for t by (simp add: recipient_cluster_def Let_def)
  have network: "length (fst (evidence_network nets peer)) \<le> 128" "length (snd (evidence_network nets peer)) \<le> 128" for peer
    using evidence_network_ok [of nets] assms(2) by blast+
  note base = client cluster network at
  have hit: "conn_ok all c" if "?hits = c # cs" for c cs
  proof -
    have "c \<in> set ?hits" using that by simp
    then show ?thesis using assms(3) by (auto simp: matchingSMTPConnections_def)
  qed
  show ?thesis
  proof (cases "?hits")
    case Nil
    then show ?thesis using base by (simp add: campaign_record_def Let_def record_ok_def)
  next
    case (Cons c cs)
    then have c: "conn_ok all c" by (rule hit)
    show ?thesis
    proof (cases cs)
      case Nil
      have "length (case cr_Behavior c of None \<Rightarrow> [] | Some b \<Rightarrow> bh_Fingerprint b) \<le> 128"
        using length_fingerprint_conn [OF c] by (simp split: option.split)
      with Cons Nil base c show ?thesis
        using classify_signature [of "cr_Behavior c" item] by (simp add: campaign_record_def Let_def record_ok_def conn_ok_def)
    next
      case (Cons d ds)
      with \<open>?hits = c # cs\<close> base show ?thesis by (simp add: campaign_record_def Let_def record_ok_def)
    qed
  qed
qed

text \<open>The fold over the sessions.\<close>

lemma campaign_fold:
  assumes "foldl (campaign_step judge) st items = st'"
  shows "ct_records st' = ct_records st @ map (fst \<circ> judge) items"
    and "ct_matched st' + ct_unmatched st' = ct_matched st + ct_unmatched st + length items"
    and "set (ct_seen st') = set (ct_seen st) \<union> {i. \<exists>e \<in> set items. snd (judge e) = Some i}"
  using assms
  by (induction items arbitrary: st) (auto simp: campaign_step_def split: prod.splits option.splits)

section \<open>Which connections and sessions a record stands for\<close>

definition conn_tuple :: "smtp_conn_record \<Rightarrow> string option" where
  "conn_tuple c = (case SplitHostPort (cr_Client c) of None \<Rightarrow> None | Some (host, port) \<Rightarrow> canonicalClientTuple host port)"

text \<open>A connection as it is kept: with its canonical client, without a behaviour that is not valid.\<close>

definition valid_behavior :: "smtp_behavior option \<Rightarrow> smtp_behavior option" where
  "valid_behavior b = (if validSMTPBehavior b then b else None)"

definition kept_conn :: "net_prefix list \<Rightarrow> string \<Rightarrow> string \<Rightarrow> smtp_conn_record \<Rightarrow> smtp_conn_record option" where
  "kept_conn exclude inst listener c =
     (if cr_Instance c \<noteq> inst \<or> cr_Listener c \<noteq> listener then None
      else (case conn_tuple c of
          None \<Rightarrow> None
        | Some peer \<Rightarrow>
            if excludesClient exclude peer then None
            else Some (c\<lparr>cr_Client := peer, cr_Behavior := valid_behavior (cr_Behavior c)\<rparr>)))"

lemma campaign_connections_kept:
  "fst (campaign_connections exclude inst listener cs) = List.map_filter (kept_conn exclude inst listener) cs"
proof (induction cs)
  case Nil
  then show ?case by simp
next
  case (Cons c cs)
  have same: "c\<lparr>cr_Client := peer, cr_Behavior := cr_Behavior c\<rparr> = c\<lparr>cr_Client := peer\<rparr>" for peer
    by (cases c) simp
  have beh: "valid_behavior (cr_Behavior c) = (if cr_Behavior c \<noteq> None \<and> \<not> validSMTPBehavior (cr_Behavior c) then None else cr_Behavior c)"
    by (cases "cr_Behavior c") (simp_all add: valid_behavior_def validSMTPBehavior_def)
  obtain kept bad excl where rec: "campaign_connections exclude inst listener cs = (kept, bad, excl)"
    by (metis prod_cases3)
  with Cons have kept: "kept = List.map_filter (kept_conn exclude inst listener) cs" by simp
  show ?case
    unfolding kept_conn_def [of _ _ _ c] conn_tuple_def beh map_filter_simps campaign_connections.simps rec
    by (simp add: kept same split: option.split prod.split)
qed

lemma kept_conn_elem:
  "kept_conn exclude inst listener c = Some d \<Longrightarrow>
   cr_Instance c = inst \<and> cr_Listener c = listener \<and> conn_tuple c = Some (cr_Client d) \<and>
   \<not> excludesClient exclude (cr_Client d) \<and> cr_ID d = cr_ID c \<and> cr_Start d = cr_Start c \<and> cr_End d = cr_End c \<and>
   cr_Invalid d = cr_Invalid c \<and> cr_Behavior d = valid_behavior (cr_Behavior c)"
  by (auto simp: kept_conn_def split: if_splits option.splits)

lemma session_fits_kept: "kept_conn exclude inst listener c = Some d \<Longrightarrow> session_fits maxLifetime tolerance ev d = session_fits maxLifetime tolerance ev c"
  using kept_conn_elem [of exclude inst listener c d] by (simp add: session_fits_def Let_def)

lemma classify_named:
  "fst (classifySMTPCampaignSignature b ev) \<noteq> [] \<Longrightarrow>
   \<exists>x. b = Some x \<and> validSMTPBehavior b \<and> bh_PreGreeting x \<noteq> ''none'' \<and> en_Pregreet ev \<and> bh_FirstVerb x = en_PregreetVerb ev \<and>
     (fst (classifySMTPCampaignSignature b ev) = pregreetEHLOUserSignature \<and> bh_FirstVerb x = ''EHLO'' \<and> en_PregreetEHLOUser ev \<or>
      fst (classifySMTPCampaignSignature b ev) = pregreetSupportSignature \<and> bh_FirstVerb x = ''HELO'' \<and> en_Rejected ev \<and>
        EqualFold (fst (splitMailbox (en_EnvelopeFrom ev))) ''support'' \<and>
        canonicalDomain (en_HELO ev) = snd (splitMailbox (en_EnvelopeFrom ev)) \<and> canonicalDomain (en_HELO ev) \<noteq> [])"
  by (cases b) (auto simp: classifySMTPCampaignSignature_def split: if_splits prod.splits)

lemma campaign_record_named:
  assumes "cp_Signature (fst (campaign_record lower nets maxLifetime tolerance conns item)) \<noteq> []"
  shows "\<exists>c. filter (\<lambda>c. cr_Client c = en_Client item \<and> session_fits maxLifetime tolerance item c) conns = [c] \<and>
     cp_ConnectionID (fst (campaign_record lower nets maxLifetime tolerance conns item)) = cr_ID c \<and>
     cp_Signature (fst (campaign_record lower nets maxLifetime tolerance conns item)) = fst (classifySMTPCampaignSignature (cr_Behavior c) item)"
proof -
  let ?hits = "matchingSMTPConnections (filter (\<lambda>c. cr_Client c = en_Client item) conns) item maxLifetime tolerance"
  have hits: "?hits = filter (\<lambda>c. cr_Client c = en_Client item \<and> session_fits maxLifetime tolerance item c) conns"
    by (simp add: matchingSMTPConnections_def conj_commute)
  consider c where "?hits = [c]" | "?hits = []" | c d cs where "?hits = c # d # cs" by (metis neq_Nil_conv)
  then show ?thesis
    by cases (use assms in \<open>auto simp: campaign_record_def Let_def hits\<close>)
qed

lemma campaign_record_client: "cp_Client (fst (campaign_record lower nets maxLifetime tolerance conns item)) = en_Client item"
  by (simp add: campaign_record_def Let_def split: list.split)

text \<open>What a run that succeeds has read.\<close>

lemma campaign_run:
  assumes "runSMTPCampaignClassificationExcluding env inst listener maxLifetime tolerance exclude = Inr (g, xc, xe)"
  shows "\<exists>cs bad evs mal nets n. readSMTPConnectionsStats (cm_event env) (cm_events env) = Inr (cs, bad) \<and>
     readSMTPCampaignEvidence (cm_time env) (cm_postfix env) maxLifetime = Inr (evs, mal) \<and>
     readSMTPNetworkPrefixes (cm_order env) (cm_prefixes env) = Inr nets \<and>
     g = campaign_report env inst listener maxLifetime tolerance (List.map_filter (kept_conn exclude inst listener) cs)
       (filter (\<lambda>e. \<not> excludesClient exclude (en_Client e)) evs) nets n mal"
proof -
  obtain cs bad evs mal where r: "readSMTPConnectionsStats (cm_event env) (cm_events env) = Inr (cs, bad)"
    "readSMTPCampaignEvidence (cm_time env) (cm_postfix env) maxLifetime = Inr (evs, mal)"
    using assms by (auto simp: runSMTPCampaignClassificationExcluding_def split: if_splits sum.splits prod.splits)
  obtain kept b x where k: "campaign_connections exclude inst listener cs = (kept, b, x)" by (metis prod_cases3)
  have kept: "kept = List.map_filter (kept_conn exclude inst listener) cs"
    using campaign_connections_kept [of exclude inst listener cs] k by simp
  obtain nets where n: "readSMTPNetworkPrefixes (cm_order env) (cm_prefixes env) = Inr nets"
    using assms by (auto simp: runSMTPCampaignClassificationExcluding_def r k Let_def split: if_splits sum.splits)
  have "g = campaign_report env inst listener maxLifetime tolerance kept (filter (\<lambda>e. \<not> excludesClient exclude (en_Client e)) evs) nets (bad + b) mal"
    using assms by (auto simp: runSMTPCampaignClassificationExcluding_def r k n Let_def split: if_splits)
  then show ?thesis using r n kept by blast
qed

lemma campaign_report_fields:
  fixes env inst listener maxLifetime tolerance conns evidence nets me ml
  defines "g \<equiv> campaign_report env inst listener maxLifetime tolerance conns evidence nets me ml"
  defines "records \<equiv> map (\<lambda>e. fst (campaign_record (cm_lower env) nets maxLifetime tolerance conns e)) evidence"
  shows "cg_Records g = cm_sort env records"
    and "cg_Matched g + cg_Unmatched g = int (length evidence)"
    and "cg_ConnectionsWithoutEvidence g \<le> int (length conns)"
    and "cg_Matched g \<ge> 0" "cg_Unmatched g \<ge> 0" "cg_ConnectionsWithoutEvidence g \<ge> 0"
proof -
  let ?judge = "campaign_record (cm_lower env) nets maxLifetime tolerance conns"
  let ?st = "foldl (campaign_step ?judge) \<lparr>ct_records = [], ct_seen = [], ct_matched = 0, ct_unmatched = 0\<rparr> evidence"
  note fold = campaign_fold [of ?judge "\<lparr>ct_records = [], ct_seen = [], ct_matched = 0, ct_unmatched = 0\<rparr>" evidence, OF refl]
  show "cg_Records g = cm_sort env records" using fold(1) by (simp add: g_def records_def campaign_report_def Let_def comp_def)
  show "cg_Matched g + cg_Unmatched g = int (length evidence)" using fold(2) by (simp add: g_def campaign_report_def Let_def)
  show "cg_ConnectionsWithoutEvidence g \<le> int (length conns)" by (simp add: g_def campaign_report_def Let_def)
  show "cg_Matched g \<ge> 0" "cg_Unmatched g \<ge> 0" "cg_ConnectionsWithoutEvidence g \<ge> 0"
    by (simp_all add: g_def campaign_report_def Let_def)
qed

lemma campaign_report_constant:
  "cg_Schema (campaign_report env inst listener maxLifetime tolerance conns evidence nets me ml) = smtpCampaignReportSchema"
  "cg_Instance (campaign_report env inst listener maxLifetime tolerance conns evidence nets me ml) = inst"
  "cg_Listener (campaign_report env inst listener maxLifetime tolerance conns evidence nets me ml) = listener"
  "cg_Signature (campaign_report env inst listener maxLifetime tolerance conns evidence nets me ml) = pregreetSupportSignature"
  "cg_Signatures (campaign_report env inst listener maxLifetime tolerance conns evidence nets me ml) =
     [pregreetSupportSignature, pregreetEHLOUserSignature]"
  "cg_Connections (campaign_report env inst listener maxLifetime tolerance conns evidence nets me ml) = int (length conns)"
  "cg_EvidenceSessions (campaign_report env inst listener maxLifetime tolerance conns evidence nets me ml) = int (length evidence)"
  "cg_MalformedEvents (campaign_report env inst listener maxLifetime tolerance conns evidence nets me ml) = int me"
  "cg_MalformedLogLines (campaign_report env inst listener maxLifetime tolerance conns evidence nets me ml) = int ml"
  by (simp_all add: campaign_report_def Let_def)

text \<open>An example run: one connection that greeted too early, and its line in the log.\<close>

definition camp_behavior :: smtp_behavior where
  "camp_behavior = snapshot (run_commands [(''EHLO user'' @ [CHR 0x0D, CHR 0x0A], ''EHLO'', False, 2)]) 1 False"

lemma camp_tracker:
  "run_commands [(''EHLO user'' @ [CHR 0x0D, CHR 0x0A], ''EHLO'', False, 2)] =
     tracker_init\<lparr>preGreeting := 1, firstVerb := ''EHLO'', verbs := [''EHLO''], sawCRLF := True, firstCommandAt := 2\<rparr>"
  by code_simp

lemma camp_behavior:
  "validSMTPBehavior (Some camp_behavior)" "bh_PreGreeting camp_behavior = ''one''" "bh_FirstVerb camp_behavior = ''EHLO''"
  by (simp add: camp_behavior_def snapshot_valid tracker_ok_run)
    (unfold camp_behavior_def camp_tracker, simp_all add: snapshot_fields countBucket_def tracker_init_def)

definition camp_conn :: "smtp_behavior \<Rightarrow> smtp_conn_record" where
  "camp_conn b = \<lparr>cr_ID = ''c1'', cr_Instance = ''mx'', cr_Client = ''1.2.3.4:7'', cr_Listener = ''l:25'', cr_JA3 = [], cr_JA4 = [],
     cr_Start = 1, cr_End = 55, cr_TLS = 0, cr_Accepted = 0, cr_State = ''no_observed_upgrade'', cr_Invalid = False,
     cr_Behavior = Some b\<rparr>"

definition camp_event :: "smtp_behavior \<Rightarrow> string \<Rightarrow> (smtp_event \<times> string) option" where
  "camp_event b l =
     (let e = \<lparr>ev_Version = 1, ev_Type = ''start'', ev_Timestamp = 1, ev_Instance = ''mx'', ev_ConnectionID = ''c1'',
          ev_Client = ''1.2.3.4:7'', ev_Listener = ''l:25'', ev_Backend = ''b'', ev_JA3 = [], ev_JA4 = [], ev_Error = [],
          ev_State = [], ev_Behavior = None\<rparr>
      in if l = ''s'' then Some (e, l)
         else if l = ''e'' then Some (e\<lparr>ev_Type := ''end'', ev_Timestamp := 55, ev_State := ''no_observed_upgrade'',
           ev_Behavior := Some b\<rparr>, l)
         else None)"

definition camp_line :: string where
  "camp_line = ''5 h postfix/postscreen[7]: PREGREET 11 after 0.1 from [1.2.3.4]:7: EHLO user''"

definition camp_time :: "string \<Rightarrow> time option" where
  "camp_time t = (if t = ''5'' then Some 50 else None)"

definition camp_env :: campaign_env where
  "camp_env = \<lparr>cm_events = Some (text_file [''s'', ''e'']), cm_event = camp_event camp_behavior, cm_postfix = Some (text_file [camp_line]),
     cm_time = camp_time, cm_prefixes = NoPrefixFile, cm_order = (\<lambda>ns. ns),
     cm_lower = ToLower, cm_sort = (\<lambda>rs. rs)\<rparr>"

definition camp_evidence :: smtp_evidence where
  "camp_evidence = no_evidence\<lparr>en_Client := ''1.2.3.4:7'', en_Start := 50, en_PregreetAt := 50, en_LastAt := 50,
     en_Pregreet := True, en_PregreetVerb := ''EHLO'', en_PregreetEHLOUser := True\<rparr>"

lemma camp_lines: "batch_lines (cm_events camp_env) = Inr [''s'', ''e'']" "batch_lines (cm_postfix camp_env) = Inr [camp_line]"
  by (simp_all add: camp_env_def camp_line_def text_file_def batch_lines_def newSMTPBatchScanner_def maxSMTPBatchBytes_def
      maxSMTPBatchLine_def maxSMTPBatchLines_def drop_cr_def Let_def)

lemma camp_reader:
  "foldl conn_event \<lparr>rd_by = [], rd_seen = [], rd_bad = 0\<rparr> [camp_event b ''s'', camp_event b ''e''] =
   \<lparr>rd_by = [(''mx'' @ nul @ ''c1'', camp_conn b)], rd_seen = [(''mx'' @ nul @ ''c1'' @ nul @ ''start'', ''s''),
     (''mx'' @ nul @ ''c1'' @ nul @ ''end'', ''e'')], rd_bad = 0\<rparr>"
  by code_simp

lemma camp_conns: "readSMTPConnectionsStats (cm_event camp_env) (cm_events camp_env) = Inr ([camp_conn camp_behavior], 0)"
proof -
  have "cm_event camp_env = camp_event camp_behavior" by (simp add: camp_env_def)
  then show ?thesis using camp_reader [of camp_behavior] by (simp add: readSMTPConnectionsStats_def camp_lines)
qed



definition camp_body :: string where
  "camp_body = ''PREGREET 11 after 0.1 from [1.2.3.4]:7: EHLO user''"

lemma camp_found:
  "FindSubmatch smtpCampaignEnvelope camp_line = Some [(3, camp_body), (2, ''postscreen''), (1, ''5'')]"
  "FindSubmatch smtpCampaignConnect camp_body = None"
  "FindSubmatch smtpCampaignPregreet camp_body = Some [(4, ''user''), (3, ''EHLO''), (2, ''7''), (1, ''1.2.3.4'')]"
  by code_simp+

lemma camp_words: "canonicalSMTPVerb ''EHLO'' = ''EHLO''" "EqualFold ''user'' ''user''"
  by (code_simp, simp add: EqualFold_def)

lemma camp_tuple: "canonicalClientTuple ''1.2.3.4'' ''7'' = Some ''1.2.3.4:7''"
proof -
  have "digits_value ''7'' = Some 7" by code_simp
  moreover have "ParseAddr ''1.2.3.4'' = Some (Addr4 16909060)" by (simp add: addr_parse_simps)
  moreover have "itoa (Suc 0) = ''1''" "itoa 2 = ''2''" "itoa 3 = ''3''" "itoa 4 = ''4''" by code_simp+
  moreover from this have "Addr_String (Addr4 16909060) = ''1.2.3.4''"
    by (simp add: ipv4_text_def ipv4_bytes_def upt_rec)
  moreover have "itoa 7 = ''7''" by code_simp
  ultimately show ?thesis by (simp add: canonicalClientTuple_def parse_uint_def JoinHostPort_def)
qed

lemma camp_read: "readSMTPCampaignEvidence camp_time (cm_postfix camp_env) 60 = Inr ([camp_evidence], 0)"
proof -
  have "campaign_line camp_time 60 \<lparr>er_active = [], er_result = [], er_malformed = 0\<rparr> camp_line =
      \<lparr>er_active = [(''1.2.3.4:7'', camp_evidence)], er_result = [], er_malformed = 0\<rparr>"
    by (simp add: campaign_line_def campaign_body_def camp_found group_def camp_time_def camp_tuple camp_words on_pregreet_def active_item_def
        set_active_def no_evidence_def camp_evidence_def)
  then show ?thesis by (simp add: readSMTPCampaignEvidence_def camp_lines flush_def)
qed


lemma camp_run:
  "runSMTPCampaignClassificationExcluding camp_env ''mx'' ''l:25'' 60 5 [] =
     Inr (campaign_report camp_env ''mx'' ''l:25'' 60 5 [camp_conn camp_behavior] [camp_evidence] [] 0 0, 0, 0)"
proof -
  have tm: "TrimSpace ''mx'' = ''mx''" by (simp add: TrimSpace_def segments.simps codes_def IsSpace_def Let_def)
  have split: "SplitHostPort ''l:25'' = Some (''l'', ''25'')" "SplitHostPort ''1.2.3.4:7'' = Some (''1.2.3.4'', ''7'')"
    by (code_simp, use SplitHostPort_JoinHostPort [of "''1.2.3.4''" "''7''"] in \<open>simp add: JoinHostPort_def\<close>)
  have env: "cm_time camp_env = camp_time" "cm_prefixes camp_env = NoPrefixFile" by (simp_all add: camp_env_def)
  have none: "\<not> excludesClient [] p" for p by (simp add: excludesClient_def split: option.split)
  have "(camp_conn camp_behavior)\<lparr>cr_Client := ''1.2.3.4:7''\<rparr> = camp_conn camp_behavior" by (simp add: camp_conn_def)
  moreover have "cr_Client (camp_conn b) = ''1.2.3.4:7''" "cr_Instance (camp_conn b) = ''mx''"
    "cr_Listener (camp_conn b) = ''l:25''" "cr_Behavior (camp_conn b) = Some b" for b by (simp_all add: camp_conn_def)
  ultimately have conns: "campaign_connections [] ''mx'' ''l:25'' [camp_conn camp_behavior] = ([camp_conn camp_behavior], 0, 0)"
    by (simp add: split camp_tuple none camp_behavior(1))
  show ?thesis
    unfolding runSMTPCampaignClassificationExcluding_def env camp_conns camp_read
    by (simp add: split tm conns none readSMTPNetworkPrefixes_def second_def del: campaign_connections.simps)
qed

lemma camp_record:
  "map (\<lambda>r. (cp_Signature r, cp_Reason r, cp_ConnectionID r)) (cg_Records (campaign_report camp_env ''mx'' ''l:25'' 60 5 [camp_conn camp_behavior] [camp_evidence] [] 0 0)) =
     [(pregreetEHLOUserSignature, ''matched'', ''c1'')]"
proof -
  have sort: "cm_sort camp_env rs = rs" for rs by (simp add: camp_env_def)
  have "bh_PreGreeting camp_behavior \<noteq> ''none''" by (simp add: camp_behavior)
  then show ?thesis
    by (simp add: campaign_report_fields(1) sort campaign_record_def Let_def camp_conn_def camp_evidence_def no_evidence_def
        matchingSMTPConnections_def session_fits_def classifySMTPCampaignSignature_def camp_behavior)
qed


text \<open>
  C30: a campaign signature is never guessed. In a report that a run returns, a record with a
  signature stands for a session \<open>item\<close> read from the log and a connection \<open>c\<close> read from the
  events, both of the reported client, the connection of the reported instance and listener and
  not excluded; the session's times fit the connection, and every other connection of that
  client that fits is the same connection; the connection's behaviour is valid and shows
  commands before the greeting, with the verb that Postscreen logged; and the session meets
  the policy the signature names.
\<close>

theorem campaign_attributed:
  assumes "runSMTPCampaignClassificationExcluding env inst listener maxLifetime tolerance exclude = Inr (g, xc, xe)"
    and "\<And>rs. mset (cm_sort env rs) = mset rs"
    and "r \<in> set (cg_Records g)" and "cp_Signature r \<noteq> []"
  shows "\<exists>cs bad evs mal c item b. readSMTPConnectionsStats (cm_event env) (cm_events env) = Inr (cs, bad) \<and>
     readSMTPCampaignEvidence (cm_time env) (cm_postfix env) maxLifetime = Inr (evs, mal) \<and> c \<in> set cs \<and> item \<in> set evs \<and>
     cp_ConnectionID r = cr_ID c \<and> cp_Client r = en_Client item \<and> conn_tuple c = Some (cp_Client r) \<and>
     cr_Instance c = inst \<and> cr_Listener c = listener \<and> \<not> excludesClient exclude (cp_Client r) \<and>
     session_fits maxLifetime tolerance item c \<and>
     (\<forall>d \<in> set cs. conn_tuple d = Some (cp_Client r) \<and> cr_Instance d = inst \<and> cr_Listener d = listener \<and>
        session_fits maxLifetime tolerance item d \<longrightarrow> cr_ID d = cr_ID c) \<and>
     cr_Behavior c = Some b \<and> validSMTPBehavior (Some b) \<and> bh_PreGreeting b \<noteq> ''none'' \<and> en_Pregreet item \<and>
     bh_FirstVerb b = en_PregreetVerb item \<and>
     (cp_Signature r = pregreetEHLOUserSignature \<and> bh_FirstVerb b = ''EHLO'' \<and> en_PregreetEHLOUser item \<or>
      cp_Signature r = pregreetSupportSignature \<and> bh_FirstVerb b = ''HELO'' \<and> en_Rejected item \<and>
        EqualFold (fst (splitMailbox (en_EnvelopeFrom item))) ''support'' \<and>
        canonicalDomain (en_HELO item) = snd (splitMailbox (en_EnvelopeFrom item)) \<and> canonicalDomain (en_HELO item) \<noteq> [])"
proof -
  obtain cs bad evs mal nets n where run: "readSMTPConnectionsStats (cm_event env) (cm_events env) = Inr (cs, bad)"
    "readSMTPCampaignEvidence (cm_time env) (cm_postfix env) maxLifetime = Inr (evs, mal)"
    "g = campaign_report env inst listener maxLifetime tolerance (List.map_filter (kept_conn exclude inst listener) cs)
       (filter (\<lambda>e. \<not> excludesClient exclude (en_Client e)) evs) nets n mal"
    using campaign_run [OF assms(1)] by blast
  let ?conns = "List.map_filter (kept_conn exclude inst listener) cs"
  let ?rec = "\<lambda>e. fst (campaign_record (cm_lower env) nets maxLifetime tolerance ?conns e)"
  have "set (cg_Records g) = set (map ?rec (filter (\<lambda>e. \<not> excludesClient exclude (en_Client e)) evs))"
    unfolding run(3) campaign_report_fields(1) by (rule mset_eq_setD [OF assms(2)])
  then obtain item where item: "item \<in> set evs" "\<not> excludesClient exclude (en_Client item)" "r = ?rec item"
    using assms(3) by auto
  have client: "cp_Client r = en_Client item" by (simp add: item(3) campaign_record_client)
  obtain d where d: "filter (\<lambda>c. cr_Client c = en_Client item \<and> session_fits maxLifetime tolerance item c) ?conns = [d]"
    "cp_ConnectionID r = cr_ID d" "cp_Signature r = fst (classifySMTPCampaignSignature (cr_Behavior d) item)"
    using campaign_record_named [of "cm_lower env" nets maxLifetime tolerance ?conns item] assms(4) unfolding item(3) by blast
  have "d \<in> set [d]" by simp
  then have dm: "d \<in> set ?conns" "cr_Client d = en_Client item" "session_fits maxLifetime tolerance item d"
    unfolding d(1) [symmetric] by simp_all
  then obtain c where c: "c \<in> set cs" "kept_conn exclude inst listener c = Some d" by (auto simp: List.map_filter_def)
  note kept = kept_conn_elem [OF c(2)]
  have unique: "cr_ID e = cr_ID c" if e: "e \<in> set cs" "conn_tuple e = Some (cp_Client r)" "cr_Instance e = inst" "cr_Listener e = listener"
      "session_fits maxLifetime tolerance item e" for e
  proof -
    obtain e' where e': "kept_conn exclude inst listener e = Some e'"
      using e item(2) by (simp add: kept_conn_def client)
    have "e' \<in> set ?conns" using e(1) e' by (force simp: List.map_filter_def)
    moreover have "cr_Client e' = en_Client item" using kept_conn_elem [OF e'] e(2) client by simp
    moreover have "session_fits maxLifetime tolerance item e'" using session_fits_kept [OF e'] e(5) by simp
    ultimately have "e' \<in> set (filter (\<lambda>c. cr_Client c = en_Client item \<and> session_fits maxLifetime tolerance item c) ?conns)" by simp
    then have "e' = d" unfolding d(1) by simp
    then show ?thesis using kept_conn_elem [OF e'] kept by simp
  qed
  have "cr_Behavior d = cr_Behavior c" if "cr_Behavior d = Some b" for b
    using kept that by (simp add: valid_behavior_def split: if_splits)
  with classify_named [of "cr_Behavior d" item] assms(4) obtain b where b: "cr_Behavior c = Some b" "validSMTPBehavior (Some b)"
    "bh_PreGreeting b \<noteq> ''none''" "en_Pregreet item" "bh_FirstVerb b = en_PregreetVerb item"
    "cp_Signature r = pregreetEHLOUserSignature \<and> bh_FirstVerb b = ''EHLO'' \<and> en_PregreetEHLOUser item \<or>
      cp_Signature r = pregreetSupportSignature \<and> bh_FirstVerb b = ''HELO'' \<and> en_Rejected item \<and>
        EqualFold (fst (splitMailbox (en_EnvelopeFrom item))) ''support'' \<and>
        canonicalDomain (en_HELO item) = snd (splitMailbox (en_EnvelopeFrom item)) \<and> canonicalDomain (en_HELO item) \<noteq> []"
    unfolding d(3) by metis
  have same: "cp_ConnectionID r = cr_ID c" "conn_tuple c = Some (cp_Client r)" "cr_Instance c = inst" "cr_Listener c = listener"
    "\<not> excludesClient exclude (cp_Client r)" "session_fits maxLifetime tolerance item c"
    using kept d(2) dm item(2) client session_fits_kept [OF c(2)] by simp_all
  have others: "\<forall>d \<in> set cs. conn_tuple d = Some (cp_Client r) \<and> cr_Instance d = inst \<and> cr_Listener d = listener \<and>
        session_fits maxLifetime tolerance item d \<longrightarrow> cr_ID d = cr_ID c"
    using unique by blast
  show ?thesis
    by (rule exI [of _ cs], rule exI [of _ bad], rule exI [of _ evs], rule exI [of _ mal], rule exI [of _ c], rule exI [of _ item],
      rule exI [of _ b], (intro conjI; (rule run(1,2) c(1) item(1) client same others b)+)?)
qed

lemma campaign_attributed_witness:
  "\<exists>g r. runSMTPCampaignClassificationExcluding camp_env ''mx'' ''l:25'' 60 5 [] = Inr (g, 0, 0) \<and> r \<in> set (cg_Records g) \<and>
     cp_Signature r = pregreetEHLOUserSignature \<and> conn_tuple (camp_conn camp_behavior) = Some (cp_Client r)"
proof -
  define g where "g = campaign_report camp_env ''mx'' ''l:25'' 60 5 [camp_conn camp_behavior] [camp_evidence] [] 0 0"
  have run: "runSMTPCampaignClassificationExcluding camp_env ''mx'' ''l:25'' 60 5 [] = Inr (g, 0, 0)"
    unfolding g_def by (rule camp_run)
  have sort: "mset (cm_sort camp_env rs) = mset rs" for rs by (simp add: camp_env_def)
  obtain r where r: "r \<in> set (cg_Records g)" "cp_Signature r = pregreetEHLOUserSignature"
    using camp_record by (fastforce simp: g_def [symmetric])
  have "cp_Signature r \<noteq> []" by (simp add: r(2) pregreetEHLOUserSignature_def)
  from campaign_attributed [OF run sort r(1) this] obtain cs bad c where
    c: "readSMTPConnectionsStats (cm_event camp_env) (cm_events camp_env) = Inr (cs, bad)" "c \<in> set cs" "conn_tuple c = Some (cp_Client r)"
    by (elim exE conjE) iprover
  then have "c = camp_conn camp_behavior" by (auto simp: camp_conns)
  then show ?thesis using run r c(3) by (intro exI [of _ g] exI [of _ r]) simp
qed

end
