(* ===== verification/Smtp_Correlation.thy ===== *)
theory Smtp_Correlation
  imports Smtp_Batch Source_Sets Digest
begin

text \<open>
  The correlator: joining Postfix messages with observed connections and verdicts
  (\<open>runSMTPCorrelationExcluding\<close>, \<open>matchSMTPConn\<close>, \<open>messageSMTPTransport\<close>, \<open>boundedVerdict\<close> of
  \<open>smtp_correlate.go\<close>), its summary and its table. The two time formats, the decoders of the
  batch files and the outcomes of the database calls are arguments. Times in a record are kept
  as instants; the program prints them.
\<close>

section \<open>Joining one message\<close>

definition minute :: int where
  "minute = 60 * second"

definition hour :: int where
  "hour = 60 * minute"

text \<open>\<open>smtpCorrelation\<close>; the score is the verdict's text.\<close>

record smtp_correlation =
  cor_QueueID :: string
  cor_Classification :: string
  cor_JA3 :: string
  cor_JA4 :: string
  cor_Reason :: string
  cor_ConnectionID :: string
  cor_Client :: string
  cor_Listener :: string
  cor_Action :: string
  cor_VerdictAt :: "time option"
  cor_MessageAt :: time
  cor_SessionStart :: "time option"
  cor_Symbols :: "string list"
  cor_Score :: string
  cor_Transport :: string

definition smtpMessageIdentity :: "(time \<Rightarrow> string) \<Rightarrow> smtp_message \<Rightarrow> string" where
  "smtpMessageIdentity utc m =
     msg_Instance m @ nul @ msg_QueueID m @ nul @ msg_Client m @ nul @ msg_PID m @ nul @
     utc (msg_SessionStart m) @ nul @ utc (msg_At m)"

definition messageSMTPTransport :: "smtp_conn_record \<Rightarrow> smtp_message \<Rightarrow> int \<Rightarrow> string" where
  "messageSMTPTransport c m tolerance =
     (if \<not> completeObservation c then ''unknown''
      else (case msg_PostfixTLS m of
          TLSConflict \<Rightarrow> ''unknown''
        | TLSBeforeMessage \<Rightarrow>
            (if cr_State c = ''fingerprinted'' \<and> \<not> msg_At m < cr_Accepted c - tolerance then ''starttls'' else ''unknown'')
        | TLSAfterMessage \<Rightarrow>
            (if cr_State c = ''fingerprinted'' \<or> cr_State c = ''starttls_accepted_no_fingerprint'' then ''plaintext'' else ''unknown'')
        | TLSUnknown \<Rightarrow>
            (if cr_State c = ''no_observed_upgrade'' \<or> cr_State c = ''starttls_refused'' then ''plaintext''
             else if cr_Accepted c \<noteq> 0 \<and> msg_At m < cr_Accepted c - tolerance then ''plaintext''
             else if cr_State c = ''fingerprinted'' \<and> \<not> msg_At m < cr_TLS c + tolerance then ''starttls''
             else ''unknown'')))"

text \<open>The body of the loop of \<open>matchSMTPConn\<close>.\<close>

definition conn_matches :: "smtp_message \<Rightarrow> int \<Rightarrow> smtp_conn_record \<Rightarrow> bool" where
  "conn_matches m t c =
     (if cr_Instance c \<noteq> msg_Instance m \<or> cr_Client c \<noteq> msg_Client m \<or> cr_Start c = 0 \<or> cr_Invalid c \<or>
         msg_At m < msg_SessionStart m then False
      else if cr_End c = 0 then False
      else \<not> msg_SessionStart m < cr_Start c - t \<and> \<not> msg_SessionStart m > cr_End c + t \<and> \<not> msg_At m > cr_End c + t)"

definition matchSMTPConn :: "smtp_conn_record list \<Rightarrow> smtp_message \<Rightarrow> int \<Rightarrow> smtp_conn_record list" where
  "matchSMTPConn cs m t = (if \<not> msg_HasSession m then [] else filter (conn_matches m t) cs)"

text \<open>The verdicts of the window, each text once.\<close>

fun eligible_verdicts :: "(smtp_verdict \<times> string) list \<Rightarrow> time \<Rightarrow> int \<Rightarrow> string list \<Rightarrow> smtp_verdict list" where
  "eligible_verdicts [] at window seen = []"
| "eligible_verdicts ((v, k) # vs) at window seen =
     (if vd_Timestamp v < at \<or> vd_Timestamp v > at + window then eligible_verdicts vs at window seen
      else if k \<in> set seen then eligible_verdicts vs at window seen
      else v # eligible_verdicts vs at window (k # seen))"

definition boundedVerdict :: "(smtp_verdict \<times> string) list \<Rightarrow> time \<Rightarrow> int \<Rightarrow> smtp_verdict option" where
  "boundedVerdict vs at window =
     (case eligible_verdicts vs at window [] of [v] \<Rightarrow> Some v | _ \<Rightarrow> None)"

section \<open>The join\<close>

text \<open>The maps built before the loop, as look-ups in their lists.\<close>

definition queue_key :: "string \<Rightarrow> string \<Rightarrow> string" where
  "queue_key inst queue = inst @ nul @ queue"

definition by_queue :: "(smtp_verdict \<times> string) list \<Rightarrow> smtp_message \<Rightarrow> (smtp_verdict \<times> string) list" where
  "by_queue verdicts m =
     filter (\<lambda>(v, _). queue_key (vd_Instance v) (vd_QueueID v) = queue_key (msg_Instance m) (msg_QueueID m)) verdicts"

definition message_occurrences :: "(time \<Rightarrow> string) \<Rightarrow> smtp_message list \<Rightarrow> smtp_message \<Rightarrow> nat" where
  "message_occurrences utc messages m =
     length (remdups (map (smtpMessageIdentity utc)
       (filter (\<lambda>m'. queue_key (msg_Instance m') (msg_QueueID m') = queue_key (msg_Instance m) (msg_QueueID m)) messages)))"

definition by_client :: "smtp_conn_record list \<Rightarrow> smtp_message \<Rightarrow> smtp_conn_record list" where
  "by_client conns m = filter (\<lambda>c. cr_Client c = msg_Client m) conns"

text \<open>The record before anything was looked up.\<close>

definition initial_record :: "smtp_message \<Rightarrow> smtp_correlation" where
  "initial_record m =
     \<lparr>cor_QueueID = msg_QueueID m, cor_Classification = ''unknown'', cor_JA3 = [], cor_JA4 = [], cor_Reason = ''no_verdict'',
      cor_ConnectionID = [], cor_Client = msg_Client m, cor_Listener = [], cor_Action = [], cor_VerdictAt = None,
      cor_MessageAt = msg_At m, cor_SessionStart = (if msg_HasSession m then Some (msg_SessionStart m) else None),
      cor_Symbols = [], cor_Score = ''0'', cor_Transport = ''unknown''\<rparr>"

text \<open>With the one candidate connection.\<close>

definition judge :: "(smtp_verdict \<times> string) list \<Rightarrow> int \<Rightarrow> smtp_message \<Rightarrow> smtp_conn_record \<Rightarrow> smtp_correlation" where
  "judge vs tolerance m c =
     (let r = (initial_record m)\<lparr>cor_ConnectionID := cr_ID c, cor_Listener := cr_Listener c,
            cor_Transport := messageSMTPTransport c m tolerance\<rparr>;
          r = (if cor_Transport r \<noteq> ''starttls'' then
                 r\<lparr>cor_Reason := (if cor_Transport r = ''unknown'' then ''incomplete_or_uncertain_tls_observation''
                     else ''message_before_observed_starttls'')\<rparr>
               else if vs = [] then r\<lparr>cor_Reason := ''no_verdict''\<rparr>
               else (case boundedVerdict vs (msg_At m) hour of
                   None \<Rightarrow> r\<lparr>cor_Reason := ''ambiguous_or_distant_verdict''\<rparr>
                 | Some v \<Rightarrow>
                     r\<lparr>cor_Classification := vd_Classification v, cor_Score := vd_Score v, cor_Action := vd_Action v,
                       cor_Symbols := vd_Symbols v, cor_VerdictAt := Some (vd_Timestamp v), cor_Reason := ''matched''\<rparr>))
      in if cor_Transport r = ''starttls'' then r\<lparr>cor_JA3 := cr_JA3 c, cor_JA4 := cr_JA4 c\<rparr> else r)"

text \<open>What the loop reads and never changes.\<close>

record corr_input =
  ci_conns :: "smtp_conn_record list"
  ci_messages :: "smtp_message list"
  ci_verdicts :: "(smtp_verdict \<times> string) list"
  ci_tolerance :: int
  ci_listener :: string

definition correlate_record :: "(time \<Rightarrow> string) \<Rightarrow> corr_input \<Rightarrow> smtp_message \<Rightarrow> smtp_correlation" where
  "correlate_record utc ci m =
     (let candidates = matchSMTPConn (by_client (ci_conns ci) m) m (ci_tolerance ci) in
      if message_occurrences utc (ci_messages ci) m > 1 then (initial_record m)\<lparr>cor_Reason := ''reused_queue_id''\<rparr>
      else (case candidates of
          [] \<Rightarrow> (initial_record m)\<lparr>cor_Reason := ''no_connection''\<rparr>
        | [c] \<Rightarrow> judge (by_queue (ci_verdicts ci) m) (ci_tolerance ci) m c
        | _ \<Rightarrow> (initial_record m)\<lparr>cor_Reason := ''ambiguous_connection''\<rparr>))"

section \<open>The summary\<close>

record fingerprint_aggregate =
  ag_JA4 :: string
  ag_Spam :: nat
  ag_Ham :: nat
  ag_Unknown :: nat

record smtp_summary =
  sm_Messages :: nat
  sm_Matched :: nat
  sm_Unmatched :: nat
  sm_Spam :: nat
  sm_Ham :: nat
  sm_Unknown :: nat
  sm_Connections :: nat
  sm_STARTTLS :: nat
  sm_NoObservedTLS :: nat
  sm_Incomplete :: nat
  sm_MalformedEvents :: nat
  sm_MalformedVerdicts :: nat
  sm_TLSMessages :: nat
  sm_PlaintextMessages :: nat
  sm_UnknownTransportMessages :: nat
  sm_Reasons :: "(string \<times> nat) list"
  sm_Fingerprints :: "fingerprint_aggregate list"
  sm_Records :: "smtp_correlation list"

definition empty_summary :: smtp_summary where
  "empty_summary =
     \<lparr>sm_Messages = 0, sm_Matched = 0, sm_Unmatched = 0, sm_Spam = 0, sm_Ham = 0, sm_Unknown = 0, sm_Connections = 0,
      sm_STARTTLS = 0, sm_NoObservedTLS = 0, sm_Incomplete = 0, sm_MalformedEvents = 0, sm_MalformedVerdicts = 0,
      sm_TLSMessages = 0, sm_PlaintextMessages = 0, sm_UnknownTransportMessages = 0, sm_Reasons = [],
      sm_Fingerprints = [], sm_Records = []\<rparr>"

definition count_conn :: "smtp_summary \<Rightarrow> smtp_conn_record \<Rightarrow> smtp_summary" where
  "count_conn s c =
     (if \<not> completeObservation c then s\<lparr>sm_Incomplete := sm_Incomplete s + 1\<rparr>
      else if cr_State c = ''no_observed_upgrade'' \<or> cr_State c = ''starttls_refused'' \<or> cr_State c = ''premature_tls''
      then s\<lparr>sm_NoObservedTLS := sm_NoObservedTLS s + 1\<rparr>
      else s\<lparr>sm_STARTTLS := sm_STARTTLS s + 1\<rparr>)"

text \<open>Counting a record: its transport, then its outcome.\<close>

definition count_transport :: "smtp_correlation \<Rightarrow> smtp_summary \<Rightarrow> smtp_summary" where
  "count_transport r s =
     (if cor_Transport r = ''starttls'' then s\<lparr>sm_TLSMessages := sm_TLSMessages s + 1\<rparr>
      else if cor_Transport r = ''plaintext'' then s\<lparr>sm_PlaintextMessages := sm_PlaintextMessages s + 1\<rparr>
      else s\<lparr>sm_UnknownTransportMessages := sm_UnknownTransportMessages s + 1\<rparr>)"

definition count_class :: "string \<Rightarrow> smtp_summary \<Rightarrow> smtp_summary" where
  "count_class class s =
     (if class = ''spam'' then s\<lparr>sm_Spam := sm_Spam s + 1\<rparr>
      else if class = ''ham'' then s\<lparr>sm_Ham := sm_Ham s + 1\<rparr>
      else s\<lparr>sm_Unknown := sm_Unknown s + 1\<rparr>)"

definition count_outcome :: "smtp_correlation \<Rightarrow> smtp_summary \<Rightarrow> smtp_summary" where
  "count_outcome r s =
     (if cor_Reason r = ''matched'' then count_class (cor_Classification r) (s\<lparr>sm_Matched := sm_Matched s + 1\<rparr>)
      else s\<lparr>sm_Unmatched := sm_Unmatched s + 1\<rparr>)"

definition count_aggregate :: "string \<Rightarrow> fingerprint_aggregate \<Rightarrow> fingerprint_aggregate" where
  "count_aggregate class a =
     (if class = ''spam'' then a\<lparr>ag_Spam := ag_Spam a + 1\<rparr>
      else if class = ''ham'' then a\<lparr>ag_Ham := ag_Ham a + 1\<rparr>
      else a\<lparr>ag_Unknown := ag_Unknown a + 1\<rparr>)"

text \<open>\<open>m[k]\<close> of a Go map with a default, and its update.\<close>

definition at_key :: "'v \<Rightarrow> string \<Rightarrow> (string \<times> 'v) list \<Rightarrow> 'v" where
  "at_key d k m = (case map_of m k of None \<Rightarrow> d | Some v \<Rightarrow> v)"

definition new_aggregate :: "string \<Rightarrow> fingerprint_aggregate" where
  "new_aggregate ja4 = \<lparr>ag_JA4 = ja4, ag_Spam = 0, ag_Ham = 0, ag_Unknown = 0\<rparr>"

section \<open>The table\<close>

text \<open>
  A row of \<open>smtp_correlations\<close>. The record stands for the columns copied from it and for its
  JSON text.
\<close>

record corr_row =
  row_key :: string
  row_instance :: string
  row_queue :: string
  row_message_at :: string
  row_created_at :: string
  row_record :: smtp_correlation

text \<open>
  \<open>INSERT ... ON CONFLICT(event_key) DO UPDATE\<close>: an existing row keeps its key, instance, queue
  and time.
\<close>

fun upsert_row :: "corr_row \<Rightarrow> corr_row list \<Rightarrow> corr_row list" where
  "upsert_row r [] = [r]"
| "upsert_row r (x # xs) =
     (if row_key x = row_key r
      then x\<lparr>row_created_at := row_created_at r, row_record := row_record r\<rparr> # xs
      else x # upsert_row r xs)"

text \<open>
  \<open>DELETE ... ORDER BY message_at DESC, event_key DESC LIMIT -1 OFFSET 100000\<close>: the rows that
  100000 others come before are deleted.
\<close>

definition maxCorrelationRows :: nat where
  "maxCorrelationRows = 100000"

definition row_order :: "corr_row \<Rightarrow> string \<times> string" where
  "row_order r = (row_message_at r, row_key r)"

definition newer_row :: "corr_row \<Rightarrow> corr_row \<Rightarrow> bool" where
  "newer_row x r \<longleftrightarrow> row_message_at r < row_message_at x \<or> (row_message_at r = row_message_at x \<and> row_key r < row_key x)"

definition trim_rows :: "corr_row list \<Rightarrow> corr_row list" where
  "trim_rows rows = filter (\<lambda>r. length (filter (\<lambda>x. newer_row x r) rows) < maxCorrelationRows) rows"

section \<open>The loop\<close>

record corr_state =
  co_summary :: smtp_summary
  co_reasons :: "(string \<times> nat) list"
  co_aggregates :: "(string \<times> fingerprint_aggregate) list"
  co_seen :: "string list"
  co_rows :: "corr_row list"

text \<open>
  What the run takes from outside: formats, the clock, and whether a statement succeeded;
  \<open>ce_commit\<close> is the end of the run, the commit and the closing of the database.
\<close>

record corr_env =
  ce_rfc3339 :: "time \<Rightarrow> string"
  ce_fixed :: "time \<Rightarrow> string"
  ce_now :: "smtp_message \<Rightarrow> string"
  ce_exec :: "corr_row \<Rightarrow> bool"
  ce_trim :: bool
  ce_commit :: bool

definition event_row :: "corr_env \<Rightarrow> corr_input \<Rightarrow> smtp_message \<Rightarrow> smtp_correlation \<Rightarrow> corr_row" where
  "event_row env ci m r =
     \<lparr>row_key = hex_encode (sha256 (ci_listener ci @ nul @ smtpMessageIdentity (ce_rfc3339 env) m)),
      row_instance = msg_Instance m, row_queue = msg_QueueID m, row_message_at = ce_fixed env (msg_At m),
      row_created_at = ce_now env m, row_record = r\<rparr>"

definition tally :: "smtp_correlation \<Rightarrow> corr_state \<Rightarrow> corr_state" where
  "tally r st =
     (let s = count_outcome r (count_transport r (co_summary st));
          s = s\<lparr>sm_Messages := sm_Messages s + 1, sm_Records := sm_Records s @ [r]\<rparr>
      in if cor_Reason r = ''matched'' then
           st\<lparr>co_summary := s,
             co_aggregates := AList.update (cor_JA4 r)
               (count_aggregate (cor_Classification r) (at_key (new_aggregate (cor_JA4 r)) (cor_JA4 r) (co_aggregates st)))
               (co_aggregates st)\<rparr>
         else
           st\<lparr>co_summary := s,
             co_reasons := AList.update (cor_Reason r) (at_key 0 (cor_Reason r) (co_reasons st) + 1) (co_reasons st)\<rparr>)"

datatype corr_error =
    ToleranceOutOfRange
  | InstanceRequired
  | ListenerInvalid
  | BatchFailed batch_error
  | DatabaseFailed

definition correlate_message :: "corr_env \<Rightarrow> corr_input \<Rightarrow> corr_state \<Rightarrow> smtp_message \<Rightarrow> corr_error + corr_state" where
  "correlate_message env ci st m =
     (let key = smtpMessageIdentity (ce_rfc3339 env) m in
      if key \<in> set (co_seen st) then Inr st
      else
        (let r = correlate_record (ce_rfc3339 env) ci m; row = event_row env ci m r in
         if \<not> ce_exec env row then Inl DatabaseFailed
         else Inr (tally r (st\<lparr>co_seen := key # co_seen st, co_rows := upsert_row row (co_rows st)\<rparr>))))"

fun correlate_messages :: "corr_env \<Rightarrow> corr_input \<Rightarrow> corr_state \<Rightarrow> smtp_message list \<Rightarrow> corr_error + corr_state" where
  "correlate_messages env ci st [] = Inr st"
| "correlate_messages env ci st (m # ms) =
     ebind (correlate_message env ci st m) (\<lambda>st. correlate_messages env ci st ms)"

section \<open>The run\<close>

text \<open>The files as their paths give them, with their decoders.\<close>

record corr_files =
  cf_events :: "batch_file option"
  cf_postfix :: "batch_file option"
  cf_verdicts :: "batch_file option"
  cf_event :: "string \<Rightarrow> (smtp_event \<times> string) option"
  cf_time :: "string \<Rightarrow> time option"
  cf_verdict :: "string \<Rightarrow> (smtp_verdict \<times> string) option"

text \<open>The table before the run; \<open>None\<close> when the database cannot be opened.\<close>

definition joined_run ::
  "corr_env \<Rightarrow> corr_input \<Rightarrow> nat \<Rightarrow> nat \<Rightarrow> corr_row list option \<Rightarrow> corr_error + (smtp_summary \<times> corr_row list)" where
  "joined_run env ci malformedEvents malformed table =
     (case table of
        None \<Rightarrow> Inl DatabaseFailed
      | Some rows \<Rightarrow>
          (let s = empty_summary\<lparr>sm_Connections := length (ci_conns ci), sm_MalformedEvents := malformedEvents,
                 sm_MalformedVerdicts := malformed\<rparr>;
               s = foldl count_conn s (ci_conns ci)
           in ebind (correlate_messages env ci \<lparr>co_summary = s, co_reasons = [], co_aggregates = [], co_seen = [], co_rows = rows\<rparr>
                  (ci_messages ci))
                (\<lambda>st. if \<not> ce_trim env \<or> \<not> ce_commit env then Inl DatabaseFailed
                  else Inr ((co_summary st)
                      \<lparr>sm_Reasons := sort_key fst (co_reasons st), sm_Fingerprints := sort_key ag_JA4 (map snd (co_aggregates st))\<rparr>,
                    trim_rows (co_rows st)))))"

definition runSMTPCorrelationExcluding ::
  "corr_env \<Rightarrow> corr_files \<Rightarrow> corr_row list option \<Rightarrow> string \<Rightarrow> string \<Rightarrow> int \<Rightarrow> net_prefix list \<Rightarrow>
     corr_error + (smtp_summary \<times> (nat \<times> nat) \<times> corr_row list)" where
  "runSMTPCorrelationExcluding env files table inst listener tolerance exclude =
     (if tolerance < 0 \<or> tolerance > minute then Inl ToleranceOutOfRange
      else if inst = [] then Inl InstanceRequired
      else if SplitHostPort listener = None then Inl ListenerInvalid
      else (case readSMTPConnectionsStats (cf_event files) (cf_events files) of
          Inl e \<Rightarrow> Inl (BatchFailed e)
        | Inr (conns, malformedEvents) \<Rightarrow>
            (let conns = filter (\<lambda>c. cr_Instance c = inst \<and> cr_Listener c = listener) conns;
                 kept = filter (\<lambda>c. \<not> excludesClient exclude (cr_Client c)) conns
             in case readPostfixMessages (cf_time files) (cf_postfix files) inst of
               Inl e \<Rightarrow> Inl (BatchFailed e)
             | Inr messages \<Rightarrow>
                 (let keptMessages = filter (\<lambda>m. \<not> excludesClient exclude (msg_Client m)) messages in
                  case readSMTPVerdicts (cf_verdict files) (cf_verdicts files) of
                    Inl e \<Rightarrow> Inl (BatchFailed e)
                  | Inr (verdicts, malformed) \<Rightarrow>
                      ebind (joined_run env \<lparr>ci_conns = kept, ci_messages = keptMessages, ci_verdicts = verdicts,
                          ci_tolerance = tolerance, ci_listener = listener\<rparr> malformedEvents malformed table)
                        (\<lambda>(s, rows). Inr (s, (length conns - length kept, length messages - length keptMessages), rows))))))"

section \<open>The summary counts the records\<close>

definition num :: "('a \<Rightarrow> bool) \<Rightarrow> 'a list \<Rightarrow> nat" where
  "num P xs = length (filter P xs)"

lemma num_simps [simp]: "num P [] = 0" "num P (xs @ [x]) = num P xs + (if P x then 1 else 0)"
  by (simp_all add: num_def)

lemma num_pos: "0 < num P xs \<longleftrightarrow> (\<exists>x \<in> set xs. P x)"
  by (auto simp: num_def filter_empty_conv)

text \<open>The counts of a fingerprint among the records.\<close>

definition matched_as :: "string \<Rightarrow> string \<Rightarrow> smtp_correlation \<Rightarrow> bool" where
  "matched_as ja4 class r \<longleftrightarrow> cor_Reason r = ''matched'' \<and> cor_JA4 r = ja4 \<and> cor_Classification r = class"

definition matched_fp :: "string \<Rightarrow> smtp_correlation \<Rightarrow> bool" where
  "matched_fp ja4 r \<longleftrightarrow> cor_Reason r = ''matched'' \<and> cor_JA4 r = ja4"

definition aggregate_of :: "string \<Rightarrow> smtp_correlation list \<Rightarrow> fingerprint_aggregate" where
  "aggregate_of ja4 rs =
     \<lparr>ag_JA4 = ja4, ag_Spam = num (matched_as ja4 ''spam'') rs, ag_Ham = num (matched_as ja4 ''ham'') rs,
      ag_Unknown = num (\<lambda>r. matched_fp ja4 r \<and> cor_Classification r \<notin> {''spam'', ''ham''}) rs\<rparr>"

text \<open>The summary as a function of the records, without the two lists.\<close>

definition summary_of :: "smtp_summary \<Rightarrow> smtp_correlation list \<Rightarrow> smtp_summary" where
  "summary_of s rs = s
     \<lparr>sm_Messages := length rs,
      sm_Matched := num (\<lambda>r. cor_Reason r = ''matched'') rs,
      sm_Unmatched := num (\<lambda>r. cor_Reason r \<noteq> ''matched'') rs,
      sm_Spam := num (\<lambda>r. cor_Reason r = ''matched'' \<and> cor_Classification r = ''spam'') rs,
      sm_Ham := num (\<lambda>r. cor_Reason r = ''matched'' \<and> cor_Classification r = ''ham'') rs,
      sm_Unknown := num (\<lambda>r. cor_Reason r = ''matched'' \<and> cor_Classification r \<notin> {''spam'', ''ham''}) rs,
      sm_TLSMessages := num (\<lambda>r. cor_Transport r = ''starttls'') rs,
      sm_PlaintextMessages := num (\<lambda>r. cor_Transport r = ''plaintext'') rs,
      sm_UnknownTransportMessages := num (\<lambda>r. cor_Transport r \<notin> {''starttls'', ''plaintext''}) rs,
      sm_Records := rs\<rparr>"

definition counted :: "smtp_summary \<Rightarrow> smtp_correlation list \<Rightarrow> corr_state \<Rightarrow> bool" where
  "counted s0 rs st \<longleftrightarrow>
     co_summary st = summary_of s0 rs \<and>
     distinct (map fst (co_reasons st)) \<and> distinct (map fst (co_aggregates st)) \<and>
     (\<forall>k. map_of (co_reasons st) k =
        (if k \<noteq> ''matched'' \<and> 0 < num (\<lambda>r. cor_Reason r = k) rs then Some (num (\<lambda>r. cor_Reason r = k) rs) else None)) \<and>
     (\<forall>k. map_of (co_aggregates st) k = (if 0 < num (matched_fp k) rs then Some (aggregate_of k rs) else None))"

lemma summary_tally:
  "co_summary st = summary_of s0 rs \<Longrightarrow> co_summary (tally r st) = summary_of s0 (rs @ [r])"
  by (cases "cor_Reason r = ''matched''"; cases "cor_Classification r = ''spam''"; cases "cor_Classification r = ''ham''";
      cases "cor_Transport r = ''starttls''"; cases "cor_Transport r = ''plaintext''")
    (simp_all add: tally_def Let_def count_outcome_def count_transport_def count_class_def summary_of_def)

lemma aggregate_count:
  assumes "cor_Reason r = ''matched''" "cor_JA4 r = k"
  shows "aggregate_of k (rs @ [r]) = count_aggregate (cor_Classification r) (aggregate_of k rs)"
  using assms by (auto simp: aggregate_of_def count_aggregate_def matched_as_def matched_fp_def)

lemma aggregate_other: "\<not> matched_fp k r \<Longrightarrow> aggregate_of k (rs @ [r]) = aggregate_of k rs"
  by (auto simp: aggregate_of_def matched_as_def matched_fp_def)

lemma aggregate_none: "\<not> 0 < num (matched_fp k) rs \<Longrightarrow> aggregate_of k rs = new_aggregate k"
  by (auto simp: aggregate_of_def new_aggregate_def num_def filter_empty_conv matched_fp_def matched_as_def)

lemma counted_tally:
  assumes "counted s0 rs st"
  shows "counted s0 (rs @ [r]) (tally r st)"
proof -
  have st: "co_summary st = summary_of s0 rs" "distinct (map fst (co_reasons st))" "distinct (map fst (co_aggregates st))"
    "\<And>k. map_of (co_reasons st) k =
         (if k \<noteq> ''matched'' \<and> 0 < num (\<lambda>r. cor_Reason r = k) rs then Some (num (\<lambda>r. cor_Reason r = k) rs) else None)"
    "\<And>k. map_of (co_aggregates st) k = (if 0 < num (matched_fp k) rs then Some (aggregate_of k rs) else None)"
    using assms by (simp_all add: counted_def)
  note s = summary_tally [OF st(1), of r]
  show ?thesis
  proof (cases "cor_Reason r = ''matched''")
    case True
    have "co_reasons (tally r st) = co_reasons st"
      "co_aggregates (tally r st) = AList.update (cor_JA4 r)
               (count_aggregate (cor_Classification r) (at_key (new_aggregate (cor_JA4 r)) (cor_JA4 r) (co_aggregates st)))
               (co_aggregates st)"
      using True by (simp_all add: tally_def Let_def)
    moreover have "at_key (new_aggregate (cor_JA4 r)) (cor_JA4 r) (co_aggregates st) = aggregate_of (cor_JA4 r) rs"
      by (simp add: at_key_def st(5) aggregate_none)
    ultimately show ?thesis
      unfolding counted_def s
      by (simp add: st(2-5) True distinct_update update_conv' aggregate_count aggregate_other matched_fp_def)
  next
    case False
    have "co_aggregates (tally r st) = co_aggregates st"
      "co_reasons (tally r st) = AList.update (cor_Reason r) (at_key 0 (cor_Reason r) (co_reasons st) + 1) (co_reasons st)"
      using False by (simp_all add: tally_def Let_def)
    moreover have "at_key 0 (cor_Reason r) (co_reasons st) = num (\<lambda>r'. cor_Reason r' = cor_Reason r) rs"
      using False by (simp add: at_key_def st(4))
    ultimately show ?thesis
      unfolding counted_def s using False
      by (simp add: st(2-5) distinct_update update_conv' aggregate_other matched_fp_def)
  qed
qed

text \<open>The messages the loop does not skip.\<close>

fun first_messages :: "(time \<Rightarrow> string) \<Rightarrow> string list \<Rightarrow> smtp_message list \<Rightarrow> smtp_message list" where
  "first_messages utc seen [] = []"
| "first_messages utc seen (m # ms) =
     (if smtpMessageIdentity utc m \<in> set seen then first_messages utc seen ms
      else m # first_messages utc (smtpMessageIdentity utc m # seen) ms)"

lemma first_messages_set: "m \<in> set (first_messages utc seen ms) \<Longrightarrow> m \<in> set ms"
  by (induction ms arbitrary: seen) (auto split: if_splits)

lemma first_messages_distinct:
  "distinct (map (smtpMessageIdentity utc) (first_messages utc seen ms)) \<and>
   (\<forall>m \<in> set (first_messages utc seen ms). smtpMessageIdentity utc m \<notin> set seen)"
proof (induction ms arbitrary: seen)
  case (Cons m ms)
  show ?case using Cons.IH [of seen] Cons.IH [of "smtpMessageIdentity utc m # seen"] by force
qed simp

lemma first_messages_cover:
  "m \<in> set ms \<Longrightarrow> smtpMessageIdentity utc m \<in> set seen \<union> smtpMessageIdentity utc ` set (first_messages utc seen ms)"
proof (induction ms arbitrary: seen)
  case (Cons a ms)
  show ?case
    using Cons.prems Cons.IH [of seen] Cons.IH [of "smtpMessageIdentity utc a # seen"] by auto
qed simp

definition rows_after :: "corr_env \<Rightarrow> corr_input \<Rightarrow> corr_row list \<Rightarrow> smtp_message list \<Rightarrow> corr_row list" where
  "rows_after env ci rows ms =
     foldl (\<lambda>rows m. upsert_row (event_row env ci m (correlate_record (ce_rfc3339 env) ci m)) rows) rows ms"

lemma counted_frame [simp]:
  "counted s0 rs (st\<lparr>co_seen := k, co_rows := rows\<rparr>) = counted s0 rs st"
  by (simp add: counted_def)

lemma tally_frame [simp]: "co_seen (tally r st) = co_seen st" "co_rows (tally r st) = co_rows st"
  by (simp_all add: tally_def Let_def)

lemma correlate_messages_Inr:
  assumes "correlate_messages env ci st ms = Inr st'" "counted s0 rs st"
  shows "counted s0 (rs @ map (correlate_record (ce_rfc3339 env) ci) (first_messages (ce_rfc3339 env) (co_seen st) ms)) st' \<and>
    co_rows st' = rows_after env ci (co_rows st) (first_messages (ce_rfc3339 env) (co_seen st) ms)"
  using assms
proof (induction ms arbitrary: st rs)
  case Nil
  then show ?case by (simp add: rows_after_def)
next
  case (Cons m ms)
  let ?key = "smtpMessageIdentity (ce_rfc3339 env) m"
  let ?r = "correlate_record (ce_rfc3339 env) ci m"
  show ?case
  proof (cases "?key \<in> set (co_seen st)")
    case True
    then show ?thesis using Cons by (simp add: correlate_message_def)
  next
    case False
    define st1 where "st1 = tally ?r (st\<lparr>co_seen := ?key # co_seen st, co_rows := upsert_row (event_row env ci m ?r) (co_rows st)\<rparr>)"
    have "correlate_messages env ci st1 ms = Inr st'"
      using Cons.prems(1) False by (simp add: correlate_message_def Let_def st1_def split: if_splits)
    moreover have "counted s0 (rs @ [?r]) st1"
      unfolding st1_def using counted_tally [of s0 rs "st\<lparr>co_seen := ?key # co_seen st, co_rows := upsert_row (event_row env ci m ?r) (co_rows st)\<rparr>"] Cons.prems(2) by simp
    ultimately show ?thesis
      using Cons.IH [of st1 "rs @ [?r]"] False by (simp add: st1_def rows_after_def)
  qed
qed

text \<open>The three kinds of connections.\<close>

definition no_upgrade :: "smtp_conn_record \<Rightarrow> bool" where
  "no_upgrade c \<longleftrightarrow> cr_State c = ''no_observed_upgrade'' \<or> cr_State c = ''starttls_refused'' \<or> cr_State c = ''premature_tls''"

lemma count_conns:
  "foldl count_conn s cs = s
    \<lparr>sm_Incomplete := sm_Incomplete s + num (\<lambda>c. \<not> completeObservation c) cs,
     sm_NoObservedTLS := sm_NoObservedTLS s + num (\<lambda>c. completeObservation c \<and> no_upgrade c) cs,
     sm_STARTTLS := sm_STARTTLS s + num (\<lambda>c. completeObservation c \<and> \<not> no_upgrade c) cs\<rparr>"
proof (induction cs rule: rev_induct)
  case (snoc c cs)
  have "foldl count_conn s (cs @ [c]) = count_conn (foldl count_conn s cs) c" by simp
  also have "\<dots> = s
    \<lparr>sm_Incomplete := sm_Incomplete s + num (\<lambda>c. \<not> completeObservation c) (cs @ [c]),
     sm_NoObservedTLS := sm_NoObservedTLS s + num (\<lambda>c. completeObservation c \<and> no_upgrade c) (cs @ [c]),
     sm_STARTTLS := sm_STARTTLS s + num (\<lambda>c. completeObservation c \<and> \<not> no_upgrade c) (cs @ [c])\<rparr>"
    unfolding snoc.IH count_conn_def no_upgrade_def [symmetric]
    by (cases "completeObservation c"; cases "no_upgrade c") simp_all
  finally show ?case .
qed simp

text \<open>What the run joins, in the order in which the code reads it.\<close>

definition run_input :: "net_prefix list \<Rightarrow> string \<Rightarrow> string \<Rightarrow> int \<Rightarrow> smtp_conn_record list \<Rightarrow> smtp_message list \<Rightarrow>
    (smtp_verdict \<times> string) list \<Rightarrow> corr_input" where
  "run_input exclude inst listener tolerance conns messages verdicts =
     \<lparr>ci_conns = filter (\<lambda>c. cr_Instance c = inst \<and> cr_Listener c = listener \<and> \<not> excludesClient exclude (cr_Client c)) conns,
      ci_messages = filter (\<lambda>m. \<not> excludesClient exclude (msg_Client m)) messages, ci_verdicts = verdicts,
      ci_tolerance = tolerance, ci_listener = listener\<rparr>"

lemma run_Inr:
  assumes "runSMTPCorrelationExcluding env files table inst listener tolerance exclude = Inr (s, ex, rows)"
  obtains conns messages verdicts me mv old where
    "0 \<le> tolerance" "tolerance \<le> minute" "table = Some old"
    "readSMTPConnectionsStats (cf_event files) (cf_events files) = Inr (conns, me)"
    "readPostfixMessages (cf_time files) (cf_postfix files) inst = Inr messages"
    "readSMTPVerdicts (cf_verdict files) (cf_verdicts files) = Inr (verdicts, mv)"
    "joined_run env (run_input exclude inst listener tolerance conns messages verdicts) me mv (Some old) = Inr (s, rows)"
proof -
  have pre: "\<not> (tolerance < 0 \<or> tolerance > minute)" "inst \<noteq> []" "SplitHostPort listener \<noteq> None"
    using assms by (auto simp: runSMTPCorrelationExcluding_def split: if_splits)
  note run = assms [unfolded runSMTPCorrelationExcluding_def, simplified pre if_False]
  obtain conns me where c: "readSMTPConnectionsStats (cf_event files) (cf_events files) = Inr (conns, me)"
    using run by (auto split: sum.splits)
  note run = run [unfolded c Let_def, simplified sum.case prod.case]
  obtain messages where m: "readPostfixMessages (cf_time files) (cf_postfix files) inst = Inr messages"
    using run by (cases "readPostfixMessages (cf_time files) (cf_postfix files) inst") simp_all
  note run = run [unfolded m, simplified sum.case]
  obtain verdicts mv where v: "readSMTPVerdicts (cf_verdict files) (cf_verdicts files) = Inr (verdicts, mv)"
    using run by (cases "readSMTPVerdicts (cf_verdict files) (cf_verdicts files)") (simp, fastforce)
  note run = run [unfolded v, simplified sum.case prod.case filter_filter]
  obtain old where t: "table = Some old" using run by (cases table) (simp_all add: joined_run_def)
  have "joined_run env (run_input exclude inst listener tolerance conns messages verdicts) me mv (Some old) = Inr (s, rows)"
    using run by (clarsimp simp: t ebind_eq_Inr run_input_def)
  then show thesis using that pre c m v t by simp
qed

lemma counted_start: "counted s0 [] \<lparr>co_summary = s0, co_reasons = [], co_aggregates = [], co_seen = [], co_rows = rows\<rparr>"
  if "sm_Messages s0 = 0" "sm_Matched s0 = 0" "sm_Unmatched s0 = 0" "sm_Spam s0 = 0" "sm_Ham s0 = 0" "sm_Unknown s0 = 0"
    "sm_TLSMessages s0 = 0" "sm_PlaintextMessages s0 = 0" "sm_UnknownTransportMessages s0 = 0" "sm_Records s0 = []"
  using that by (cases s0) (simp add: counted_def summary_of_def)

text \<open>The summary of the connections alone.\<close>

definition conn_summary :: "smtp_conn_record list \<Rightarrow> nat \<Rightarrow> nat \<Rightarrow> smtp_summary" where
  "conn_summary conns me mv = empty_summary
     \<lparr>sm_Connections := length conns, sm_MalformedEvents := me, sm_MalformedVerdicts := mv,
      sm_Incomplete := num (\<lambda>c. \<not> completeObservation c) conns,
      sm_NoObservedTLS := num (\<lambda>c. completeObservation c \<and> no_upgrade c) conns,
      sm_STARTTLS := num (\<lambda>c. completeObservation c \<and> \<not> no_upgrade c) conns\<rparr>"

lemma joined_run_Inr:
  assumes "joined_run env ci me mv (Some old) = Inr (s, rows)"
  obtains st where
    "counted (conn_summary (ci_conns ci) me mv)
       (map (correlate_record (ce_rfc3339 env) ci) (first_messages (ce_rfc3339 env) [] (ci_messages ci))) st"
    "s = (co_summary st)\<lparr>sm_Reasons := sort_key fst (co_reasons st), sm_Fingerprints := sort_key ag_JA4 (map snd (co_aggregates st))\<rparr>"
    "rows = trim_rows (rows_after env ci old (first_messages (ce_rfc3339 env) [] (ci_messages ci)))"
proof -
  let ?s = "conn_summary (ci_conns ci) me mv"
  let ?st = "\<lparr>co_summary = ?s, co_reasons = [], co_aggregates = [], co_seen = [], co_rows = old\<rparr>"
  have s0: "foldl count_conn (empty_summary\<lparr>sm_Connections := length (ci_conns ci), sm_MalformedEvents := me,
      sm_MalformedVerdicts := mv\<rparr>) (ci_conns ci) = ?s"
    unfolding count_conns by (simp add: conn_summary_def empty_summary_def)
  obtain st where st: "correlate_messages env ci ?st (ci_messages ci) = Inr st"
    "s = (co_summary st)\<lparr>sm_Reasons := sort_key fst (co_reasons st), sm_Fingerprints := sort_key ag_JA4 (map snd (co_aggregates st))\<rparr>"
    "rows = trim_rows (co_rows st)"
    using assms unfolding joined_run_def option.case Let_def s0 by (auto simp: ebind_eq_Inr split: if_splits)
  have "counted ?s [] ?st" by (rule counted_start) (simp_all add: conn_summary_def empty_summary_def)
  from correlate_messages_Inr [OF st(1) this] that [of st] st(2,3) show thesis by simp
qed

lemma sorted_keys:
  assumes "distinct (map f xs)"
  shows "sorted_wrt (<) (map f (sort_key f xs))" "set (sort_key f xs) = set xs"
proof -
  have "distinct (map f (sort_key f xs))"
    using assms by (metis distinct_map mset_sort mset_eq_imp_distinct_iff set_sort sort_key_simps(1) distinct_sort)
  then show "sorted_wrt (<) (map f (sort_key f xs))" by (simp add: strict_sorted_iff)
qed simp

lemma num_split: "num P xs = num (\<lambda>x. P x \<and> Q x) xs + num (\<lambda>x. P x \<and> \<not> Q x) xs"
  by (induction xs) (auto simp: num_def)

lemma num_cong: "(\<And>x. P x \<longleftrightarrow> Q x) \<Longrightarrow> num P xs = num Q xs"
  by (rule arg_cong [of P Q]) (rule ext)

lemma length_num: "length xs = num (\<lambda>x. True) xs"
  by (simp add: num_def)

lemma summary_of_sums:
  "sm_Messages (summary_of s0 rs) = sm_Matched (summary_of s0 rs) + sm_Unmatched (summary_of s0 rs)"
  "sm_Matched (summary_of s0 rs) = sm_Spam (summary_of s0 rs) + sm_Ham (summary_of s0 rs) + sm_Unknown (summary_of s0 rs)"
  "sm_Messages (summary_of s0 rs) =
     sm_TLSMessages (summary_of s0 rs) + sm_PlaintextMessages (summary_of s0 rs) + sm_UnknownTransportMessages (summary_of s0 rs)"
proof -
  show "sm_Messages (summary_of s0 rs) = sm_Matched (summary_of s0 rs) + sm_Unmatched (summary_of s0 rs)"
    using num_split [of "\<lambda>x. True" rs "\<lambda>r. cor_Reason r = ''matched''"] by (simp add: summary_of_def length_num)
  have "num (\<lambda>r. cor_Reason r = ''matched'' \<and> \<not> cor_Classification r = ''spam'') rs =
      num (\<lambda>r. (cor_Reason r = ''matched'' \<and> \<not> cor_Classification r = ''spam'') \<and> cor_Classification r = ''ham'') rs +
      num (\<lambda>r. (cor_Reason r = ''matched'' \<and> \<not> cor_Classification r = ''spam'') \<and> \<not> cor_Classification r = ''ham'') rs"
    by (rule num_split)
  moreover have "num (\<lambda>r. (cor_Reason r = ''matched'' \<and> \<not> cor_Classification r = ''spam'') \<and> cor_Classification r = ''ham'') rs =
      num (\<lambda>r. cor_Reason r = ''matched'' \<and> cor_Classification r = ''ham'') rs"
    by (rule num_cong) auto
  moreover have "num (\<lambda>r. (cor_Reason r = ''matched'' \<and> \<not> cor_Classification r = ''spam'') \<and> \<not> cor_Classification r = ''ham'') rs =
      num (\<lambda>r. cor_Reason r = ''matched'' \<and> cor_Classification r \<notin> {''spam'', ''ham''}) rs"
    by (rule num_cong) auto
  ultimately show "sm_Matched (summary_of s0 rs) = sm_Spam (summary_of s0 rs) + sm_Ham (summary_of s0 rs) + sm_Unknown (summary_of s0 rs)"
    using num_split [of "\<lambda>r. cor_Reason r = ''matched''" rs "\<lambda>r. cor_Classification r = ''spam''"]
    unfolding summary_of_def by simp
  have "num (\<lambda>r. \<not> cor_Transport r = ''starttls'') rs =
      num (\<lambda>r. \<not> cor_Transport r = ''starttls'' \<and> cor_Transport r = ''plaintext'') rs +
      num (\<lambda>r. \<not> cor_Transport r = ''starttls'' \<and> \<not> cor_Transport r = ''plaintext'') rs"
    by (rule num_split)
  moreover have "num (\<lambda>r. \<not> cor_Transport r = ''starttls'' \<and> cor_Transport r = ''plaintext'') rs = num (\<lambda>r. cor_Transport r = ''plaintext'') rs"
    by (rule num_cong) auto
  ultimately show "sm_Messages (summary_of s0 rs) =
     sm_TLSMessages (summary_of s0 rs) + sm_PlaintextMessages (summary_of s0 rs) + sm_UnknownTransportMessages (summary_of s0 rs)"
    using num_split [of "\<lambda>x. True" rs "\<lambda>r. cor_Transport r = ''starttls''"]
    by (simp add: summary_of_def length_num)
qed

lemma conn_summary_sum:
  "length conns = num (\<lambda>c. completeObservation c \<and> \<not> no_upgrade c) conns + num (\<lambda>c. completeObservation c \<and> no_upgrade c) conns +
     num (\<lambda>c. \<not> completeObservation c) conns"
  using num_split [of "\<lambda>c. True" conns completeObservation] num_split [of completeObservation conns no_upgrade]
  by (simp add: length_num)

text \<open>
  C26: the report counts exactly its records. A run reads the three files and joins the
  connections of the instance and listener and the messages, both without the excluded
  sources. Its records are the joined messages, each identity once, in the order of the log;
  every number of the summary is the number of records or connections of its kind, so the
  totals add up; the reasons are in strictly increasing order, each with the number of records
  it explains; and there is one fingerprint line, in strictly increasing order, for exactly the
  fingerprints that matched, with the numbers of their verdicts.
\<close>

theorem correlation_summary:
  assumes "runSMTPCorrelationExcluding env files table inst listener tolerance exclude = Inr (s, ex, rows)"
  shows "\<exists>conns messages verdicts me mv ci.
    readSMTPConnectionsStats (cf_event files) (cf_events files) = Inr (conns, me) \<and>
    readPostfixMessages (cf_time files) (cf_postfix files) inst = Inr messages \<and>
    readSMTPVerdicts (cf_verdict files) (cf_verdicts files) = Inr (verdicts, mv) \<and>
    ci = run_input exclude inst listener tolerance conns messages verdicts \<and>
    sm_Records s = map (correlate_record (ce_rfc3339 env) ci) (first_messages (ce_rfc3339 env) [] (ci_messages ci)) \<and>
    s = (summary_of (conn_summary (ci_conns ci) me mv) (sm_Records s))
      \<lparr>sm_Reasons := sm_Reasons s, sm_Fingerprints := sm_Fingerprints s\<rparr> \<and>
    sm_Messages s = sm_Matched s + sm_Unmatched s \<and> sm_Matched s = sm_Spam s + sm_Ham s + sm_Unknown s \<and>
    sm_Messages s = sm_TLSMessages s + sm_PlaintextMessages s + sm_UnknownTransportMessages s \<and>
    sm_Connections s = sm_STARTTLS s + sm_NoObservedTLS s + sm_Incomplete s \<and>
    sorted_wrt (<) (map fst (sm_Reasons s)) \<and>
    (\<forall>k n. (k, n) \<in> set (sm_Reasons s) \<longleftrightarrow> k \<noteq> ''matched'' \<and> 0 < n \<and> n = num (\<lambda>r. cor_Reason r = k) (sm_Records s)) \<and>
    sorted_wrt (<) (map ag_JA4 (sm_Fingerprints s)) \<and>
    (\<forall>a. a \<in> set (sm_Fingerprints s) \<longleftrightarrow>
       0 < num (matched_fp (ag_JA4 a)) (sm_Records s) \<and> a = aggregate_of (ag_JA4 a) (sm_Records s))"
proof -
  obtain conns messages verdicts me mv old where r:
    "readSMTPConnectionsStats (cf_event files) (cf_events files) = Inr (conns, me)"
    "readPostfixMessages (cf_time files) (cf_postfix files) inst = Inr messages"
    "readSMTPVerdicts (cf_verdict files) (cf_verdicts files) = Inr (verdicts, mv)"
    "joined_run env (run_input exclude inst listener tolerance conns messages verdicts) me mv (Some old) = Inr (s, rows)"
    using run_Inr [OF assms] by metis
  define ci where "ci = run_input exclude inst listener tolerance conns messages verdicts"
  define rs where "rs = map (correlate_record (ce_rfc3339 env) ci) (first_messages (ce_rfc3339 env) [] (ci_messages ci))"
  obtain st where st: "counted (conn_summary (ci_conns ci) me mv) rs st"
    "s = (co_summary st)\<lparr>sm_Reasons := sort_key fst (co_reasons st), sm_Fingerprints := sort_key ag_JA4 (map snd (co_aggregates st))\<rparr>"
    using joined_run_Inr [OF r(4)] unfolding ci_def rs_def by metis
  have c: "co_summary st = summary_of (conn_summary (ci_conns ci) me mv) rs"
    "distinct (map fst (co_reasons st))" "distinct (map fst (co_aggregates st))"
    "\<And>k. map_of (co_reasons st) k =
        (if k \<noteq> ''matched'' \<and> 0 < num (\<lambda>r. cor_Reason r = k) rs then Some (num (\<lambda>r. cor_Reason r = k) rs) else None)"
    "\<And>k. map_of (co_aggregates st) k = (if 0 < num (matched_fp k) rs then Some (aggregate_of k rs) else None)"
    using st(1) by (simp_all add: counted_def)
  have recs: "sm_Records s = rs" by (simp add: st(2) c(1) summary_of_def)
  have reasons: "(k, n) \<in> set (co_reasons st) \<longleftrightarrow> map_of (co_reasons st) k = Some n" for k n
    using c(2) by simp
  have aggs: "(k, a) \<in> set (co_aggregates st) \<longleftrightarrow> map_of (co_aggregates st) k = Some a" for k a
    using c(3) by simp
  then have keys: "k = ag_JA4 a" if "(k, a) \<in> set (co_aggregates st)" for k a
    using that c(5) [of k] by (auto simp: aggregate_of_def split: if_splits)
  then have "map ag_JA4 (map snd (co_aggregates st)) = map fst (co_aggregates st)" by auto
  from arg_cong [OF this, of distinct] c(3) have d: "distinct (map ag_JA4 (map snd (co_aggregates st)))" by simp
  have "a \<in> set (sm_Fingerprints s) \<longleftrightarrow> (ag_JA4 a, a) \<in> set (co_aggregates st)" for a
  proof
    assume "a \<in> set (sm_Fingerprints s)"
    then obtain k where "(k, a) \<in> set (co_aggregates st)" by (auto simp: st(2))
    with keys show "(ag_JA4 a, a) \<in> set (co_aggregates st)" by auto
  next
    assume "(ag_JA4 a, a) \<in> set (co_aggregates st)"
    then have "a \<in> snd ` set (co_aggregates st)" by (rule rev_image_eqI) simp
    then show "a \<in> set (sm_Fingerprints s)" by (simp add: st(2))
  qed
  then have "a \<in> set (sm_Fingerprints s) \<longleftrightarrow> 0 < num (matched_fp (ag_JA4 a)) rs \<and> a = aggregate_of (ag_JA4 a) rs" for a
    unfolding aggs c(5) by auto
  moreover have "(k, n) \<in> set (sm_Reasons s) \<longleftrightarrow> k \<noteq> ''matched'' \<and> 0 < n \<and> n = num (\<lambda>r. cor_Reason r = k) rs" for k n
    unfolding st(2) using reasons [of k n] c(4) [of k] by auto
  moreover have "s = (summary_of (conn_summary (ci_conns ci) me mv) rs)\<lparr>sm_Reasons := sm_Reasons s, sm_Fingerprints := sm_Fingerprints s\<rparr>"
    by (simp add: st(2) c(1))
  moreover have "sm_Messages s = sm_Matched s + sm_Unmatched s \<and> sm_Matched s = sm_Spam s + sm_Ham s + sm_Unknown s \<and>
    sm_Messages s = sm_TLSMessages s + sm_PlaintextMessages s + sm_UnknownTransportMessages s \<and>
    sm_Connections s = sm_STARTTLS s + sm_NoObservedTLS s + sm_Incomplete s"
    using summary_of_sums [of "conn_summary (ci_conns ci) me mv" rs] conn_summary_sum [of "ci_conns ci"]
    by (simp add: st(2) c(1)) (simp add: summary_of_def conn_summary_def)
  moreover have "sorted_wrt (<) (map fst (sm_Reasons s)) \<and> sorted_wrt (<) (map ag_JA4 (sm_Fingerprints s))"
    using sorted_keys(1) [OF c(2)] sorted_keys(1) [OF d] by (simp add: st(2))
  ultimately show ?thesis
    by (intro exI [of _ conns] exI [of _ messages] exI [of _ verdicts] exI [of _ me] exI [of _ mv] exI [of _ ci])
      (simp add: recs r(1-3) ci_def [symmetric] rs_def [symmetric])
qed

section \<open>What a match means\<close>

lemma transport_starttls:
  assumes "messageSMTPTransport c m tolerance = ''starttls''" "0 \<le> tolerance"
  shows "completeObservation c \<and> cr_State c = ''fingerprinted'' \<and> cr_JA3 c \<noteq> [] \<and> cr_JA4 c \<noteq> [] \<and>
    (msg_PostfixTLS m = TLSBeforeMessage \<or> (msg_PostfixTLS m = TLSUnknown \<and> cr_TLS c + tolerance \<le> msg_At m)) \<and>
    cr_Accepted c - tolerance \<le> msg_At m"
proof -
  have complete: "completeObservation c" using assms(1) by (auto simp: messageSMTPTransport_def split: if_splits)
  have fp: "cr_State c = ''fingerprinted''"
    using assms(1) by (auto simp: messageSMTPTransport_def split: if_splits postfix_tls.splits)
  have "cr_Accepted c \<le> cr_TLS c" "cr_JA3 c \<noteq> []" "cr_JA4 c \<noteq> []"
    using complete fp by (auto simp: completeObservation_def split: if_splits)
  then show ?thesis
    using assms complete fp by (auto simp: messageSMTPTransport_def split: if_splits postfix_tls.splits)
qed

lemma eligible_only:
  assumes "eligible_verdicts vs at window seen = [v]"
  shows "\<exists>k. (v, k) \<in> set vs \<and> at \<le> vd_Timestamp v \<and> vd_Timestamp v \<le> at + window \<and>
    (\<forall>(v', k') \<in> set vs. at \<le> vd_Timestamp v' \<and> vd_Timestamp v' \<le> at + window \<longrightarrow> k' = k \<or> k' \<in> set seen)"
proof -
  have none: "eligible_verdicts vs at window seen = [] \<Longrightarrow>
      \<forall>(v', k') \<in> set vs. at \<le> vd_Timestamp v' \<and> vd_Timestamp v' \<le> at + window \<longrightarrow> k' \<in> set seen" for vs seen at window
    by (induction vs at window seen rule: eligible_verdicts.induct) (auto split: if_splits)
  show ?thesis
    using assms
  proof (induction vs at window seen rule: eligible_verdicts.induct)
    case (2 v0 k0 vs at window seen)
    show ?case
    proof (cases "vd_Timestamp v0 < at \<or> vd_Timestamp v0 > at + window \<or> k0 \<in> set seen")
      case True
      then have "eligible_verdicts vs at window seen = [v]" using "2.prems" by (auto split: if_splits)
      then show ?thesis using 2 True by (auto split: if_splits)
    next
      case False
      then have eq: "v = v0" and rest: "eligible_verdicts vs at window (k0 # seen) = []" using "2.prems" by auto
      then show ?thesis using none [OF rest] False by (intro exI [of _ k0]) auto
    qed
  qed simp
qed

lemma bounded_verdict:
  assumes "boundedVerdict vs at window = Some v"
  obtains k where "(v, k) \<in> set vs" "at \<le> vd_Timestamp v" "vd_Timestamp v \<le> at + window"
    "\<forall>(v', k') \<in> set vs. at \<le> vd_Timestamp v' \<and> vd_Timestamp v' \<le> at + window \<longrightarrow> k' = k"
proof -
  have "eligible_verdicts vs at window [] = [v]" using assms by (auto simp: boundedVerdict_def split: list.splits)
  from eligible_only [OF this] that show thesis by fastforce
qed

lemma judge_matched:
  assumes "cor_Reason (judge vs tolerance m c) = ''matched''"
  obtains v where "messageSMTPTransport c m tolerance = ''starttls''" "boundedVerdict vs (msg_At m) hour = Some v"
    "judge vs tolerance m c = (initial_record m)\<lparr>cor_ConnectionID := cr_ID c, cor_Listener := cr_Listener c,
       cor_Transport := ''starttls'', cor_Classification := vd_Classification v, cor_Score := vd_Score v,
       cor_Action := vd_Action v, cor_Symbols := vd_Symbols v, cor_VerdictAt := Some (vd_Timestamp v),
       cor_Reason := ''matched'', cor_JA3 := cr_JA3 c, cor_JA4 := cr_JA4 c\<rparr>"
proof -
  have t: "messageSMTPTransport c m tolerance = ''starttls''"
    using assms by (auto simp: judge_def Let_def split: if_splits)
  obtain v where v: "boundedVerdict vs (msg_At m) hour = Some v"
    using assms by (cases "boundedVerdict vs (msg_At m) hour") (auto simp: judge_def t Let_def split: if_splits)
  have "vs \<noteq> []" using v by (auto simp: boundedVerdict_def)
  then show thesis by (intro that [OF t v]) (simp add: judge_def t v)
qed

lemma correlate_matched:
  assumes "cor_Reason (correlate_record utc ci m) = ''matched''"
  obtains c where "matchSMTPConn (by_client (ci_conns ci) m) m (ci_tolerance ci) = [c]"
    "message_occurrences utc (ci_messages ci) m \<le> 1"
    "correlate_record utc ci m = judge (by_queue (ci_verdicts ci) m) (ci_tolerance ci) m c"
  using assms by (auto simp: correlate_record_def Let_def not_less split: if_splits list.splits)

lemma occurrences_one:
  assumes "message_occurrences utc messages m \<le> 1" "m \<in> set messages" "m' \<in> set messages"
    "queue_key (msg_Instance m') (msg_QueueID m') = queue_key (msg_Instance m) (msg_QueueID m)"
  shows "smtpMessageIdentity utc m' = smtpMessageIdentity utc m"
proof -
  let ?ids = "map (smtpMessageIdentity utc)
      (filter (\<lambda>m'. queue_key (msg_Instance m') (msg_QueueID m') = queue_key (msg_Instance m) (msg_QueueID m)) messages)"
  have "card (set ?ids) \<le> Suc 0" using assms(1) by (simp add: message_occurrences_def length_remdups_card_conv)
  moreover have "smtpMessageIdentity utc m \<in> set ?ids" "smtpMessageIdentity utc m' \<in> set ?ids" using assms(2-4) by auto
  ultimately show ?thesis by (meson card_le_Suc0_iff_eq List.finite_set)
qed

text \<open>
  C25: a match is not a guess. Every matched record stands for a message of the log, one
  connection and one verdict of the files: the connection is the only one of the instance and
  the listener whose lifetime fits the message's session, its observation is complete and
  ended fingerprinted, the message does not come before STARTTLS was accepted by more than the
  tolerance, and it was sent over TLS: Postfix logged the handshake before the message, or, if it
  logged none, the message came after the ClientHello by at least the tolerance; no other message has the queue id; and the verdict, for
  this queue id and from the hour after the message, is the only one there up to repetitions.
  The record carries that connection's fingerprints and that verdict.
\<close>

theorem correlation_matched:
  assumes "runSMTPCorrelationExcluding env files table inst listener tolerance exclude = Inr (s, ex, rows)"
    and "r \<in> set (sm_Records s)" "cor_Reason r = ''matched''"
  shows "\<exists>conns messages verdicts me mv m c v k.
    readSMTPConnectionsStats (cf_event files) (cf_events files) = Inr (conns, me) \<and>
    readPostfixMessages (cf_time files) (cf_postfix files) inst = Inr messages \<and>
    readSMTPVerdicts (cf_verdict files) (cf_verdicts files) = Inr (verdicts, mv) \<and>
    m \<in> set messages \<and> \<not> excludesClient exclude (msg_Client m) \<and> msg_HasSession m \<and>
    c \<in> set conns \<and> cr_Instance c = inst \<and> cr_Listener c = listener \<and> conn_matches m tolerance c \<and>
    (\<forall>c' \<in> set conns. cr_Instance c' = inst \<and> cr_Listener c' = listener \<and> conn_matches m tolerance c' \<longrightarrow> c' = c) \<and>
    completeObservation c \<and> cr_State c = ''fingerprinted'' \<and> cr_Accepted c - tolerance \<le> msg_At m \<and>
    (msg_PostfixTLS m = TLSBeforeMessage \<or> (msg_PostfixTLS m = TLSUnknown \<and> cr_TLS c + tolerance \<le> msg_At m)) \<and>
    (\<forall>m' \<in> set messages. \<not> excludesClient exclude (msg_Client m') \<and>
       queue_key (msg_Instance m') (msg_QueueID m') = queue_key (msg_Instance m) (msg_QueueID m) \<longrightarrow>
       smtpMessageIdentity (ce_rfc3339 env) m' = smtpMessageIdentity (ce_rfc3339 env) m) \<and>
    (v, k) \<in> set verdicts \<and> queue_key (vd_Instance v) (vd_QueueID v) = queue_key (msg_Instance m) (msg_QueueID m) \<and>
    msg_At m \<le> vd_Timestamp v \<and> vd_Timestamp v \<le> msg_At m + hour \<and>
    (\<forall>(v', k') \<in> set verdicts. queue_key (vd_Instance v') (vd_QueueID v') = queue_key (msg_Instance m) (msg_QueueID m) \<and>
       msg_At m \<le> vd_Timestamp v' \<and> vd_Timestamp v' \<le> msg_At m + hour \<longrightarrow> k' = k) \<and>
    r = (initial_record m)\<lparr>cor_ConnectionID := cr_ID c, cor_Listener := listener, cor_Transport := ''starttls'',
      cor_Classification := vd_Classification v, cor_Score := vd_Score v, cor_Action := vd_Action v,
      cor_Symbols := vd_Symbols v, cor_VerdictAt := Some (vd_Timestamp v), cor_Reason := ''matched'',
      cor_JA3 := cr_JA3 c, cor_JA4 := cr_JA4 c\<rparr> \<and>
    cor_JA3 r \<noteq> [] \<and> cor_JA4 r \<noteq> []"
proof -
  obtain conns messages verdicts me mv old where run: "0 \<le> tolerance"
    "readSMTPConnectionsStats (cf_event files) (cf_events files) = Inr (conns, me)"
    "readPostfixMessages (cf_time files) (cf_postfix files) inst = Inr messages"
    "readSMTPVerdicts (cf_verdict files) (cf_verdicts files) = Inr (verdicts, mv)"
    "joined_run env (run_input exclude inst listener tolerance conns messages verdicts) me mv (Some old) = Inr (s, rows)"
    using run_Inr [OF assms(1)] by metis
  define ci where "ci = run_input exclude inst listener tolerance conns messages verdicts"
  have ci: "ci_messages ci = filter (\<lambda>m. \<not> excludesClient exclude (msg_Client m)) messages" "ci_verdicts ci = verdicts"
    "ci_tolerance ci = tolerance"
    "ci_conns ci = filter (\<lambda>c. cr_Instance c = inst \<and> cr_Listener c = listener \<and> \<not> excludesClient exclude (cr_Client c)) conns"
    by (simp_all add: ci_def run_input_def)
  obtain st where st: "counted (conn_summary (ci_conns ci) me mv)
      (map (correlate_record (ce_rfc3339 env) ci) (first_messages (ce_rfc3339 env) [] (ci_messages ci))) st"
    "s = (co_summary st)\<lparr>sm_Reasons := sort_key fst (co_reasons st), sm_Fingerprints := sort_key ag_JA4 (map snd (co_aggregates st))\<rparr>"
    using joined_run_Inr [OF run(5)] unfolding ci_def by metis
  then have "sm_Records s = map (correlate_record (ce_rfc3339 env) ci) (first_messages (ce_rfc3339 env) [] (ci_messages ci))"
    by (simp add: counted_def summary_of_def)
  then obtain m where m: "m \<in> set (ci_messages ci)" "r = correlate_record (ce_rfc3339 env) ci m"
    using assms(2) first_messages_set by fastforce
  have matched: "cor_Reason (correlate_record (ce_rfc3339 env) ci m) = ''matched''" using assms(3) m(2) by simp
  obtain c where c: "matchSMTPConn (by_client (ci_conns ci) m) m tolerance = [c]"
    "message_occurrences (ce_rfc3339 env) (ci_messages ci) m \<le> 1"
    "correlate_record (ce_rfc3339 env) ci m = judge (by_queue verdicts m) tolerance m c"
    using correlate_matched [OF matched, unfolded ci(2,3)] .
  obtain v where v: "messageSMTPTransport c m tolerance = ''starttls''" "boundedVerdict (by_queue verdicts m) (msg_At m) hour = Some v"
    "judge (by_queue verdicts m) tolerance m c = (initial_record m)\<lparr>cor_ConnectionID := cr_ID c, cor_Listener := cr_Listener c,
       cor_Transport := ''starttls'', cor_Classification := vd_Classification v, cor_Score := vd_Score v,
       cor_Action := vd_Action v, cor_Symbols := vd_Symbols v, cor_VerdictAt := Some (vd_Timestamp v),
       cor_Reason := ''matched'', cor_JA3 := cr_JA3 c, cor_JA4 := cr_JA4 c\<rparr>"
    using judge_matched [OF matched [unfolded c(3)]] .
  note rec = m(2) [unfolded c(3) v(3)]
  obtain k where k: "(v, k) \<in> set (by_queue verdicts m)" "msg_At m \<le> vd_Timestamp v" "vd_Timestamp v \<le> msg_At m + hour"
    "\<forall>(v', k') \<in> set (by_queue verdicts m). msg_At m \<le> vd_Timestamp v' \<and> vd_Timestamp v' \<le> msg_At m + hour \<longrightarrow> k' = k"
    using bounded_verdict [OF v(2)] .
  have session: "msg_HasSession m" using c(1) by (auto simp: matchSMTPConn_def split: if_splits)
  then have only: "set (filter (conn_matches m tolerance) (by_client (ci_conns ci) m)) = {c}"
    using c(1) by (simp add: matchSMTPConn_def)
  have "c \<in> set (filter (conn_matches m tolerance) (by_client (ci_conns ci) m))" unfolding only by simp
  then have cm: "c \<in> set conns" "cr_Instance c = inst" "cr_Listener c = listener" "conn_matches m tolerance c"
    by (auto simp: by_client_def ci)
  have unique: "c' = c" if "c' \<in> set conns" "cr_Instance c' = inst" "cr_Listener c' = listener" "conn_matches m tolerance c'" for c'
  proof -
    have "cr_Client c' = msg_Client m" using that(4) by (auto simp: conn_matches_def split: if_splits)
    then have "c' \<in> set (filter (conn_matches m tolerance) (by_client (ci_conns ci) m))"
      using that m(1) by (auto simp: by_client_def ci)
    then show ?thesis unfolding only by simp
  qed
  have once: "smtpMessageIdentity (ce_rfc3339 env) m' = smtpMessageIdentity (ce_rfc3339 env) m"
    if "m' \<in> set messages" "\<not> excludesClient exclude (msg_Client m')"
      "queue_key (msg_Instance m') (msg_QueueID m') = queue_key (msg_Instance m) (msg_QueueID m)" for m'
    using occurrences_one [OF c(2) m(1), of m'] that by (simp add: ci)
  have tls: "completeObservation c" "cr_State c = ''fingerprinted''" "cr_Accepted c - tolerance \<le> msg_At m"
    "msg_PostfixTLS m = TLSBeforeMessage \<or> (msg_PostfixTLS m = TLSUnknown \<and> cr_TLS c + tolerance \<le> msg_At m)" "cr_JA3 c \<noteq> []" "cr_JA4 c \<noteq> []"
    using transport_starttls [OF v(1) run(1)] by simp_all
  have verdict: "(v, k) \<in> set verdicts" "queue_key (vd_Instance v) (vd_QueueID v) = queue_key (msg_Instance m) (msg_QueueID m)"
    using k(1) by (simp_all add: by_queue_def)
  have others: "\<forall>(v', k') \<in> set verdicts. queue_key (vd_Instance v') (vd_QueueID v') = queue_key (msg_Instance m) (msg_QueueID m) \<and>
       msg_At m \<le> vd_Timestamp v' \<and> vd_Timestamp v' \<le> msg_At m + hour \<longrightarrow> k' = k"
    using k(4) by (auto simp: by_queue_def)
  have members: "m \<in> set messages" "\<not> excludesClient exclude (msg_Client m)" using m(1) by (simp_all add: ci)
  have unique': "\<forall>c' \<in> set conns. cr_Instance c' = inst \<and> cr_Listener c' = listener \<and> conn_matches m tolerance c' \<longrightarrow> c' = c"
    using unique by blast
  have once': "\<forall>m' \<in> set messages. \<not> excludesClient exclude (msg_Client m') \<and>
       queue_key (msg_Instance m') (msg_QueueID m') = queue_key (msg_Instance m) (msg_QueueID m) \<longrightarrow>
       smtpMessageIdentity (ce_rfc3339 env) m' = smtpMessageIdentity (ce_rfc3339 env) m"
    using once by blast
  have fps: "cor_JA3 r \<noteq> []" "cor_JA4 r \<noteq> []" using tls(5,6) by (simp_all add: rec)
  show ?thesis
    by (intro exI conjI; (rule run(2-4) members session cm unique' tls(1-4) once' verdict k(2,3) others rec [unfolded cm(3)] fps)+)
qed

text \<open>An example run: one session, one message, one verdict.\<close>

definition demo_conn_lines :: "(string \<times> smtp_event) list" where
  "demo_conn_lines =
     (let e = \<lparr>ev_Version = 1, ev_Type = ''start'', ev_Timestamp = 10, ev_Instance = ''mx'', ev_ConnectionID = ''c1'',
          ev_Client = ''h:1'', ev_Listener = ''l:25'', ev_Backend = ''b'', ev_JA3 = [], ev_JA4 = [], ev_Error = [],
          ev_State = [], ev_Behavior = None\<rparr>
      in [(''s'', e), (''a'', e\<lparr>ev_Type := ''starttls'', ev_State := ''accepted'', ev_Timestamp := 20\<rparr>),
          (''f'', e\<lparr>ev_Type := ''fingerprint'', ev_JA3 := ''j3'', ev_JA4 := ''j4'', ev_Timestamp := 30\<rparr>),
          (''e'', e\<lparr>ev_Type := ''end'', ev_State := ''fingerprinted'', ev_Timestamp := 90\<rparr>)])"

definition demo_verdict :: smtp_verdict where
  "demo_verdict = \<lparr>vd_Timestamp = 60, vd_Instance = ''mx'', vd_QueueID = ''Q'', vd_Classification = ''ham'',
     vd_Score = ''1'', vd_Action = ''accept'', vd_Symbols = []\<rparr>"

definition demo_files :: corr_files where
  "demo_files =
     \<lparr>cf_events = Some (text_file [''s'', ''a'', ''f'', ''e'']),
      cf_postfix = Some (text_file [''1 h postfix/smtpd[7]: connect from u[h]:1'', ''5 h postfix/smtpd[7]: Q: client=u[h]:1'']),
      cf_verdicts = Some (text_file [''v'']),
      cf_event = (\<lambda>l. map_option (\<lambda>e. (e, l)) (map_of demo_conn_lines l)),
      cf_time = (\<lambda>t. if t = ''1'' then Some 11 else if t = ''5'' then Some 50 else None),
      cf_verdict = (\<lambda>l. if l = ''v'' then Some (demo_verdict, l) else None)\<rparr>"

definition demo_env :: corr_env where
  "demo_env = \<lparr>ce_rfc3339 = (\<lambda>t. itoa_int t), ce_fixed = (\<lambda>t. itoa_int t), ce_now = (\<lambda>m. []),
     ce_exec = (\<lambda>r. True), ce_trim = True, ce_commit = True\<rparr>"

lemma demo_lines:
  "batch_lines (cf_events demo_files) = Inr [''s'', ''a'', ''f'', ''e'']"
  "batch_lines (cf_postfix demo_files) = Inr [''1 h postfix/smtpd[7]: connect from u[h]:1'', ''5 h postfix/smtpd[7]: Q: client=u[h]:1'']"
  "batch_lines (cf_verdicts demo_files) = Inr [''v'']"
  by (simp_all add: demo_files_def text_file_def batch_lines_def newSMTPBatchScanner_def maxSMTPBatchBytes_def
      maxSMTPBatchLine_def maxSMTPBatchLines_def drop_cr_def Let_def)

definition demo_conn :: smtp_conn_record where
  "demo_conn = \<lparr>cr_ID = ''c1'', cr_Instance = ''mx'', cr_Client = ''h:1'', cr_Listener = ''l:25'', cr_JA3 = ''j3'', cr_JA4 = ''j4'',
     cr_Start = 10, cr_End = 90, cr_TLS = 30, cr_Accepted = 20, cr_State = ''fingerprinted'', cr_Invalid = False, cr_Behavior = None\<rparr>"

definition demo_message :: smtp_message where
  "demo_message = \<lparr>msg_Instance = ''mx'', msg_QueueID = ''Q'', msg_Client = ''h:1'', msg_PID = ''7'', msg_At = 50,
     msg_SessionStart = 11, msg_HasSession = True, msg_PostfixTLS = TLSUnknown\<rparr>"

lemma demo_conns: "readSMTPConnectionsStats (cf_event demo_files) (cf_events demo_files) = Inr ([demo_conn], 0)"
proof -
  have "foldl conn_event \<lparr>rd_by = [], rd_seen = [], rd_bad = 0\<rparr> (map (cf_event demo_files) [''s'', ''a'', ''f'', ''e'']) =
      \<lparr>rd_by = [(''mx'' @ nul @ ''c1'', demo_conn)], rd_seen = [(''mx'' @ nul @ ''c1'' @ nul @ ''start'', ''s''),
        (''mx'' @ nul @ ''c1'' @ nul @ ''starttls'', ''a''), (''mx'' @ nul @ ''c1'' @ nul @ ''fingerprint'', ''f''),
        (''mx'' @ nul @ ''c1'' @ nul @ ''end'', ''e'')], rd_bad = 0\<rparr>"
    by code_simp
  then show ?thesis by (simp add: readSMTPConnectionsStats_def demo_lines)
qed

lemma demo_messages: "readPostfixMessages (cf_time demo_files) (cf_postfix demo_files) ''mx'' = Inr [demo_message]"
proof -
  have "pf_out (foldl (postfix_line (cf_time demo_files) ''mx'') \<lparr>pf_sessions = Map.empty, pf_out = []\<rparr>
      [''1 h postfix/smtpd[7]: connect from u[h]:1'', ''5 h postfix/smtpd[7]: Q: client=u[h]:1'']) = [demo_message]"
    by code_simp
  then show ?thesis by (simp add: readPostfixMessages_def demo_lines)
qed

lemma demo_verdicts: "readSMTPVerdicts (cf_verdict demo_files) (cf_verdicts demo_files) = Inr ([(demo_verdict, ''v'')], 0)"
  unfolding readSMTPVerdicts_def demo_lines by (simp add: demo_files_def verdict_ok_def demo_verdict_def)

lemma demo_record:
  "correlate_record (ce_rfc3339 demo_env) (run_input [] ''mx'' ''l:25'' 5 [demo_conn] [demo_message] [(demo_verdict, ''v'')]) demo_message =
    (initial_record demo_message)\<lparr>cor_ConnectionID := ''c1'', cor_Listener := ''l:25'', cor_Transport := ''starttls'',
      cor_Classification := ''ham'', cor_Score := ''1'', cor_Action := ''accept'', cor_VerdictAt := Some 60,
      cor_Reason := ''matched'', cor_JA3 := ''j3'', cor_JA4 := ''j4''\<rparr>"
  by code_simp

lemma demo_run_Inr: "\<exists>s rows. joined_run demo_env ci me mv (Some []) = Inr (s, rows)"
proof -
  have env: "ce_trim demo_env" "ce_commit demo_env" "ce_exec demo_env r" for r by (simp_all add: demo_env_def)
  have "correlate_messages demo_env ci st ms \<noteq> Inl e" for st ms e
    by (induction ms arbitrary: st) (auto simp: correlate_message_def env Let_def ebind_eq_Inl)
  then obtain st where "correlate_messages demo_env ci \<lparr>co_summary = foldl count_conn (empty_summary\<lparr>sm_Connections := length (ci_conns ci),
      sm_MalformedEvents := me, sm_MalformedVerdicts := mv\<rparr>) (ci_conns ci), co_reasons = [], co_aggregates = [], co_seen = [],
      co_rows = []\<rparr> (ci_messages ci) = Inr st"
    by (metis sum.exhaust)
  then show ?thesis by (simp add: joined_run_def env)
qed

lemma demo_run: "\<exists>s ex rows. runSMTPCorrelationExcluding demo_env demo_files (Some []) ''mx'' ''l:25'' 5 [] = Inr (s, ex, rows)"
proof -
  have "SplitHostPort ''l:25'' = Some (''l'', ''25'')" by code_simp
  then show ?thesis
    using demo_run_Inr by (simp add: runSMTPCorrelationExcluding_def minute_def second_def demo_conns demo_messages
        demo_verdicts ebind_eq_Inr Let_def)
qed

lemma run_records:
  assumes "runSMTPCorrelationExcluding env files table inst listener tolerance exclude = Inr (s, ex, rows)"
    and "readSMTPConnectionsStats (cf_event files) (cf_events files) = Inr (conns, me)"
    and "readPostfixMessages (cf_time files) (cf_postfix files) inst = Inr messages"
    and "readSMTPVerdicts (cf_verdict files) (cf_verdicts files) = Inr (verdicts, mv)"
    and "ci = run_input exclude inst listener tolerance conns messages verdicts"
  shows "sm_Records s = map (correlate_record (ce_rfc3339 env) ci) (first_messages (ce_rfc3339 env) [] (ci_messages ci))"
proof -
  obtain old where "joined_run env ci me mv (Some old) = Inr (s, rows)"
    using run_Inr [OF assms(1)] assms(2-5) by (metis Inr_inject Pair_inject)
  then show ?thesis
    by (rule joined_run_Inr) (simp add: counted_def summary_of_def)
qed

lemma demo_records:
  assumes "runSMTPCorrelationExcluding demo_env demo_files (Some []) ''mx'' ''l:25'' 5 [] = Inr (s, ex, rows)"
  shows "sm_Records s = [correlate_record (ce_rfc3339 demo_env)
    (run_input [] ''mx'' ''l:25'' 5 [demo_conn] [demo_message] [(demo_verdict, ''v'')]) demo_message]"
proof -
  have "ci_messages (run_input [] ''mx'' ''l:25'' 5 [demo_conn] [demo_message] [(demo_verdict, ''v'')]) = [demo_message]"
    by (simp add: run_input_def excludesClient_def)
  then show ?thesis using run_records [OF assms demo_conns demo_messages demo_verdicts refl] by simp
qed

lemma correlation_summary_witness:
  "\<exists>s ex rows. runSMTPCorrelationExcluding demo_env demo_files (Some []) ''mx'' ''l:25'' 5 [] = Inr (s, ex, rows) \<and>
     map cor_Reason (sm_Records s) = [''matched''] \<and> sm_Messages s = sm_Matched s + sm_Unmatched s"
proof -
  obtain s ex rows where run: "runSMTPCorrelationExcluding demo_env demo_files (Some []) ''mx'' ''l:25'' 5 [] = Inr (s, ex, rows)"
    using demo_run by blast
  have "map cor_Reason (sm_Records s) = [''matched'']" by (simp add: demo_records [OF run] demo_record)
  moreover from correlation_summary [OF run] have "sm_Messages s = sm_Matched s + sm_Unmatched s" by blast
  ultimately show ?thesis using run by (intro exI [of _ s] exI [of _ ex] exI [of _ rows]) simp
qed

lemma correlation_matched_witness:
  "\<exists>(r :: smtp_correlation) m. cor_Reason r = ''matched'' \<and> msg_HasSession m \<and> cor_JA4 r \<noteq> [] \<and>
     readPostfixMessages (cf_time demo_files) (cf_postfix demo_files) ''mx'' = Inr [m]"
proof -
  obtain s ex rows where run: "runSMTPCorrelationExcluding demo_env demo_files (Some []) ''mx'' ''l:25'' 5 [] = Inr (s, ex, rows)"
    using demo_run by blast
  define r where "r = correlate_record (ce_rfc3339 demo_env)
    (run_input [] ''mx'' ''l:25'' 5 [demo_conn] [demo_message] [(demo_verdict, ''v'')]) demo_message"
  have r: "r \<in> set (sm_Records s)" "cor_Reason r = ''matched''" by (simp_all add: r_def demo_records [OF run] demo_record)
  from correlation_matched [OF run r] obtain messages m where
    "readPostfixMessages (cf_time demo_files) (cf_postfix demo_files) ''mx'' = Inr messages"
    "m \<in> set messages" "msg_HasSession m" "cor_JA4 r \<noteq> []" by blast
  then show ?thesis using r(2) by (intro exI [of _ r] exI [of _ m]) (auto simp: demo_messages)
qed

section \<open>What the table holds\<close>

lemma newer_row_trans: "newer_row x y \<Longrightarrow> newer_row y z \<Longrightarrow> newer_row x z"
  by (auto simp: newer_row_def)

lemma newer_row_total: "row_key x \<noteq> row_key y \<Longrightarrow> newer_row x y \<or> newer_row y x"
  by (auto simp: newer_row_def)

lemma oldest_row:
  "distinct (map row_key rows) \<Longrightarrow> rows \<noteq> [] \<Longrightarrow> \<exists>r \<in> set rows. \<forall>x \<in> set rows. x \<noteq> r \<longrightarrow> newer_row x r"
proof (induction rows)
  case (Cons y rows)
  show ?case
  proof (cases "rows = []")
    case False
    then obtain r where r: "r \<in> set rows" "\<forall>x \<in> set rows. x \<noteq> r \<longrightarrow> newer_row x r" using Cons by auto
    have "row_key y \<noteq> row_key r" using Cons.prems r(1) by auto
    with newer_row_total consider "newer_row y r" | "newer_row r y" by blast
    then show ?thesis
    proof cases
      case 1
      then show ?thesis using r by auto
    next
      case 2
      then have "newer_row x y" if "x \<in> set rows" for x
        using r(2) that by (cases "x = r") (auto intro: newer_row_trans [of x r y])
      then show ?thesis by auto
    qed
  qed simp
qed simp

lemma trim_rows_bounded:
  assumes "distinct (map row_key rows)"
  shows "length (trim_rows rows) \<le> maxCorrelationRows \<and> distinct (map row_key (trim_rows rows))"
proof (rule conjI, rule ccontr)
  let ?kept = "trim_rows rows"
  show keys: "distinct (map row_key ?kept)" using assms by (auto simp: trim_rows_def distinct_map_filter)
  assume "\<not> length ?kept \<le> maxCorrelationRows"
  then have long: "maxCorrelationRows < length ?kept" by simp
  then obtain r where r: "r \<in> set ?kept" "\<forall>x \<in> set ?kept. x \<noteq> r \<longrightarrow> newer_row x r"
    using oldest_row [OF keys] by fastforce
  have "maxCorrelationRows \<le> length (remove1 r ?kept)" using long r(1) by (simp add: length_remove1)
  also have "remove1 r ?kept = filter (\<lambda>x. x \<noteq> r) ?kept"
    using keys by (simp add: distinct_remove1_removeAll removeAll_filter_not_eq distinct_map eq_commute)
  also have "filter (\<lambda>x. x \<noteq> r) ?kept = filter (\<lambda>x. x \<noteq> r \<and> length (filter (\<lambda>y. newer_row y x) rows) < maxCorrelationRows) rows"
    unfolding trim_rows_def by (simp add: conj_commute)
  also have "\<dots> = filter (\<lambda>x. x \<noteq> r \<and> length (filter (\<lambda>y. newer_row y x) rows) < maxCorrelationRows) (filter (\<lambda>x. newer_row x r) rows)"
    unfolding filter_filter by (rule filter_cong) (use r(2) in \<open>auto simp: trim_rows_def\<close>)
  also have "length \<dots> \<le> length (filter (\<lambda>x. newer_row x r) rows)" by (rule length_filter_le)
  finally show False using r(1) by (simp add: trim_rows_def)
qed

lemma upsert_keys: "map row_key (upsert_row r rows) =
    (if row_key r \<in> row_key ` set rows then map row_key rows else map row_key rows @ [row_key r])"
  by (induction rows) auto

lemma rows_after_keys: "distinct (map row_key rows) \<Longrightarrow> distinct (map row_key (rows_after env ci rows ms))"
  by (induction ms arbitrary: rows) (simp_all add: rows_after_def upsert_keys)

lemma correlation_table:
  assumes "runSMTPCorrelationExcluding env files (Some old) inst listener tolerance exclude = Inr (s, ex, rows)"
    and "distinct (map row_key old)"
  shows "length rows \<le> maxCorrelationRows \<and> distinct (map row_key rows)"
proof -
  obtain ci me mv where "joined_run env ci me mv (Some old) = Inr (s, rows)"
    using run_Inr [OF assms(1)] by (metis option.inject)
  then obtain ms where "rows = trim_rows (rows_after env ci old ms)" by (rule joined_run_Inr)
  then show ?thesis using trim_rows_bounded [OF rows_after_keys [OF assms(2)]] by simp
qed

end
