(* ===== verification/Smtp_Report.thy ===== *)
theory Smtp_Report
  imports Cleanup Smtp_Campaign Smtp_Correlation
begin

text \<open>
  Reports to Gatehub (\<open>smtp_report.go\<close>): the checks of a campaign report, the bounded report
  built from a summary and a campaign report, and the upload with its retries. The control
  plane's configuration check, JSON and the HTTP client are arguments; a file is what reading
  and closing it yield.
\<close>

section \<open>Bounds\<close>

definition maxSMTPReportInput :: nat where "maxSMTPReportInput = 8 * 1024 * 1024"
definition maxSMTPReportBody :: nat where "maxSMTPReportBody = 1024 * 1024"
definition maxSMTPReportItems :: nat where "maxSMTPReportItems = 256"

section \<open>Checking a campaign report\<close>

datatype campaign_report_error =
    UnsupportedSchema string
  | IdentityMismatch
  | NegativeCount
  | InconsistentCounts
  | InconsistentEvidence
  | InvalidSignature
  | SignatureNotDeclared
  | InvalidEvidence
  | EvidenceClient
  | EvidenceSignature

text \<open>The loop over the declared signatures.\<close>

fun signatures_ok :: "string list \<Rightarrow> string list \<Rightarrow> bool" where
  "signatures_ok [] known = True"
| "signatures_ok (s # ss) known =
     (if s = [] \<or> length s > 128 \<or> s \<in> set known then False else signatures_ok ss (s # known))"

definition record_bounds :: "smtp_campaign_record \<Rightarrow> bool" where
  "record_bounds r \<longleftrightarrow> \<not> (cp_Timestamp r = 0 \<or> length (cp_Client r) > 256 \<or> length (cp_ConnectionID r) > 128 \<or>
     length (cp_BehaviorFingerprint r) > 128 \<or> length (cp_Signature r) > 128 \<or> length (cp_Reason r) > 128 \<or>
     length (cp_Provider r) > 128 \<or> length (cp_NetworkPrefix r) > 128 \<or> length (cp_RecipientCluster r) > 128)"

fun check_records :: "string list \<Rightarrow> smtp_campaign_record list \<Rightarrow> campaign_report_error + unit" where
  "check_records known [] = Inr ()"
| "check_records known (r # rs) =
     (if \<not> record_bounds r then Inl InvalidEvidence
      else if SplitHostPort (cp_Client r) = None then Inl EvidenceClient
      else if cp_Signature r \<noteq> [] \<and> cp_Signature r \<notin> set known then Inl EvidenceSignature
      else check_records known rs)"

definition validateSMTPCampaignReport :: "smtp_campaign_report \<Rightarrow> string \<Rightarrow> string \<Rightarrow> campaign_report_error + unit" where
  "validateSMTPCampaignReport g inst listener =
     (if cg_Schema g \<noteq> smtpCampaignReportSchema then Inl (UnsupportedSchema (cg_Schema g))
      else if cg_Instance g \<noteq> inst \<or> cg_Listener g \<noteq> listener then Inl IdentityMismatch
      else if list_ex (\<lambda>n. n < 0) [cg_Connections g, cg_EvidenceSessions g, cg_Matched g, cg_Unmatched g,
          cg_ConnectionsWithoutEvidence g, cg_MalformedEvents g, cg_MalformedLogLines g] then Inl NegativeCount
      else if cg_Matched g + cg_Unmatched g \<noteq> cg_EvidenceSessions g \<or> cg_ConnectionsWithoutEvidence g > cg_Connections g
      then Inl InconsistentCounts
      else if int (length (cg_Records g)) \<noteq> cg_EvidenceSessions g \<or> cg_Signatures g = [] \<or> length (cg_Signatures g) > 32
      then Inl InconsistentEvidence
      else if \<not> signatures_ok (cg_Signatures g) [] then Inl InvalidSignature
      else if cg_Signature g \<noteq> [] \<and> cg_Signature g \<notin> set (cg_Signatures g) then Inl SignatureNotDeclared
      else check_records (cg_Signatures g) (cg_Records g))"

section \<open>The bounded report\<close>

record report_truncated =
  tr_Fingerprints :: nat
  tr_Records :: nat
  tr_CampaignRecords :: nat

record report_envelope =
  re_SchemaVersion :: nat
  re_InstanceID :: string
  re_SMTPInstance :: string
  re_Listener :: string
  re_CoverageStart :: time
  re_CoverageEnd :: time
  re_GeneratedAt :: time
  re_ReplayID :: string
  re_Summary :: smtp_summary
  re_Campaign :: "smtp_campaign_report option"
  re_Truncated :: report_truncated

datatype report_error =
    ConfigInvalid
  | SMTPInstanceRequired
  | ReportListenerInvalid
  | ReportTime
  | TimesOutOfOrder
  | ReportFile
  | ReportTooLarge nat
  | ReportDecode
  | ReportClose
  | CampaignFile report_error
  | CampaignInvalid campaign_report_error
  | ReportMarshal
  | BodyTooLarge nat

text \<open>
  A file that was opened, decoded as exactly one JSON value from at most one byte more than the
  limit. The functions that open a file close it at their end.
\<close>

definition read_report_file :: "(string \<Rightarrow> 'a option) \<Rightarrow> batch_file option \<Rightarrow> report_error + 'a" where
  "read_report_file decode f =
     (case f of
        None \<Rightarrow> Inl ReportFile
      | Some f \<Rightarrow>
          if \<not> bf_regular f then Inl ReportFile
          else if bf_size f > maxSMTPReportInput then Inl (ReportTooLarge (bf_size f))
          else (case decode (take (maxSMTPReportInput + 1) (bf_data f)) of None \<Rightarrow> Inl ReportDecode | Some x \<Rightarrow> Inr x))"

definition file_closes :: "batch_file option \<Rightarrow> bool" where
  "file_closes f = (case f of None \<Rightarrow> True | Some f \<Rightarrow> bf_closes f)"

definition readSMTPCampaignReport ::
  "(string \<Rightarrow> smtp_campaign_report option) \<Rightarrow> batch_file option \<Rightarrow> string \<Rightarrow> string \<Rightarrow> report_error + smtp_campaign_report" where
  "readSMTPCampaignReport decode f inst listener =
     closing ReportClose (file_closes f) (ebind (read_report_file decode f) (\<lambda>g.
       case validateSMTPCampaignReport g inst listener of Inl e \<Rightarrow> Inl (CampaignInvalid e) | Inr _ \<Rightarrow> Inr g))"

text \<open>
  What the report is built with: whether the configuration is valid, its instance, the parser
  of times, the decoders, and \<open>json.Marshal\<close> on the two values it is applied to (it can fail on a
  time beyond the year 9999): the anonymous struct whose text is hashed, and the report.
\<close>

record report_canonical =
  ca_Instance :: string
  ca_Listener :: string
  ca_Start :: time
  ca_End :: time
  ca_Summary :: smtp_summary
  ca_Campaign :: "smtp_campaign_report option"
  ca_Truncated :: report_truncated

record report_env =
  rv_config_ok :: bool
  rv_instance_id :: string
  rv_time :: "string \<Rightarrow> time option"
  rv_summary :: "string \<Rightarrow> smtp_summary option"
  rv_campaign :: "string \<Rightarrow> smtp_campaign_report option"
  rv_canonical :: "report_canonical \<Rightarrow> string option"
  rv_body :: "report_envelope \<Rightarrow> string option"

definition truncate_summary :: "smtp_summary \<Rightarrow> smtp_summary" where
  "truncate_summary s = s
     \<lparr>sm_Fingerprints := take maxSMTPReportItems (sm_Fingerprints s), sm_Records := take maxSMTPReportItems (sm_Records s)\<rparr>"

definition truncate_campaign :: "smtp_campaign_report \<Rightarrow> smtp_campaign_report" where
  "truncate_campaign g = g\<lparr>cg_Records := take maxSMTPReportItems (cg_Records g)\<rparr>"

definition attach_campaign ::
  "report_env \<Rightarrow> batch_file option option \<Rightarrow> string \<Rightarrow> string \<Rightarrow> report_envelope \<Rightarrow> report_error + report_envelope" where
  "attach_campaign env path inst listener r =
     (case path of
        None \<Rightarrow> Inr r
      | Some f \<Rightarrow>
          (case readSMTPCampaignReport (rv_campaign env) f inst listener of
             Inl e \<Rightarrow> Inl (CampaignFile e)
           | Inr g \<Rightarrow>
               Inr (r\<lparr>re_Campaign := Some (truncate_campaign g),
                 re_Truncated := (re_Truncated r)\<lparr>tr_CampaignRecords := length (cg_Records g) - maxSMTPReportItems\<rparr>\<rparr>)))"

definition canonical_report :: "report_envelope \<Rightarrow> report_canonical" where
  "canonical_report r =
     \<lparr>ca_Instance = re_SMTPInstance r, ca_Listener = re_Listener r, ca_Start = re_CoverageStart r, ca_End = re_CoverageEnd r,
      ca_Summary = re_Summary r, ca_Campaign = re_Campaign r, ca_Truncated = re_Truncated r\<rparr>"

definition seal_report :: "report_env \<Rightarrow> report_envelope \<Rightarrow> report_error + report_envelope" where
  "seal_report env r =
     (case rv_canonical env (canonical_report r) of
        None \<Rightarrow> Inl ReportMarshal
      | Some canonical \<Rightarrow>
          (let r = r\<lparr>re_ReplayID := hex_encode (sha256 canonical)\<rparr> in
           case rv_body env r of
             None \<Rightarrow> Inl ReportMarshal
           | Some body \<Rightarrow> if length body > maxSMTPReportBody then Inl (BodyTooLarge (length body)) else Inr r))"

definition readSMTPReport ::
  "report_env \<Rightarrow> batch_file option \<Rightarrow> batch_file option option \<Rightarrow> string \<Rightarrow> string \<Rightarrow> string \<Rightarrow> string \<Rightarrow> string \<Rightarrow>
     report_error + report_envelope" where
  "readSMTPReport env path campaign inst listener start stop generated =
     (if \<not> rv_config_ok env then Inl ConfigInvalid
      else if TrimSpace inst = [] then Inl SMTPInstanceRequired
      else if SplitHostPort listener = None then Inl ReportListenerInvalid
      else (case (rv_time env start, rv_time env stop, rv_time env generated) of
          (Some t0, Some t1, Some t2) \<Rightarrow>
            if t1 < t0 \<or> t2 < t1 then Inl TimesOutOfOrder
            else closing ReportClose (file_closes path) (ebind (read_report_file (rv_summary env) path) (\<lambda>summary.
              ebind (attach_campaign env campaign inst listener
                \<lparr>re_SchemaVersion = 1, re_InstanceID = rv_instance_id env, re_SMTPInstance = inst, re_Listener = listener,
                  re_CoverageStart = t0, re_CoverageEnd = t1, re_GeneratedAt = t2, re_ReplayID = [],
                  re_Summary = truncate_summary summary, re_Campaign = None,
                  re_Truncated = \<lparr>tr_Fingerprints = length (sm_Fingerprints summary) - maxSMTPReportItems,
                    tr_Records = length (sm_Records summary) - maxSMTPReportItems, tr_CampaignRecords = 0\<rparr>\<rparr>)
              (seal_report env)))
        | _ \<Rightarrow> Inl ReportTime))"

section \<open>The upload\<close>

text \<open>
  What one request comes to: it could not be made, the client failed (and whether the context
  was done), or a status, with a body that can be closed or not.
\<close>

datatype http_result = RequestInvalid | ClientFailed bool | Status nat bool

datatype post_error = RequestError | TransportError | StatusError nat | BodyCloseError | retryableSMTPReportError post_error

definition postSMTPReport :: "http_result \<Rightarrow> post_error go_error option" where
  "postSMTPReport x =
     (case x of
        RequestInvalid \<Rightarrow> Some (Plain RequestError)
      | ClientFailed ctx_done \<Rightarrow> Some (Plain (if ctx_done then TransportError else retryableSMTPReportError TransportError))
      | Status code closes \<Rightarrow>
          closeWithError
            (if code = 403 then Some (Plain (StatusError code))
             else if code div 100 \<noteq> 2
             then Some (Plain (if code = 429 \<or> code \<ge> 500 then retryableSMTPReportError (StatusError code) else StatusError code))
             else None)
            ''close Gatehub SMTP report response'' (if closes then None else Some (Plain BodyCloseError)))"

text \<open>The test of \<open>errors.As\<close> in the loop.\<close>

definition retryable :: "post_error go_error \<Rightarrow> bool" where
  "retryable = errors_As (\<lambda>e. case e of retryableSMTPReportError _ \<Rightarrow> True | _ \<Rightarrow> False)"

definition smtpReportRetryDelays :: "int list" where
  "smtpReportRetryDelays = [2 * second, 5 * second, 10 * second]"

text \<open>
  The loop: \<open>answer\<close> gives what each attempt comes to, \<open>fires\<close> whether the timer of a delay fires
  before the context is done. The result is the number of attempts made, how the last one
  ended, and the delays waited for.
\<close>

datatype upload_end = UploadOk | UploadFailed | UploadCancelled

function upload_loop ::
  "(nat \<Rightarrow> http_result) \<Rightarrow> (nat \<Rightarrow> bool) \<Rightarrow> nat \<Rightarrow> int list \<Rightarrow> nat \<times> upload_end \<times> int list" where
  "upload_loop answer fires attempt waited =
     (let err = postSMTPReport (answer attempt) in
      if err = None \<or> \<not> retryable (the err) \<or> attempt \<ge> length smtpReportRetryDelays
      then (attempt + 1, if err = None then UploadOk else UploadFailed, waited)
      else if \<not> fires attempt then (attempt + 1, UploadCancelled, waited)
      else upload_loop answer fires (attempt + 1) (waited @ [smtpReportRetryDelays ! attempt]))"
  by pat_completeness auto
termination
  by (relation "measure (\<lambda>(answer, fires, attempt, waited). length smtpReportRetryDelays - attempt)") auto

declare upload_loop.simps [simp del]

definition upload_path :: "string \<Rightarrow> string" where
  "upload_path path = trim_right (\<lambda>c. c = CHR ''/'') path @ ''/v1/smtp/reports''"

datatype upload_error = UploadConfig | UploadMarshal | UploadBodyTooLarge | UploadURL | UploadClient

text \<open>
  \<open>uploadSMTPReport\<close> with a configured URL's parsed path (\<open>None\<close> if it does not parse) and
  whether a client could be made; the request goes to the path in the result.
\<close>

definition uploadSMTPReport ::
  "bool \<Rightarrow> (report_envelope \<Rightarrow> string option) \<Rightarrow> string option \<Rightarrow> bool \<Rightarrow> (nat \<Rightarrow> http_result) \<Rightarrow> (nat \<Rightarrow> bool) \<Rightarrow>
     report_envelope \<Rightarrow> upload_error + (string \<times> nat \<times> upload_end \<times> int list)" where
  "uploadSMTPReport config_ok marshal url client_ok answer fires r =
     (if \<not> config_ok then Inl UploadConfig
      else (case marshal r of
          None \<Rightarrow> Inl UploadMarshal
        | Some body \<Rightarrow>
            if length body > maxSMTPReportBody then Inl UploadBodyTooLarge
            else (case url of
                None \<Rightarrow> Inl UploadURL
              | Some path \<Rightarrow>
                  if \<not> client_ok then Inl UploadClient
                  else Inr (upload_path path, upload_loop answer fires 0 []))))"

section \<open>The upload ends\<close>

text \<open>The answers after which a report has been taken, and those that may pass.\<close>

fun accepted :: "http_result \<Rightarrow> bool" where
  "accepted (Status code closes) = (code div 100 = 2 \<and> closes)"
| "accepted _ = False"

fun transient :: "http_result \<Rightarrow> bool" where
  "transient RequestInvalid = False"
| "transient (ClientFailed ctx_done) = (\<not> ctx_done)"
| "transient (Status code closes) = (code = 429 \<or> code \<ge> 500)"

lemma postSMTPReport_None: "postSMTPReport x = None \<longleftrightarrow> accepted x"
  by (cases x) (auto simp: postSMTPReport_def)

lemma postSMTPReport_retryable: "postSMTPReport x = Some err \<Longrightarrow> retryable err \<longleftrightarrow> transient x"
proof (cases x)
  case (Status code closes)
  let ?wanted = "\<lambda>e. case e of retryableSMTPReportError _ \<Rightarrow> True | _ \<Rightarrow> False"
  let ?status = "if code = 403 then Some (Plain (StatusError code))
             else if code div 100 \<noteq> 2
             then Some (Plain (if code = 429 \<or> code \<ge> 500 then retryableSMTPReportError (StatusError code) else StatusError code))
             else None"
  assume err: "postSMTPReport x = Some err"
  have "retryable err \<longleftrightarrow> (\<exists>e. (?status = Some e \<or> (if closes then None else Some (Plain BodyCloseError)) = Some e) \<and> errors_As ?wanted e)"
    using err closeWithError_As [of ?wanted ?status "''close Gatehub SMTP report response''" "if closes then None else Some (Plain BodyCloseError)"]
    unfolding Status postSMTPReport_def http_result.case retryable_def by simp
  moreover have "code = 429 \<or> 500 \<le> code \<Longrightarrow> code \<noteq> 403 \<and> code div 100 \<noteq> 2" by auto
  ultimately show ?thesis by (auto simp: Status)
qed (auto simp: postSMTPReport_def retryable_def)

lemma transient_not_accepted: "transient x \<Longrightarrow> \<not> accepted x"
  by (cases x) auto

lemma length_delays: "length smtpReportRetryDelays = 3"
  by (simp add: smtpReportRetryDelays_def)

lemma upload_loop_step:
  "upload_loop answer fires attempt waited =
     (if \<not> transient (answer attempt) \<or> attempt \<ge> 3
      then (attempt + 1, if accepted (answer attempt) then UploadOk else UploadFailed, waited)
      else if \<not> fires attempt then (attempt + 1, UploadCancelled, waited)
      else upload_loop answer fires (attempt + 1) (waited @ [smtpReportRetryDelays ! attempt]))"
proof (cases "postSMTPReport (answer attempt)")
  case None
  then show ?thesis
    using postSMTPReport_None [of "answer attempt"] transient_not_accepted [of "answer attempt"]
    by (subst upload_loop.simps) (auto simp: length_delays)
next
  case (Some err)
  then have "\<not> accepted (answer attempt)" using postSMTPReport_None [of "answer attempt"] by simp
  with Some postSMTPReport_retryable [OF Some] show ?thesis
    by (subst upload_loop.simps) (simp add: length_delays)
qed

text \<open>A result from attempt \<open>k\<close> on.\<close>

definition upload_result :: "(nat \<Rightarrow> http_result) \<Rightarrow> (nat \<Rightarrow> bool) \<Rightarrow> nat \<Rightarrow> nat \<Rightarrow> upload_end \<Rightarrow> bool" where
  "upload_result answer fires k n e \<longleftrightarrow> k < n \<and> n \<le> 4 \<and>
     (\<forall>i. k \<le> i \<and> i < n - 1 \<longrightarrow> transient (answer i) \<and> fires i) \<and>
     (case e of
        UploadOk \<Rightarrow> accepted (answer (n - 1))
      | UploadFailed \<Rightarrow> \<not> accepted (answer (n - 1)) \<and> (\<not> transient (answer (n - 1)) \<or> n = 4)
      | UploadCancelled \<Rightarrow> transient (answer (n - 1)) \<and> n < 4 \<and> \<not> fires (n - 1))"

lemma upload_loop_result:
  "k \<le> 3 \<Longrightarrow> waited = take k smtpReportRetryDelays \<Longrightarrow>
   \<exists>n e. upload_loop answer fires k waited = (n, e, take (n - 1) smtpReportRetryDelays) \<and> upload_result answer fires k n e"
proof (induction "3 - k" arbitrary: k waited)
  case 0
  then have "k = 3" by simp
  with 0 show ?case
    by (subst upload_loop_step) (auto simp: upload_result_def)
next
  case (Suc m)
  then have k: "k < 3" by linarith
  consider "\<not> transient (answer k)" | "transient (answer k)" "\<not> fires k" | "transient (answer k)" "fires k" by blast
  then show ?case
  proof cases
    case 3
    then have step: "upload_loop answer fires k waited = upload_loop answer fires (k + 1) (waited @ [smtpReportRetryDelays ! k])"
      using k by (subst upload_loop_step) simp
    have "\<exists>n e. upload_loop answer fires (k + 1) (waited @ [smtpReportRetryDelays ! k]) = (n, e, take (n - 1) smtpReportRetryDelays) \<and>
        upload_result answer fires (k + 1) n e"
      by (rule Suc(1)) (use Suc(2-4) k in \<open>simp_all add: length_delays take_Suc_conv_app_nth\<close>)
    then obtain n e where ne: "upload_loop answer fires (k + 1) (waited @ [smtpReportRetryDelays ! k]) = (n, e, take (n - 1) smtpReportRetryDelays)"
      "upload_result answer fires (k + 1) n e" by blast
    have "i = k \<or> k + 1 \<le> i" if "k \<le> i" for i using that by linarith
    then have "upload_result answer fires k n e" using ne(2) 3 unfolding upload_result_def by auto
    then show ?thesis using ne(1) unfolding step by blast
  qed (subst upload_loop_step, use k Suc(4) in \<open>auto simp: upload_result_def\<close>)+
qed

text \<open>
  C33: an upload ends. Whatever the server and the network do, the loop makes at least one and
  at most four attempts, waiting two, five and ten seconds between them; it goes on exactly
  after failures that may pass (a transport error, 429 or a server error) while the context
  lives; it reports success exactly if its last attempt got a success status and its
  body could be closed; and it gives up only on a failure that does not pass, on the fourth or when
  it is cancelled. An error of closing a body never hides that a failure may pass.
\<close>

theorem upload_ends:
  "\<exists>n e. upload_loop answer fires 0 [] = (n, e, take (n - 1) [2 * second, 5 * second, 10 * second]) \<and> 1 \<le> n \<and> n \<le> 4 \<and>
     (\<forall>i. i < n - 1 \<longrightarrow> transient (answer i) \<and> fires i) \<and>
     (e = UploadOk \<longleftrightarrow> accepted (answer (n - 1))) \<and>
     (e = UploadCancelled \<longrightarrow> transient (answer (n - 1)) \<and> n < 4 \<and> \<not> fires (n - 1)) \<and>
     (e = UploadFailed \<longrightarrow> \<not> transient (answer (n - 1)) \<or> n = 4)"
proof -
  obtain n e where "upload_loop answer fires 0 [] = (n, e, take (n - 1) smtpReportRetryDelays)" "upload_result answer fires 0 n e"
    using upload_loop_result [of 0 "[]" answer fires] by auto
  then show ?thesis
    using transient_not_accepted [of "answer (n - 1)"] unfolding smtpReportRetryDelays_def
    by (intro exI [of _ n] exI [of _ e]) (cases e; auto simp: upload_result_def)
qed

text \<open>Two examples: a server error that passes, and a body that cannot be closed.\<close>

lemma upload_ends_witness:
  "\<exists>n ws. upload_loop (\<lambda>i. if i = 0 then Status 503 False else Status 204 True) (\<lambda>i. True) 0 [] = (n, UploadOk, ws) \<and>
     n = 2 \<and> ws = [2 * second]"
proof -
  let ?answer = "\<lambda>i. if i = (0 :: nat) then Status 503 False else Status 204 True"
  obtain n e where u: "upload_loop ?answer (\<lambda>i. True) 0 [] = (n, e, take (n - 1) [2 * second, 5 * second, 10 * second])"
    "1 \<le> n" "\<forall>i. i < n - 1 \<longrightarrow> transient (?answer i)" "e = UploadOk \<longleftrightarrow> accepted (?answer (n - 1))"
    "e = UploadCancelled \<longrightarrow> \<not> True" "e = UploadFailed \<longrightarrow> \<not> transient (?answer (n - 1)) \<or> n = 4"
    using upload_ends [of ?answer "\<lambda>i. True"] by (elim exE conjE) blast
  have "n \<noteq> 1" using u(4-6) by (cases e) auto
  moreover have "\<not> 2 < n" using u(3) [rule_format, of 1] by (cases "1 < n - 1") simp_all
  ultimately have "n = 2" using u(2) by linarith
  then show ?thesis using u(1,4) by simp
qed

lemma unclosed_body_fails: "upload_loop (\<lambda>i. Status 204 False) fires 0 [] = (1, UploadFailed, [])"
  by (subst upload_loop_step) simp

section \<open>What the classifier reports, the uploader accepts\<close>

text \<open>What can be wrong with a record of a run.\<close>

definition fits_report :: "smtp_campaign_record \<Rightarrow> bool" where
  "fits_report r \<longleftrightarrow> cp_Timestamp r \<noteq> 0 \<and> length (cp_ConnectionID r) \<le> 128 \<and>
     (CHR ''%'' \<in> set (cp_Client r) \<longrightarrow> length (cp_Client r) \<le> 256 \<and> SplitHostPort (cp_Client r) \<noteq> None)"

lemma check_records_iff:
  "(\<And>r. r \<in> set rs \<Longrightarrow> record_ok zones zeros ids r) \<Longrightarrow> set known = {pregreetSupportSignature, pregreetEHLOUserSignature} \<Longrightarrow>
   check_records known rs = Inr () \<longleftrightarrow> (\<forall>r \<in> set rs. fits_report r)"
proof (induction rs)
  case Nil
  then show ?case by simp
next
  case (Cons r rs)
  have r: "record_ok zones zeros ids r" using Cons.prems(1) by simp
  then have "CHR ''%'' \<notin> set (cp_Client r) \<Longrightarrow> length (cp_Client r) \<le> 256 \<and> SplitHostPort (cp_Client r) \<noteq> None"
    using tuple_ok_bounds [of zones "cp_Client r"] unfolding record_ok_def by blast
  moreover have "length (cp_Signature r) \<le> 128"
    using r by (auto simp: record_ok_def pregreetSupportSignature_def pregreetEHLOUserSignature_def)
  ultimately have "record_bounds r \<and> SplitHostPort (cp_Client r) \<noteq> None \<longleftrightarrow> fits_report r"
    using r by (auto simp: record_ok_def record_bounds_def fits_report_def not_less)
  moreover have "\<not> (cp_Signature r \<noteq> [] \<and> cp_Signature r \<notin> set known)"
    using r Cons.prems(2) by (auto simp: record_ok_def)
  ultimately show ?case using Cons by auto
qed

lemma record_ok_fits: "record_ok False False ids r \<Longrightarrow> (\<And>i. i \<in> ids \<Longrightarrow> length i \<le> 128) \<Longrightarrow> fits_report r"
  using tuple_ok_bounds [of False "cp_Client r"] by (auto simp: record_ok_def fits_report_def)

lemma readSMTPNetworkPrefixes_ok:
  assumes "readSMTPNetworkPrefixes order f = Inr nets" "\<And>ns. set (order ns) \<subseteq> set ns" "n \<in> set nets"
  shows "network_ok n"
proof (cases f)
  case (PrefixEntries es)
  then obtain ps where ps: "network_prefixes es = Inr ps" "nets = order ps"
    using assms(1) by (auto simp: readSMTPNetworkPrefixes_def ebind_eq_Inr)
  then show ?thesis using network_prefixes_ok [OF ps(1)] assms(2) [of ps] assms(3) by blast
qed (use assms in \<open>auto simp: readSMTPNetworkPrefixes_def\<close>)

text \<open>The records of a run, and the check of its report.\<close>

lemma campaign_report_records:
  assumes "runSMTPCampaignClassificationExcluding env inst listener maxLifetime tolerance exclude = Inr (g, xc, xe)"
    and "\<And>rs. mset (cm_sort env rs) = mset rs" and "\<And>ns. set (cm_order env ns) \<subseteq> set ns"
  obtains cs bad where "readSMTPConnectionsStats (cm_event env) (cm_events env) = Inr (cs, bad)"
    and "\<And>zones zeros r. (\<And>t. zeros \<or> cm_time env t \<noteq> Some 0) \<Longrightarrow>
      (\<And>ls l. batch_lines (cm_postfix env) = Inr ls \<Longrightarrow> l \<in> set ls \<Longrightarrow> zones \<or> CHR ''%'' \<notin> set l) \<Longrightarrow>
      r \<in> set (cg_Records g) \<Longrightarrow> record_ok zones zeros (cr_ID ` set cs) r"
    and "validateSMTPCampaignReport g inst listener = check_records [pregreetSupportSignature, pregreetEHLOUserSignature] (cg_Records g)"
proof -
  obtain cs bad evs mal nets n where run: "readSMTPConnectionsStats (cm_event env) (cm_events env) = Inr (cs, bad)"
    "readSMTPCampaignEvidence (cm_time env) (cm_postfix env) maxLifetime = Inr (evs, mal)"
    "readSMTPNetworkPrefixes (cm_order env) (cm_prefixes env) = Inr nets"
    "g = campaign_report env inst listener maxLifetime tolerance (List.map_filter (kept_conn exclude inst listener) cs)
       (filter (\<lambda>e. \<not> excludesClient exclude (en_Client e)) evs) nets n mal"
    using campaign_run [OF assms(1)] by blast
  let ?conns = "List.map_filter (kept_conn exclude inst listener) cs"
  let ?items = "filter (\<lambda>e. \<not> excludesClient exclude (en_Client e)) evs"
  let ?rec = "\<lambda>e. fst (campaign_record (cm_lower env) nets maxLifetime tolerance ?conns e)"
  obtain kept b x where k: "campaign_connections exclude inst listener cs = (kept, b, x)" by (metis prod_cases3)
  have conns: "conn_ok cs c" if "c \<in> set ?conns" for c
    using campaign_connections_ok [OF k] that campaign_connections_kept [of exclude inst listener cs] k by simp
  have nets: "network_ok m" if "m \<in> set nets" for m
    using readSMTPNetworkPrefixes_ok [OF run(3) assms(3) that] .
  have recs: "cg_Records g = cm_sort env (map ?rec ?items)"
    unfolding run(4) by (rule campaign_report_fields(1))
  have set_recs: "set (cg_Records g) = ?rec ` set ?items"
    unfolding recs using mset_eq_setD [OF assms(2)] by simp
  have len: "length (cg_Records g) = length ?items"
    unfolding recs using mset_eq_length [OF assms(2)] by simp
  have ok: "record_ok zones zeros (cr_ID ` set cs) r" if "\<And>t. zeros \<or> cm_time env t \<noteq> Some 0"
    "\<And>ls l. batch_lines (cm_postfix env) = Inr ls \<Longrightarrow> l \<in> set ls \<Longrightarrow> zones \<or> CHR ''%'' \<notin> set l" "r \<in> set (cg_Records g)" for zones zeros r
  proof -
    note inputs = that
    obtain e where e: "e \<in> set evs" "r = ?rec e" using inputs(3) set_recs by auto
    show ?thesis
      unfolding e(2) using campaign_evidence_ok [OF run(2) inputs(1,2) e(1)] nets conns by (intro campaign_record_ok) auto
  qed
  have "signatures_ok [pregreetSupportSignature, pregreetEHLOUserSignature] []"
    by (simp add: pregreetSupportSignature_def pregreetEHLOUserSignature_def)
  moreover note const = campaign_report_constant [of env inst listener maxLifetime tolerance ?conns ?items nets n mal, folded run(4)]
  moreover note counts = campaign_report_fields(2-6) [of env inst listener maxLifetime tolerance ?conns ?items nets n mal, folded run(4)]
  ultimately have "validateSMTPCampaignReport g inst listener = check_records [pregreetSupportSignature, pregreetEHLOUserSignature] (cg_Records g)"
    using len by (simp add: validateSMTPCampaignReport_def del: signatures_ok.simps)
  then show ?thesis using that run(1) ok by blast
qed

lemma campaign_report_checked:
  assumes "runSMTPCampaignClassificationExcluding env inst listener maxLifetime tolerance exclude = Inr (g, xc, xe)"
    and "\<And>rs. mset (cm_sort env rs) = mset rs" and "\<And>ns. set (cm_order env ns) \<subseteq> set ns"
  shows "validateSMTPCampaignReport g inst listener = Inr () \<longleftrightarrow> (\<forall>r \<in> set (cg_Records g). fits_report r)"
  using assms
proof (rule campaign_report_records)
  fix cs bad
  assume ok: "\<And>zones zeros r. (\<And>t. zeros \<or> cm_time env t \<noteq> Some 0) \<Longrightarrow>
      (\<And>ls l. batch_lines (cm_postfix env) = Inr ls \<Longrightarrow> l \<in> set ls \<Longrightarrow> zones \<or> CHR ''%'' \<notin> set l) \<Longrightarrow>
      r \<in> set (cg_Records g) \<Longrightarrow> record_ok zones zeros (cr_ID ` set cs) r"
    and check: "validateSMTPCampaignReport g inst listener = check_records [pregreetSupportSignature, pregreetEHLOUserSignature] (cg_Records g)"
  show ?thesis unfolding check by (rule check_records_iff [of _ True True "cr_ID ` set cs"]) (use ok [of True True] in auto)
qed

text \<open>What the inputs must be like for every record to fit.\<close>

lemma campaign_records_fit:
  assumes "runSMTPCampaignClassificationExcluding env inst listener maxLifetime tolerance exclude = Inr (g, xc, xe)"
    and "\<And>rs. mset (cm_sort env rs) = mset rs" and "\<And>ns. set (cm_order env ns) \<subseteq> set ns"
    and "\<And>t. cm_time env t \<noteq> Some 0"
    and "\<And>ls l. batch_lines (cm_postfix env) = Inr ls \<Longrightarrow> l \<in> set ls \<Longrightarrow> CHR ''%'' \<notin> set l"
    and "\<And>cs bad c. readSMTPConnectionsStats (cm_event env) (cm_events env) = Inr (cs, bad) \<Longrightarrow> c \<in> set cs \<Longrightarrow> length (cr_ID c) \<le> 128"
    and "r \<in> set (cg_Records g)"
  shows "fits_report r"
  using assms(1-3)
proof (rule campaign_report_records)
  fix cs bad
  assume run: "readSMTPConnectionsStats (cm_event env) (cm_events env) = Inr (cs, bad)"
    and ok: "\<And>zones zeros r. (\<And>t. zeros \<or> cm_time env t \<noteq> Some 0) \<Longrightarrow>
      (\<And>ls l. batch_lines (cm_postfix env) = Inr ls \<Longrightarrow> l \<in> set ls \<Longrightarrow> zones \<or> CHR ''%'' \<notin> set l) \<Longrightarrow>
      r \<in> set (cg_Records g) \<Longrightarrow> record_ok zones zeros (cr_ID ` set cs) r"
  have "record_ok False False (cr_ID ` set cs) r" using ok [of False False r] assms(4,5,7) by blast
  then show ?thesis by (rule record_ok_fits) (use assms(6) [OF run] in auto)
qed

text \<open>
  C31: the two programs agree on the report, but for three things. The report that a run returns
  passes \<open>validateSMTPCampaignReport\<close> for the same instance and listener exactly if each of its records
  has a time that is not zero, a connection id of at most 128 bytes and, if its client has a zone, a
  client of at most 256 bytes that can be split: schema, identity, counts, signatures, and
  the bounds of every other text hold by construction, whatever the log, the event file and the prefix
  file hold. It assumes only what the two sorts promise.
\<close>

theorem campaign_report_accepted:
  assumes "runSMTPCampaignClassificationExcluding env inst listener maxLifetime tolerance exclude = Inr (g, xc, xe)"
    and "\<And>rs. mset (cm_sort env rs) = mset rs" and "\<And>ns. set (cm_order env ns) \<subseteq> set ns"
  shows "validateSMTPCampaignReport g inst listener = Inr () \<longleftrightarrow>
    (\<forall>r \<in> set (cg_Records g). cp_Timestamp r \<noteq> 0 \<and> length (cp_ConnectionID r) \<le> 128 \<and>
       (CHR ''%'' \<in> set (cp_Client r) \<longrightarrow> length (cp_Client r) \<le> 256 \<and> SplitHostPort (cp_Client r) \<noteq> None))"
  using campaign_report_checked [OF assms] unfolding fits_report_def .

lemma campaign_report_accepted_witness:
  "\<exists>g. runSMTPCampaignClassificationExcluding camp_env ''mx'' ''l:25'' 60 5 [] = Inr (g, 0, 0) \<and>
     length (cg_Records g) = 1 \<and> validateSMTPCampaignReport g ''mx'' ''l:25'' = Inr ()"
proof -
  define g where "g = campaign_report camp_env ''mx'' ''l:25'' 60 5 [camp_conn camp_behavior] [camp_evidence] [] 0 0"
  have run: "runSMTPCampaignClassificationExcluding camp_env ''mx'' ''l:25'' 60 5 [] = Inr (g, 0, 0)"
    unfolding g_def by (rule camp_run)
  have env: "mset (cm_sort camp_env rs) = mset rs" "set (cm_order camp_env ns) \<subseteq> set ns" "cm_time camp_env t \<noteq> Some 0" for rs ns t
    by (simp_all add: camp_env_def camp_time_def)
  have lines: "CHR ''%'' \<notin> set l" if "batch_lines (cm_postfix camp_env) = Inr ls" "l \<in> set ls" for ls l
    using that by (auto simp: camp_lines camp_line_def)
  have ids: "length (cr_ID c) \<le> 128" if "readSMTPConnectionsStats (cm_event camp_env) (cm_events camp_env) = Inr (cs, bad)" "c \<in> set cs" for cs bad c
    using that by (auto simp: camp_conns camp_conn_def)
  have "length (cg_Records g) = 1" using arg_cong [OF camp_record, of length] by (simp add: g_def)
  moreover have "fits_report r" if "r \<in> set (cg_Records g)" for r
    by (rule campaign_records_fit [OF run env]) (fact lines, fact ids, fact that)
  then have "validateSMTPCampaignReport g ''mx'' ''l:25'' = Inr ()"
    unfolding campaign_report_accepted [OF run env(1,2)] fits_report_def by blast
  ultimately show ?thesis using run by blast
qed

section \<open>A report is bounded\<close>

lemma attach_campaign_fields:
  assumes "attach_campaign env path inst listener r = Inr r'"
  shows "re_Summary r' = re_Summary r" "tr_Fingerprints (re_Truncated r') = tr_Fingerprints (re_Truncated r)"
    "tr_Records (re_Truncated r') = tr_Records (re_Truncated r)"
    "re_CoverageStart r' = re_CoverageStart r" "re_CoverageEnd r' = re_CoverageEnd r" "re_GeneratedAt r' = re_GeneratedAt r"
    "re_SMTPInstance r' = re_SMTPInstance r" "re_Listener r' = re_Listener r" "re_InstanceID r' = re_InstanceID r"
    "(path = None \<and> re_Campaign r' = re_Campaign r \<and> re_Truncated r' = re_Truncated r) \<or>
     (\<exists>f g. path = Some f \<and> readSMTPCampaignReport (rv_campaign env) f inst listener = Inr g \<and>
        re_Campaign r' = Some (truncate_campaign g) \<and>
        tr_CampaignRecords (re_Truncated r') = length (cg_Records g) - maxSMTPReportItems)"
  using assms by (auto simp: attach_campaign_def split: option.splits sum.splits)

lemma attach_campaign_canonical:
  "attach_campaign env path inst listener r = Inr r0 \<Longrightarrow> attach_campaign (env\<lparr>rv_instance_id := i\<rparr>) path inst listener r' = Inr r0' \<Longrightarrow>
   canonical_report r = canonical_report r' \<Longrightarrow> canonical_report r0 = canonical_report r0'"
  by (auto simp: attach_campaign_def canonical_report_def split: option.splits sum.splits)

lemma seal_report_fields:
  assumes "seal_report env r = Inr r'"
  shows "\<exists>canonical body. rv_canonical env (canonical_report r) = Some canonical \<and> r' = r\<lparr>re_ReplayID := hex_encode (sha256 canonical)\<rparr> \<and>
     rv_body env r' = Some body \<and> length body \<le> maxSMTPReportBody"
  using assms by (auto simp: seal_report_def Let_def split: option.splits if_splits)

text \<open>A report before the campaign is attached.\<close>

definition base_report :: "string \<Rightarrow> string \<Rightarrow> string \<Rightarrow> time \<Rightarrow> time \<Rightarrow> time \<Rightarrow> smtp_summary \<Rightarrow> report_envelope" where
  "base_report i inst listener t0 t1 t2 summary =
     \<lparr>re_SchemaVersion = 1, re_InstanceID = i, re_SMTPInstance = inst, re_Listener = listener,
      re_CoverageStart = t0, re_CoverageEnd = t1, re_GeneratedAt = t2, re_ReplayID = [],
      re_Summary = truncate_summary summary, re_Campaign = None,
      re_Truncated = \<lparr>tr_Fingerprints = length (sm_Fingerprints summary) - maxSMTPReportItems,
        tr_Records = length (sm_Records summary) - maxSMTPReportItems, tr_CampaignRecords = 0\<rparr>\<rparr>"

lemma readSMTPReport_Inr:
  assumes "readSMTPReport env path campaign inst listener start stop generated = Inr r"
  shows "\<exists>t0 t1 t2 summary r0. rv_time env start = Some t0 \<and> rv_time env stop = Some t1 \<and> rv_time env generated = Some t2 \<and>
     t0 \<le> t1 \<and> t1 \<le> t2 \<and> read_report_file (rv_summary env) path = Inr summary \<and>
     attach_campaign env campaign inst listener (base_report (rv_instance_id env) inst listener t0 t1 t2 summary) = Inr r0 \<and>
     seal_report env r0 = Inr r"
  using assms
  by (auto simp: readSMTPReport_def base_report_def ebind_eq_Inr not_less split: if_splits option.splits)

text \<open>Another run on the same inputs, for another instance id and at another time.\<close>

lemma replay_id_same:
  assumes "readSMTPReport env path campaign inst listener start stop generated = Inr r"
    and "readSMTPReport (env\<lparr>rv_instance_id := i\<rparr>) path campaign inst listener start stop generated' = Inr r'"
  shows "re_ReplayID r' = re_ReplayID r"
proof -
  from readSMTPReport_Inr [OF assms(1)] obtain t0 t1 t2 summary r0 where r0: "rv_time env start = Some t0" "rv_time env stop = Some t1"
    "read_report_file (rv_summary env) path = Inr summary"
    "attach_campaign env campaign inst listener (base_report (rv_instance_id env) inst listener t0 t1 t2 summary) = Inr r0"
    "seal_report env r0 = Inr r"
    by blast
  from readSMTPReport_Inr [OF assms(2)] obtain t2' r0' where r0': "attach_campaign (env\<lparr>rv_instance_id := i\<rparr>) campaign inst listener
      (base_report i inst listener t0 t1 t2' summary) = Inr r0'" "seal_report (env\<lparr>rv_instance_id := i\<rparr>) r0' = Inr r'"
    using r0(1-3) by auto
  have "canonical_report r0 = canonical_report r0'"
    by (rule attach_campaign_canonical [OF r0(4) r0'(1)]) (simp add: canonical_report_def base_report_def)
  then show ?thesis using seal_report_fields [OF r0(5)] seal_report_fields [OF r0'(2)] by auto
qed

lemma min_add_diff: "min n k + (n - k) = (n :: nat)"
  by simp

text \<open>
  C32: a report that is sent is bounded and says what was left out. Its lists are the first 256
  entries of those of the summary and of the accepted campaign report, and for each of the three the
  reported number of dropped entries is exact; the three times are in order; the body has at most 1 MiB.
  Its replay id is the hash of the instance, the listener, the window, the lists and the dropped
  entries, and of nothing else: building the report again from the same files at another time,
  for another instance id of the control plane, gives the same id.
\<close>

theorem report_bounded:
  assumes "readSMTPReport env path campaign inst listener start stop generated = Inr r"
  shows "\<exists>summary canonical body. read_report_file (rv_summary env) path = Inr summary \<and>
     sm_Records (re_Summary r) = take 256 (sm_Records summary) \<and>
     sm_Fingerprints (re_Summary r) = take 256 (sm_Fingerprints summary) \<and>
     length (sm_Records (re_Summary r)) + tr_Records (re_Truncated r) = length (sm_Records summary) \<and>
     length (sm_Fingerprints (re_Summary r)) + tr_Fingerprints (re_Truncated r) = length (sm_Fingerprints summary) \<and>
     (\<forall>f. campaign = Some f \<longrightarrow> (\<exists>g c. readSMTPCampaignReport (rv_campaign env) f inst listener = Inr g \<and> re_Campaign r = Some c \<and>
        cg_Records c = take 256 (cg_Records g) \<and> length (cg_Records c) + tr_CampaignRecords (re_Truncated r) = length (cg_Records g))) \<and>
     (campaign = None \<longrightarrow> re_Campaign r = None \<and> tr_CampaignRecords (re_Truncated r) = 0) \<and>
     re_CoverageStart r \<le> re_CoverageEnd r \<and> re_CoverageEnd r \<le> re_GeneratedAt r \<and>
     rv_body env r = Some body \<and> length body \<le> 1048576 \<and>
     rv_canonical env \<lparr>ca_Instance = inst, ca_Listener = listener, ca_Start = re_CoverageStart r, ca_End = re_CoverageEnd r,
       ca_Summary = re_Summary r, ca_Campaign = re_Campaign r, ca_Truncated = re_Truncated r\<rparr> = Some canonical \<and>
     re_ReplayID r = hex_encode (sha256 canonical) \<and>
     (\<forall>generated' i r'. readSMTPReport (env\<lparr>rv_instance_id := i\<rparr>) path campaign inst listener start stop generated' = Inr r' \<longrightarrow>
        re_ReplayID r' = re_ReplayID r)"
proof -
  from readSMTPReport_Inr [OF assms] obtain t0 t1 t2 summary r0 where r0: "t0 \<le> t1" "t1 \<le> t2"
    "read_report_file (rv_summary env) path = Inr summary"
    "attach_campaign env campaign inst listener (base_report (rv_instance_id env) inst listener t0 t1 t2 summary) = Inr r0"
    "seal_report env r0 = Inr r"
    by blast
  note fields = attach_campaign_fields [OF r0(4), unfolded base_report_def, simplified]
  from seal_report_fields [OF r0(5)] obtain canonical body where s: "rv_canonical env (canonical_report r0) = Some canonical"
    "r = r0\<lparr>re_ReplayID := hex_encode (sha256 canonical)\<rparr>" "rv_body env r = Some body" "length body \<le> maxSMTPReportBody"
    by blast
  have canonical: "rv_canonical env \<lparr>ca_Instance = inst, ca_Listener = listener, ca_Start = re_CoverageStart r, ca_End = re_CoverageEnd r,
       ca_Summary = re_Summary r, ca_Campaign = re_Campaign r, ca_Truncated = re_Truncated r\<rparr> = Some canonical"
    "re_ReplayID r = hex_encode (sha256 canonical)"
    using s(1) fields(7,8) by (simp_all add: s(2) canonical_report_def)
  have camp: "\<forall>f. campaign = Some f \<longrightarrow> (\<exists>g c. readSMTPCampaignReport (rv_campaign env) f inst listener = Inr g \<and> re_Campaign r = Some c \<and>
        cg_Records c = take 256 (cg_Records g) \<and> length (cg_Records c) + tr_CampaignRecords (re_Truncated r) = length (cg_Records g))"
    "campaign = None \<longrightarrow> re_Campaign r = None \<and> tr_CampaignRecords (re_Truncated r) = 0"
    using fields(10) by (auto simp: s(2) truncate_campaign_def maxSMTPReportItems_def)
  have "length body \<le> 1048576" using s(4) by (simp add: maxSMTPReportBody_def)
  moreover have "\<forall>generated' i r'. readSMTPReport (env\<lparr>rv_instance_id := i\<rparr>) path campaign inst listener start stop generated' = Inr r' \<longrightarrow>
      re_ReplayID r' = re_ReplayID r"
    using replay_id_same [OF assms] by blast
  ultimately show ?thesis
    using r0(1-3) fields(1-6) camp canonical s(3)
    by (intro exI [of _ summary] exI [of _ canonical] exI [of _ body])
      (simp add: s(2) base_report_def truncate_summary_def maxSMTPReportItems_def min_add_diff)
qed

text \<open>An example: a summary with 300 records.\<close>

definition demo_report_env :: report_env where
  "demo_report_env =
     \<lparr>rv_config_ok = True, rv_instance_id = ''i'', rv_time = (\<lambda>t. Some (int (length t))),
      rv_summary = (\<lambda>b. Some (empty_summary\<lparr>sm_Records := replicate 300 (initial_record demo_message)\<rparr>)), rv_campaign = (\<lambda>b. None),
      rv_canonical = (\<lambda>r. Some (ca_Listener r)), rv_body = (\<lambda>r. Some (re_Listener r))\<rparr>"

lemma report_bounded_witness:
  "\<exists>r. readSMTPReport demo_report_env (Some (text_file [''s''])) None ''mx'' ''l:25'' ''a'' ''bb'' ''ccc'' = Inr r \<and>
     length (sm_Records (re_Summary r)) = 256 \<and> tr_Records (re_Truncated r) = 44"
proof -
  have "SplitHostPort ''l:25'' = Some (''l'', ''25'')" by code_simp
  moreover have "TrimSpace ''mx'' = ''mx''" by (simp add: TrimSpace_def segments.simps codes_def IsSpace_def Let_def)
  moreover have summary: "read_report_file (rv_summary demo_report_env) (Some (text_file [''s''])) =
      Inr (empty_summary\<lparr>sm_Records := replicate 300 (initial_record demo_message)\<rparr>)"
    by (simp add: read_report_file_def demo_report_env_def text_file_def maxSMTPReportInput_def)
  ultimately have "readSMTPReport demo_report_env (Some (text_file [''s''])) None ''mx'' ''l:25'' ''a'' ''bb'' ''ccc'' \<noteq> Inl e" for e
    unfolding readSMTPReport_def summary
    by (simp add: demo_report_env_def attach_campaign_def seal_report_def maxSMTPReportBody_def canonical_report_def file_closes_def text_file_def)
  then obtain r where r: "readSMTPReport demo_report_env (Some (text_file [''s''])) None ''mx'' ''l:25'' ''a'' ''bb'' ''ccc'' = Inr r"
    by (metis sum.exhaust)
  from report_bounded [OF r] obtain s where s: "read_report_file (rv_summary demo_report_env) (Some (text_file [''s''])) = Inr s"
    "sm_Records (re_Summary r) = take 256 (sm_Records s)"
    "length (sm_Records (re_Summary r)) + tr_Records (re_Truncated r) = length (sm_Records s)"
    by (elim exE conjE) iprover
  have "length (sm_Records s) = 300" using s(1) unfolding summary by auto
  then have "length (sm_Records (re_Summary r)) = 256" using s(2) by simp
  then show ?thesis using r s(3) \<open>length (sm_Records s) = 300\<close> by (intro exI [of _ r]) simp
qed

end
