(* ===== verification/Routes.thy ===== *)
theory Routes
  imports Go_Strings
begin

text \<open>
  The listener routes and how a configuration file and flags combine: \<open>routes.go\<close>
  (\<open>routeConfig\<close>, \<open>policy\<close>, \<open>Set\<close>, \<open>String\<close>) and \<open>applyRuntimeConfig\<close> of \<open>runtime_config.go\<close>.
  \<open>ParseRoute\<close> is the gatekit library's and is an argument, as is \<open>time.ParseDuration\<close>, whose
  fractions are computed in floating point.
\<close>

section \<open>Routes\<close>

text \<open>The library's \<open>Route\<close>, and the overrides of a listener.\<close>

record route =
  Listen :: string
  Backend :: string

record route_config = route +
  rc_allowUnknown :: "bool option"
  rc_proxyProtocol :: string
  rc_protocol :: string
  rc_maxConcurrent :: int

datatype route_error =
    BadRoute string
  | BadOption string
  | BadAllowUnknown string
  | BadProxyProtocol string
  | BadProtocol string
  | BadMaxConcurrent string
  | UnknownOption string
  | DuplicateListener string

text \<open>\<open>policy\<close>: whether unknown clients are blocked, and whether a PROXY v2 header is sent.\<close>

definition policy :: "route_config \<Rightarrow> bool \<Rightarrow> string \<Rightarrow> bool \<times> bool" where
  "policy r allowUnknown proxyProtocol =
     (let allowUnknown = (case rc_allowUnknown r of Some a \<Rightarrow> a | None \<Rightarrow> allowUnknown);
          proxyProtocol = (if rc_proxyProtocol r \<noteq> [] then rc_proxyProtocol r else proxyProtocol)
      in (\<not> allowUnknown, proxyProtocol = ''v2''))"

text \<open>The options of one route, \<open>seen\<close> as a list of keys.\<close>

definition route_option :: "string \<Rightarrow> string \<Rightarrow> route_config \<Rightarrow> route_error + route_config" where
  "route_option key val r =
     (if key = ''allow-unknown'' then
        (if val \<noteq> ''true'' \<and> val \<noteq> ''false'' then Inl (BadAllowUnknown val)
         else Inr (r\<lparr>rc_allowUnknown := Some (val = ''true'')\<rparr>))
      else if key = ''proxy-protocol'' then
        (if val \<noteq> ''off'' \<and> val \<noteq> ''v2'' then Inl (BadProxyProtocol val)
         else Inr (r\<lparr>rc_proxyProtocol := val\<rparr>))
      else if key = ''protocol'' then
        (if val \<noteq> ''tls'' \<and> val \<noteq> ''smtp'' then Inl (BadProtocol val)
         else Inr (r\<lparr>rc_protocol := val\<rparr>))
      else if key = ''max-concurrent'' then
        (case parse_int 64 val of
           None \<Rightarrow> Inl (BadMaxConcurrent val)
         | Some n \<Rightarrow> if n \<le> 0 then Inl (BadMaxConcurrent val) else Inr (r\<lparr>rc_maxConcurrent := n\<rparr>))
      else Inl (UnknownOption key))"

fun route_options :: "string list \<Rightarrow> string list \<Rightarrow> route_config \<Rightarrow> route_error + route_config" where
  "route_options seen [] r = Inr r"
| "route_options seen (part # parts) r =
     (case cut_char (CHR ''='') part of
        (key, None) \<Rightarrow> Inl (BadOption part)
      | (key, Some val) \<Rightarrow>
          (if key \<in> set seen then Inl (BadOption part)
           else ebind (route_option key val r) (route_options (key # seen) parts)))"

definition no_overrides :: "route \<Rightarrow> route_config" where
  "no_overrides base =
     \<lparr>Listen = Listen base, Backend = Backend base, rc_allowUnknown = None, rc_proxyProtocol = [],
      rc_protocol = [], rc_maxConcurrent = 0\<rparr>"

definition routes_Set ::
  "(string \<Rightarrow> string + route) \<Rightarrow> route_config list \<Rightarrow> string \<Rightarrow> route_error + route_config list" where
  "routes_Set parse_route rs val =
     (let parts = split_char (CHR '','') val in
      case parse_route (hd parts) of
        Inl e \<Rightarrow> Inl (BadRoute e)
      | Inr base \<Rightarrow>
          ebind (route_options [] (tl parts) (no_overrides base)) (\<lambda>r.
            if list_ex (\<lambda>existing. Listen existing = Listen r) rs then Inl (DuplicateListener (Listen r))
            else Inr (rs @ [r])))"

definition route_text :: "route_config \<Rightarrow> string" where
  "route_text r =
     Listen r @ ''='' @ Backend r @
     (case rc_allowUnknown r of Some a \<Rightarrow> '',allow-unknown='' @ show_bool a | None \<Rightarrow> []) @
     (if rc_proxyProtocol r \<noteq> [] then '',proxy-protocol='' @ rc_proxyProtocol r else []) @
     (if rc_protocol r \<noteq> [] then '',protocol='' @ rc_protocol r else []) @
     (if rc_maxConcurrent r \<noteq> 0 then '',max-concurrent='' @ itoa_int (rc_maxConcurrent r) else [])"

definition routes_String :: "route_config list \<Rightarrow> string" where
  "routes_String rs = join '' '' (map route_text rs)"

section \<open>Flags over file\<close>

record file_route =
  fr_Listen :: string
  fr_Backend :: string
  fr_AllowUnknown :: "bool option"
  fr_ProxyProtocol :: string
  fr_Protocol :: string
  fr_MaxConcurrent :: int

text \<open>The settings of \<open>serve\<close> that a file can give; \<open>drain\<close> is a duration.\<close>

record file_config =
  fc_Routes :: "file_route list"
  fc_Database :: string
  fc_Fingerprint :: string
  fc_AllowUnknown :: bool
  fc_ResetFingerprints :: bool
  fc_ProxyProtocol :: string
  fc_DrainTimeout :: string
  fc_SMTPEvents :: string
  fc_SMTPInstance :: string

record serve_settings =
  sv_routes :: "route_config list"
  sv_db :: string
  sv_allowUnknown :: bool
  sv_fingerprint :: string
  sv_reset :: bool
  sv_proxyProtocol :: string
  sv_drain :: int
  sv_smtpEvents :: string
  sv_smtpInstance :: string

datatype runtime_error =
    RouteIncomplete nat
  | RouteRefused nat route_error
  | BadDrainTimeout string

definition file_route_spec :: "file_route \<Rightarrow> string" where
  "file_route_spec r =
     fr_Listen r @ ''='' @ fr_Backend r @
     (case fr_AllowUnknown r of Some a \<Rightarrow> '',allow-unknown='' @ show_bool a | None \<Rightarrow> []) @
     (if fr_ProxyProtocol r \<noteq> [] then '',proxy-protocol='' @ fr_ProxyProtocol r else []) @
     (if fr_Protocol r \<noteq> [] then '',protocol='' @ fr_Protocol r else []) @
     (if fr_MaxConcurrent r \<noteq> 0 then '',max-concurrent='' @ itoa_int (fr_MaxConcurrent r) else [])"

text \<open>The loop over the file's routes, \<open>i\<close> its index.\<close>

fun file_routes ::
  "(string \<Rightarrow> string + route) \<Rightarrow> nat \<Rightarrow> file_route list \<Rightarrow> route_config list \<Rightarrow> runtime_error + route_config list" where
  "file_routes parse_route i [] rs = Inr rs"
| "file_routes parse_route i (r # frs) rs =
     (if fr_Listen r = [] \<or> fr_Backend r = [] then Inl (RouteIncomplete i)
      else (case routes_Set parse_route rs (file_route_spec r) of
          Inl e \<Rightarrow> Inl (RouteRefused i e)
        | Inr rs \<Rightarrow> file_routes parse_route (i + 1) frs rs))"

text \<open>
  One conditional assignment: the flag's value stays when the flag was given, or, for a text,
  when the file says nothing.
\<close>

definition from_file :: "string list \<Rightarrow> string \<Rightarrow> 'a \<Rightarrow> 'a \<Rightarrow> 'a" where
  "from_file explicit flag file_value cur = (if flag \<notin> set explicit then file_value else cur)"

definition text_from_file :: "string list \<Rightarrow> string \<Rightarrow> string \<Rightarrow> string \<Rightarrow> string" where
  "text_from_file explicit flag file_value cur =
     (if flag \<notin> set explicit \<and> file_value \<noteq> [] then file_value else cur)"

definition drain_from_file ::
  "(string \<Rightarrow> int option) \<Rightarrow> string list \<Rightarrow> string \<Rightarrow> int \<Rightarrow> runtime_error + int" where
  "drain_from_file parse_duration explicit file_value cur =
     (if ''drain-timeout'' \<notin> set explicit \<and> file_value \<noteq> [] then
        (case parse_duration file_value of None \<Rightarrow> Inl (BadDrainTimeout file_value) | Some v \<Rightarrow> Inr v)
      else Inr cur)"

text \<open>
  \<open>applyRuntimeConfig\<close>; \<open>explicit\<close> are the flags given on the command line. The source updates
  the settings through pointers, and its caller exits on an error, so an error has no result.
\<close>

definition applyRuntimeConfig ::
  "(string \<Rightarrow> string + route) \<Rightarrow> (string \<Rightarrow> int option) \<Rightarrow> string list \<Rightarrow> file_config \<Rightarrow> serve_settings \<Rightarrow>
     runtime_error + serve_settings" where
  "applyRuntimeConfig parse_route parse_duration explicit cfg s =
     ebind (if sv_routes s = [] then file_routes parse_route 0 (fc_Routes cfg) [] else Inr (sv_routes s)) (\<lambda>rs.
     let s = s\<lparr>sv_routes := rs,
       sv_db := text_from_file explicit ''db'' (fc_Database cfg) (sv_db s),
       sv_allowUnknown := from_file explicit ''allow-unknown'' (fc_AllowUnknown cfg) (sv_allowUnknown s),
       sv_fingerprint := text_from_file explicit ''fingerprint'' (fc_Fingerprint cfg) (sv_fingerprint s),
       sv_reset := from_file explicit ''reset-fingerprints'' (fc_ResetFingerprints cfg) (sv_reset s),
       sv_proxyProtocol := text_from_file explicit ''proxy-protocol'' (fc_ProxyProtocol cfg) (sv_proxyProtocol s)\<rparr>
     in ebind (drain_from_file parse_duration explicit (fc_DrainTimeout cfg) (sv_drain s)) (\<lambda>drain.
     Inr (s\<lparr>sv_drain := drain,
       sv_smtpEvents := text_from_file explicit ''smtp-events'' (fc_SMTPEvents cfg) (sv_smtpEvents s),
       sv_smtpInstance := text_from_file explicit ''smtp-instance'' (fc_SMTPInstance cfg) (sv_smtpInstance s)\<rparr>)))"

section \<open>Routes stay well formed\<close>

definition wf_route :: "route_config \<Rightarrow> bool" where
  "wf_route r \<longleftrightarrow> rc_proxyProtocol r \<in> {[], ''off'', ''v2''} \<and> rc_protocol r \<in> {[], ''tls'', ''smtp''} \<and>
     0 \<le> rc_maxConcurrent r \<and> rc_maxConcurrent r < 2 ^ 63"

definition routes_ok :: "route_config list \<Rightarrow> bool" where
  "routes_ok rs \<longleftrightarrow> distinct (map Listen rs) \<and> (\<forall>r \<in> set rs. wf_route r)"

lemma parse_int_bound: "parse_int 64 s = Some n \<Longrightarrow> n < 2 ^ 63"
  by (auto simp: parse_int_def Let_def split: option.splits if_splits)

lemma route_option_ok:
  "route_option key val r = Inr r' \<Longrightarrow> wf_route r \<Longrightarrow> wf_route r' \<and> Listen r' = Listen r \<and> Backend r' = Backend r"
  by (auto simp: route_option_def wf_route_def parse_int_bound split: if_splits option.splits dest: parse_int_bound)

lemma route_options_ok:
  "route_options seen parts r = Inr r' \<Longrightarrow> wf_route r \<Longrightarrow> wf_route r' \<and> Listen r' = Listen r \<and> Backend r' = Backend r"
proof (induction seen parts r rule: route_options.induct)
  case (2 seen part parts r)
  from "2.prems"(1) obtain key val r1 where step: "cut_char (CHR ''='') part = (key, Some val)" "key \<notin> set seen"
    "route_option key val r = Inr r1" "route_options (key # seen) parts r1 = Inr r'"
    by (auto simp: res_simps split: prod.splits option.splits if_splits)
  from route_option_ok [OF step(3) "2.prems"(2)]
  have 1: "wf_route r1" "Listen r1 = Listen r" "Backend r1 = Backend r" by auto
  have "wf_route r' \<and> Listen r' = Listen r1 \<and> Backend r' = Backend r1"
    by (rule "2.IH" [OF step(1) [symmetric] refl step(2,3,4) 1(1)])
  with 1 show ?case by simp
qed simp

lemma routes_Set_cases:
  assumes "routes_Set parse_route rs val = Inr rs'"
  obtains base r where "parse_route (hd (split_char (CHR '','') val)) = Inr base"
    "route_options [] (tl (split_char (CHR '','') val)) (no_overrides base) = Inr r"
    "Listen r \<notin> Listen ` set rs" "rs' = rs @ [r]"
  using assms by (force simp: routes_Set_def Let_def res_simps list_ex_iff split: sum.splits if_splits)

lemma wf_no_overrides [simp]: "wf_route (no_overrides base)"
  by (simp add: wf_route_def no_overrides_def)

lemma routes_Set_ok:
  assumes "routes_Set parse_route rs val = Inr rs'" "routes_ok rs"
  shows "routes_ok rs'"
proof (rule routes_Set_cases [OF assms(1)])
  fix base r
  assume "route_options [] (tl (split_char (CHR '','') val)) (no_overrides base) = Inr r"
    "Listen r \<notin> Listen ` set rs" "rs' = rs @ [r]"
  then show ?thesis using route_options_ok [of "[]" _ "no_overrides base" r] assms(2) by (auto simp: routes_ok_def)
qed

section \<open>Printing and parsing again\<close>

definition route_opts :: "route_config \<Rightarrow> string list" where
  "route_opts r =
     (case rc_allowUnknown r of Some a \<Rightarrow> [''allow-unknown='' @ show_bool a] | None \<Rightarrow> []) @
     (if rc_proxyProtocol r \<noteq> [] then [''proxy-protocol='' @ rc_proxyProtocol r] else []) @
     (if rc_protocol r \<noteq> [] then [''protocol='' @ rc_protocol r] else []) @
     (if rc_maxConcurrent r \<noteq> 0 then [''max-concurrent='' @ itoa_int (rc_maxConcurrent r)] else [])"

definition route_head :: "route_config \<Rightarrow> string" where
  "route_head r = Listen r @ ''='' @ Backend r"

lemma join_Cons_append: "join '','' (x # xs) = x @ concat (map (\<lambda>y. '','' @ y) xs)"
  by (induction xs arbitrary: x) auto

lemma route_text_join: "route_text r = join '','' (route_head r # route_opts r)"
  unfolding join_Cons_append by (simp add: route_text_def route_head_def route_opts_def split: option.split)

lemma cut_option_names [simp]:
  "cut_char (CHR ''='') (''allow-unknown='' @ v) = (''allow-unknown'', Some v)"
  "cut_char (CHR ''='') (''proxy-protocol='' @ v) = (''proxy-protocol'', Some v)"
  "cut_char (CHR ''='') (''protocol='' @ v) = (''protocol'', Some v)"
  "cut_char (CHR ''='') (''max-concurrent='' @ v) = (''max-concurrent'', Some v)"
  by simp_all

lemma itoa_int_nat: "0 \<le> n \<Longrightarrow> itoa_int n = itoa (nat n)"
  by (simp add: itoa_int_def)

lemma route_opts_no_comma: "wf_route r \<Longrightarrow> o' \<in> set (route_opts r) \<Longrightarrow> CHR '','' \<notin> set o'"
  by (auto simp: route_opts_def wf_route_def show_bool_def itoa_int_nat is_digit_def split: option.splits if_splits)

lemma parse_max_concurrent:
  assumes "0 \<le> n" "n < 2 ^ 63"
  shows "parse_int 64 (itoa_int n) = Some n"
proof -
  have "nat n < 2 ^ (64 - 1)" using assms by (simp add: nat_less_iff)
  from parse_int_itoa [OF this] assms(1) show ?thesis by (simp add: itoa_int_nat)
qed

lemma route_options_opts:
  assumes "wf_route r"
  shows "route_options [] (route_opts r) (no_overrides (route.truncate r)) = Inr r"
proof -
  have mc: "rc_maxConcurrent r \<noteq> 0 \<Longrightarrow> parse_int 64 (itoa_int (rc_maxConcurrent r)) = Some (rc_maxConcurrent r)"
    "\<not> rc_maxConcurrent r < 0"
    using assms parse_max_concurrent [of "rc_maxConcurrent r"] by (simp_all add: wf_route_def)
  obtain l b a pp p n where r: "r = \<lparr>Listen = l, Backend = b, rc_allowUnknown = a, rc_proxyProtocol = pp, rc_protocol = p, rc_maxConcurrent = n\<rparr>"
    by (cases r) auto
  have cases: "a = None \<or> a = Some True \<or> a = Some False" "pp = [] \<or> pp = ''off'' \<or> pp = ''v2''" "p = [] \<or> p = ''tls'' \<or> p = ''smtp''"
    using assms by (auto simp: r wf_route_def)
  show ?thesis
    using mc cases unfolding r
    by (elim disjE) (cases "n = 0"; simp add: route_opts_def no_overrides_def route.truncate_def route_option_def show_bool_def)+
qed

text \<open>Accepting a list of route texts one after the other.\<close>

fun set_all :: "(string \<Rightarrow> string + route) \<Rightarrow> route_config list \<Rightarrow> string list \<Rightarrow> route_error + route_config list" where
  "set_all parse_route rs [] = Inr rs"
| "set_all parse_route rs (v # vs) = ebind (routes_Set parse_route rs v) (\<lambda>rs. set_all parse_route rs vs)"

lemma set_all_ok: "set_all p rs vs = Inr rs' \<Longrightarrow> routes_ok rs \<Longrightarrow> routes_ok rs'"
  by (induction vs arbitrary: rs) (auto simp: res_simps dest: routes_Set_ok)

lemma set_all_texts:
  assumes "routes_ok (rs @ rs')"
    and "\<forall>r \<in> set rs'. CHR '','' \<notin> set (route_head r) \<and> parse_route (route_head r) = Inr (route.truncate r)"
  shows "set_all parse_route rs (map route_text rs') = Inr (rs @ rs')"
  using assms
proof (induction rs' arbitrary: rs)
  case (Cons r rs')
  from Cons.prems have r: "CHR '','' \<notin> set (route_head r)" "parse_route (route_head r) = Inr (route.truncate r)"
    "wf_route r" "Listen r \<notin> Listen ` set rs" by (auto simp: routes_ok_def)
  have "split_char (CHR '','') (route_text r) = route_head r # route_opts r"
    unfolding route_text_join by (rule split_char_join) (use r route_opts_no_comma in auto)
  with r have "routes_Set parse_route rs (route_text r) = Inr (rs @ [r])"
    by (auto simp: routes_Set_def Let_def route_options_opts list_ex_iff image_iff)
  with Cons.IH [of "rs @ [r]"] Cons.prems show ?case by simp
qed simp

text \<open>
  C24: the printed routes are the routes. Whatever texts \<open>Set\<close> has accepted, printing the
  routes with \<open>String\<close>, cutting the result at the blanks and giving the pieces to \<open>Set\<close> again
  yields the same routes with the same overrides; and all accepted routes have different
  listeners and only values that \<open>policy\<close> and the guards know. The one fact about the
  library's \<open>ParseRoute\<close> that this needs is that it reads back the listener and backend it
  returned, without a comma or a blank in them.
\<close>

theorem routes_print_parse:
  assumes "set_all parse_route [] vs = Inr rs"
    and "\<forall>r \<in> set rs. parse_route (Listen r @ ''='' @ Backend r) = Inr (route.truncate r) \<and>
      CHR '','' \<notin> set (Listen r @ Backend r) \<and> CHR '' '' \<notin> set (Listen r @ Backend r)"
  shows "distinct (map Listen rs) \<and> (\<forall>r \<in> set rs. wf_route r) \<and>
    (rs \<noteq> [] \<longrightarrow> set_all parse_route [] (split_char (CHR '' '') (routes_String rs)) = Inr rs)"
proof -
  have ok: "routes_ok rs" using set_all_ok [OF assms(1)] by (simp add: routes_ok_def)
  have "CHR '' '' \<notin> set (route_text r)" if "r \<in> set rs" for r
  proof -
    have "wf_route r" using ok that by (simp add: routes_ok_def)
    then have "o' \<in> set (route_opts r) \<Longrightarrow> CHR '' '' \<notin> set o'" for o'
      by (auto simp: route_opts_def wf_route_def show_bool_def itoa_int_nat is_digit_def split: option.splits if_splits)
    moreover have "CHR '' '' \<notin> set (route_head r)" using assms(2) that by (simp add: route_head_def)
    ultimately show ?thesis unfolding route_text_join using set_join [of "'',''" "route_head r # route_opts r"] by auto
  qed
  then have "rs \<noteq> [] \<Longrightarrow> split_char (CHR '' '') (routes_String rs) = map route_text rs"
    unfolding routes_String_def by (intro split_char_join) auto
  then show ?thesis
    using set_all_texts [of "[]" rs parse_route] ok assms(2) by (simp add: route_head_def routes_ok_def)
qed

definition cut_route :: "string \<Rightarrow> string + route" where
  "cut_route v = (case cut_char (CHR ''='') v of
     (l, Some b) \<Rightarrow> Inr \<lparr>Listen = l, Backend = b\<rparr> | (_, None) \<Rightarrow> Inl v)"

lemma routes_print_parse_witness:
  "\<exists>rs. set_all cut_route [] ['':25=mx:25,protocol=smtp,max-concurrent=9'', '':443=web:443,allow-unknown=false''] = Inr rs \<and>
     set_all cut_route [] (split_char (CHR '' '') (routes_String rs)) = Inr rs"
proof -
  define rs where "rs =
    [\<lparr>Listen = '':25'', Backend = ''mx:25'', rc_allowUnknown = None, rc_proxyProtocol = [], rc_protocol = ''smtp'', rc_maxConcurrent = 9\<rparr>,
     \<lparr>Listen = '':443'', Backend = ''web:443'', rc_allowUnknown = Some False, rc_proxyProtocol = [], rc_protocol = [], rc_maxConcurrent = 0\<rparr>]"
  have run: "set_all cut_route [] ['':25=mx:25,protocol=smtp,max-concurrent=9'', '':443=web:443,allow-unknown=false''] = Inr rs"
    by (simp add: rs_def routes_Set_def Let_def cut_route_def route_option_def no_overrides_def parse_int_def
        digits_value_def dec_value_def is_digit_def)
  have "\<forall>r \<in> set rs. cut_route (Listen r @ ''='' @ Backend r) = Inr (route.truncate r) \<and>
      CHR '','' \<notin> set (Listen r @ Backend r) \<and> CHR '' '' \<notin> set (Listen r @ Backend r)"
    by (simp add: rs_def cut_route_def route.truncate_def)
  from routes_print_parse [OF run this] run show ?thesis by (auto simp: rs_def)
qed

section \<open>Where a setting comes from\<close>

lemma file_routes_set_all:
  "file_routes p i frs rs = Inr rs' \<longleftrightarrow>
     (\<forall>r \<in> set frs. fr_Listen r \<noteq> [] \<and> fr_Backend r \<noteq> []) \<and> set_all p rs (map file_route_spec frs) = Inr rs'"
  by (induction frs arbitrary: i rs) (auto split: sum.splits)

text \<open>
  Flags win over the file, and the file's routes are those the same route flags would
  give. A start that succeeds with route flags uses exactly these; without them it uses the
  routes that giving every entry of the file as a flag, in order, would set, so the listeners
  are distinct and no entry is dropped. Every other setting given as a flag is unchanged, and
  one that was not given has the file's value (an empty text in the file says nothing).
\<close>

theorem runtime_precedence:
  assumes "applyRuntimeConfig p d explicit cfg s = Inr s'" and "routes_ok (sv_routes s)"
  shows "(if sv_routes s \<noteq> [] then sv_routes s' = sv_routes s
     else set_all p [] (map file_route_spec (fc_Routes cfg)) = Inr (sv_routes s') \<and>
       (\<forall>r \<in> set (fc_Routes cfg). fr_Listen r \<noteq> [] \<and> fr_Backend r \<noteq> [])) \<and>
    routes_ok (sv_routes s') \<and>
    sv_allowUnknown s' = (if ''allow-unknown'' \<in> set explicit then sv_allowUnknown s else fc_AllowUnknown cfg) \<and>
    sv_reset s' = (if ''reset-fingerprints'' \<in> set explicit then sv_reset s else fc_ResetFingerprints cfg) \<and>
    sv_fingerprint s' = (if ''fingerprint'' \<in> set explicit \<or> fc_Fingerprint cfg = [] then sv_fingerprint s else fc_Fingerprint cfg) \<and>
    sv_db s' = (if ''db'' \<in> set explicit \<or> fc_Database cfg = [] then sv_db s else fc_Database cfg) \<and>
    sv_proxyProtocol s' = (if ''proxy-protocol'' \<in> set explicit \<or> fc_ProxyProtocol cfg = [] then sv_proxyProtocol s else fc_ProxyProtocol cfg) \<and>
    (''drain-timeout'' \<in> set explicit \<longrightarrow> sv_drain s' = sv_drain s)"
proof -
  from assms(1) obtain rs drain where
    rs: "(if sv_routes s = [] then file_routes p 0 (fc_Routes cfg) [] else Inr (sv_routes s)) = Inr rs"
    and drain: "drain_from_file d explicit (fc_DrainTimeout cfg) (sv_drain s) = Inr drain"
    and s': "sv_routes s' = rs" "sv_drain s' = drain"
      "sv_allowUnknown s' = from_file explicit ''allow-unknown'' (fc_AllowUnknown cfg) (sv_allowUnknown s)"
      "sv_reset s' = from_file explicit ''reset-fingerprints'' (fc_ResetFingerprints cfg) (sv_reset s)"
      "sv_fingerprint s' = text_from_file explicit ''fingerprint'' (fc_Fingerprint cfg) (sv_fingerprint s)"
      "sv_db s' = text_from_file explicit ''db'' (fc_Database cfg) (sv_db s)"
      "sv_proxyProtocol s' = text_from_file explicit ''proxy-protocol'' (fc_ProxyProtocol cfg) (sv_proxyProtocol s)"
    by (auto simp: applyRuntimeConfig_def res_simps Let_def)
  have "''drain-timeout'' \<in> set explicit \<Longrightarrow> drain = sv_drain s" using drain by (simp add: drain_from_file_def)
  moreover have "routes_ok rs"
    using rs assms(2) set_all_ok [of p "[]" _ rs] by (auto simp: file_routes_set_all routes_ok_def split: if_splits)
  ultimately show ?thesis using rs s'
    by (auto simp: file_routes_set_all from_file_def text_from_file_def split: if_splits)
qed

definition sample_file :: file_config where
  "sample_file =
     \<lparr>fc_Routes = [\<lparr>fr_Listen = '':25'', fr_Backend = ''mx:25'', fr_AllowUnknown = None, fr_ProxyProtocol = [],
        fr_Protocol = ''smtp'', fr_MaxConcurrent = 0\<rparr>],
      fc_Database = ''f.db'', fc_Fingerprint = [], fc_AllowUnknown = True, fc_ResetFingerprints = False,
      fc_ProxyProtocol = ''v2'', fc_DrainTimeout = [], fc_SMTPEvents = [], fc_SMTPInstance = []\<rparr>"

definition sample_flags :: serve_settings where
  "sample_flags =
     \<lparr>sv_routes = [], sv_db = ''d.db'', sv_allowUnknown = False, sv_fingerprint = ''ja4'', sv_reset = False,
      sv_proxyProtocol = ''off'', sv_drain = 5, sv_smtpEvents = [], sv_smtpInstance = []\<rparr>"

lemma runtime_precedence_witness:
  "\<exists>s'. applyRuntimeConfig cut_route (\<lambda>_. None) [''db'', ''allow-unknown''] sample_file sample_flags = Inr s' \<and>
     sv_db s' = ''d.db'' \<and> \<not> sv_allowUnknown s' \<and> sv_proxyProtocol s' = ''v2'' \<and> map Listen (sv_routes s') = ['':25'']"
proof -
  obtain s' where run: "applyRuntimeConfig cut_route (\<lambda>_. None) [''db'', ''allow-unknown''] sample_file sample_flags = Inr s'"
    "map Listen (sv_routes s') = ['':25'']"
    by (simp add: applyRuntimeConfig_def sample_file_def sample_flags_def file_route_spec_def routes_Set_def Let_def
        cut_route_def route_option_def no_overrides_def drain_from_file_def)
  have "routes_ok (sv_routes sample_flags)" by (simp add: sample_flags_def routes_ok_def)
  from runtime_precedence [OF run(1) this] run show ?thesis by (auto simp: sample_flags_def sample_file_def)
qed

end
