(* ===== verification/Store_Meta.thy ===== *)
theory Store_Meta
  imports Fingerprints Utf8
begin

text \<open>
  The TLS side of the fingerprint store (\<open>store.go\<close>): how a \<open>TLSMetadata\<close> becomes the store's
  untyped metadata bag (\<open>toMeta\<close>) and is read back (\<open>tlsMetaOf\<close>), and the start-up check
  \<open>reconcileFingerprintFormat\<close>. The store itself is the gatekit library; its operations are
  arguments of the definitions that call them.
\<close>

section \<open>The metadata bag\<close>

text \<open>
  A value of the bag (Go's \<open>any\<close>): the typed values \<open>toMeta\<close> puts in, or what JSON decoding
  gives back, where a number is a \<open>float64\<close> (here the integer it holds).
\<close>

datatype json = JString string | JNumber int | JOther

datatype any = AString string | AStrings "string list" | AU16s "u16 list" | AList "json list" | AOther

type_synonym meta_bag = "string \<Rightarrow> any option"

definition toMeta :: "tls_metadata \<Rightarrow> meta_bag" where
  "toMeta m =
     [''ja3'' \<mapsto> AString (JA3 m),
      ''ja4'' \<mapsto> AString (JA4 m),
      ''sni'' \<mapsto> AString (SNI m),
      ''alpn'' \<mapsto> AStrings (ALPN m),
      ''supported_versions'' \<mapsto> AU16s (SupportedVersions m),
      ''signature_algorithms'' \<mapsto> AU16s (SignatureAlgorithms m)]"

definition metaString :: "meta_bag \<Rightarrow> string \<Rightarrow> string" where
  "metaString meta key = (case meta key of Some (AString s) \<Rightarrow> s | _ \<Rightarrow> [])"

definition metaStrings :: "meta_bag \<Rightarrow> string \<Rightarrow> string list" where
  "metaStrings meta key =
     (case meta key of
        Some (AStrings v) \<Rightarrow> v
      | Some (AList v) \<Rightarrow> List.map_filter (\<lambda>item. case item of JString s \<Rightarrow> Some s | _ \<Rightarrow> None) v
      | _ \<Rightarrow> [])"

definition metaU16s :: "meta_bag \<Rightarrow> string \<Rightarrow> u16 list" where
  "metaU16s meta key =
     (case meta key of
        Some (AU16s v) \<Rightarrow> v
      | Some (AList v) \<Rightarrow> List.map_filter (\<lambda>item. case item of JNumber f \<Rightarrow> Some (word_of_int f) | _ \<Rightarrow> None) v
      | _ \<Rightarrow> [])"

definition tlsMetaOf :: "meta_bag \<Rightarrow> tls_metadata" where
  "tlsMetaOf meta =
     \<lparr>JA3 = metaString meta ''ja3'', JA4 = metaString meta ''ja4'', SNI = metaString meta ''sni'',
      ALPN = metaStrings meta ''alpn'', SupportedVersions = metaU16s meta ''supported_versions'',
      SignatureAlgorithms = metaU16s meta ''signature_algorithms''\<rparr>"

text \<open>
  What JSON encoding and decoding make of a value: text loses malformed UTF-8 to the
  replacement character, the typed lists come back as lists of JSON values.
\<close>

definition scrub :: "string \<Rightarrow> string" where
  "scrub s = map_runes Some s"

fun through_json :: "any \<Rightarrow> any" where
  "through_json (AString s) = AString (scrub s)"
| "through_json (AStrings v) = AList (map (\<lambda>s. JString (scrub s)) v)"
| "through_json (AU16s v) = AList (map (\<lambda>w. JNumber (uint w)) v)"
| "through_json v = v"

lemma map_filter_map: "List.map_filter f (map g xs) = List.map_filter (f \<circ> g) xs"
  by (induction xs) (simp_all add: List.map_filter_simps split: option.split)

lemma map_filter_Some: "List.map_filter (\<lambda>x. Some (f x)) xs = map f xs"
  by (induction xs) (simp_all add: List.map_filter_simps)

text \<open>
  A fingerprint's metadata survives the store. What \<open>tlsMetaOf\<close> reads is what \<open>toMeta\<close>
  wrote, both while the bag holds the values set in this process and after it has been
  through JSON, where only malformed UTF-8 in a text is replaced.
\<close>

theorem tlsMetaOf_toMeta:
  "tlsMetaOf (toMeta m) = m \<and>
   tlsMetaOf (map_option through_json \<circ> toMeta m) =
     m\<lparr>JA3 := scrub (JA3 m), JA4 := scrub (JA4 m), SNI := scrub (SNI m), ALPN := map scrub (ALPN m)\<rparr>"
  by (simp add: tlsMetaOf_def toMeta_def metaString_def metaStrings_def metaU16s_def
      map_filter_map o_def map_filter_Some)

lemma scrub_ascii: "is_ascii s \<Longrightarrow> scrub s = s"
proof -
  assume ascii: "is_ascii s"
  then have "list_all (\<lambda>r. r < 128) (codes s)"
    by (auto simp: is_ascii_def codes_def list_all_iff)
  then show ?thesis
    by (simp add: scrub_def map_runes_def runes_ascii [OF ascii] map_filter_Some
        string_of_runes_ascii codes_def o_def)
qed

section \<open>The fingerprint format marker\<close>

text \<open>
  The four store operations \<open>reconcileFingerprintFormat\<close> calls, each with its error case.
\<close>

record 'st format_ops =
  GetMeta :: "'st \<Rightarrow> string \<Rightarrow> string + string"
  LastFingerprint :: "'st \<Rightarrow> string + string"
  ResetFingerprints :: "'st \<Rightarrow> (string + int) \<times> 'st"
  SetMeta :: "'st \<Rightarrow> string \<Rightarrow> string \<Rightarrow> string option \<times> 'st"

datatype format_error = StoreFailure string | OldFormat string

definition metaFingerprintFormat :: string where
  "metaFingerprintFormat = ''tlsgate_fingerprint_format''"

definition canonicalFingerprintFormat :: string where
  "canonicalFingerprintFormat = ''2''"

definition reconcileFingerprintFormat ::
  "'st format_ops \<Rightarrow> 'st \<Rightarrow> bool \<Rightarrow> (format_error option \<times> int) \<times> 'st" where
  "reconcileFingerprintFormat ops st reset =
     (case GetMeta ops st metaFingerprintFormat of
        Inl e \<Rightarrow> ((Some (StoreFailure e), 0), st)
      | Inr format \<Rightarrow>
     if format = canonicalFingerprintFormat then ((None, 0), st)
     else (case LastFingerprint ops st of
        Inl e \<Rightarrow> ((Some (StoreFailure e), 0), st)
      | Inr latest \<Rightarrow>
     if latest \<noteq> [] \<and> \<not> reset then ((Some (OldFormat format), 0), st)
     else if latest \<noteq> [] then
       (case ResetFingerprints ops st of
          (Inl e, st) \<Rightarrow> ((Some (StoreFailure e), 0), st)
        | (Inr deleted, st) \<Rightarrow>
            (case SetMeta ops st metaFingerprintFormat canonicalFingerprintFormat of
               (err, st) \<Rightarrow> ((map_option StoreFailure err, deleted), st)))
     else
       (case SetMeta ops st metaFingerprintFormat canonicalFingerprintFormat of
          (err, st) \<Rightarrow> ((map_option StoreFailure err, 0), st))))"

text \<open>
  A concrete store for examples: the metadata table and the stored fingerprints, newest
  first.
\<close>

record mem_store =
  mem_meta :: "string \<Rightarrow> string option"
  mem_fps :: "string list"

definition mem_ops :: "mem_store format_ops" where
  "mem_ops =
     \<lparr>GetMeta = \<lambda>st k. Inr (case mem_meta st k of None \<Rightarrow> [] | Some v \<Rightarrow> v),
      LastFingerprint = \<lambda>st. Inr (case mem_fps st of [] \<Rightarrow> [] | fp # _ \<Rightarrow> fp),
      ResetFingerprints = \<lambda>st. (Inr (int (length (mem_fps st))), st\<lparr>mem_fps := []\<rparr>),
      SetMeta = \<lambda>st k v. (None, st\<lparr>mem_meta := (mem_meta st)(k \<mapsto> v)\<rparr>)\<rparr>"

text \<open>
  C23: an old database is never reinterpreted silently. If serving may start (no error), the
  store carried the canonical marker already, and nothing was touched; or it held no
  fingerprint; or the operator asked for a reset and the reset was executed. Hypotheses
  on the store: a successful \<open>SetMeta\<close> is what \<open>GetMeta\<close> returns afterwards, and a successful
  \<open>ResetFingerprints\<close> leaves no fingerprint.
\<close>

theorem reconcileFingerprintFormat_safe:
  assumes "reconcileFingerprintFormat ops st reset = ((None, n), st')"
    and set_get: "\<And>s k v s'. SetMeta ops s k v = (None, s') \<Longrightarrow>
      GetMeta ops s' k = Inr v \<and> LastFingerprint ops s' = LastFingerprint ops s"
    and reset_empty: "\<And>s n s'. ResetFingerprints ops s = (Inr n, s') \<Longrightarrow> LastFingerprint ops s' = Inr []"
  shows "GetMeta ops st' metaFingerprintFormat = Inr canonicalFingerprintFormat \<and>
    (st' = st \<and> n = 0 \<or> LastFingerprint ops st' = Inr []) \<and>
    (LastFingerprint ops st' \<noteq> LastFingerprint ops st \<longrightarrow> reset)"
  using assms(1) unfolding reconcileFingerprintFormat_def
  by (auto split: sum.splits if_splits prod.splits dest!: set_get reset_empty)

lemma reconcileFingerprintFormat_safe_witness:
  "reconcileFingerprintFormat mem_ops \<lparr>mem_meta = Map.empty, mem_fps = [''old'']\<rparr> True =
     ((None, 1), \<lparr>mem_meta = [metaFingerprintFormat \<mapsto> canonicalFingerprintFormat], mem_fps = []\<rparr>) \<and>
   GetMeta mem_ops \<lparr>mem_meta = [metaFingerprintFormat \<mapsto> canonicalFingerprintFormat], mem_fps = []\<rparr>
     metaFingerprintFormat = Inr canonicalFingerprintFormat"
proof -
  have run: "reconcileFingerprintFormat mem_ops \<lparr>mem_meta = Map.empty, mem_fps = [''old'']\<rparr> True =
     ((None, 1), \<lparr>mem_meta = [metaFingerprintFormat \<mapsto> canonicalFingerprintFormat], mem_fps = []\<rparr>)"
    by (simp add: reconcileFingerprintFormat_def mem_ops_def canonicalFingerprintFormat_def)
  have "GetMeta mem_ops \<lparr>mem_meta = [metaFingerprintFormat \<mapsto> canonicalFingerprintFormat], mem_fps = []\<rparr>
     metaFingerprintFormat = Inr canonicalFingerprintFormat"
    by (rule reconcileFingerprintFormat_safe [OF run, THEN conjunct1]) (auto simp: mem_ops_def)
  with run show ?thesis by simp
qed

end
