(* ===== verification/Serve.thy ===== *)
theory Serve
  imports Routes Alerts Store_Meta Fingerprints
begin

text \<open>
  Starting up: \<open>loadConfig\<close> of \<open>alerts.go\<close>, the checks and the order of \<open>cmdServe\<close> in \<open>proxy.go\<close> until
  the listeners are open, and \<open>runDoctor\<close> of \<open>doctor.go\<close>, which looks at the same inputs without
  touching anything. JSON, URLs, durations, the store, the control plane, the sockets and the
  process library are arguments. The theorem: doctor and serve judge the inputs alike.
\<close>

section \<open>The configuration\<close>

text \<open>The decoded file; the control plane's own configuration is the library's.\<close>

record startup_config =
  st_app :: app_config
  st_runtime :: file_config
  st_ScopeShadow :: bool
  st_AlertRanges :: "alert_range_config list"
  st_ApproveRanges :: "string list"
  st_TrustedRangesFile :: string
  st_MetricsListen :: string
  st_cp_enabled :: bool
  st_cp_valid :: bool

definition default_startup :: startup_config where
  "default_startup =
     \<lparr>st_app = default_config,
      st_runtime = \<lparr>fc_Routes = [], fc_Database = [], fc_Fingerprint = [], fc_AllowUnknown = False, fc_ResetFingerprints = False,
        fc_ProxyProtocol = [], fc_DrainTimeout = [], fc_SMTPEvents = [], fc_SMTPInstance = []\<rparr>,
      st_ScopeShadow = False, st_AlertRanges = [], st_ApproveRanges = [], st_TrustedRangesFile = [], st_MetricsListen = [],
      st_cp_enabled = False, st_cp_valid = True\<rparr>"

text \<open>What reading the path comes to, and the errors of \<open>loadConfig\<close>.\<close>

datatype config_file = ConfigAbsent | ConfigUnreadable | ConfigText string

datatype load_error = ConfigReadFailed | ConfigNotJSON | ConfigRefused config_error

definition loadConfig ::
  "(string \<Rightarrow> parsed_url option) \<Rightarrow> (string \<Rightarrow> startup_config option) \<Rightarrow> string \<Rightarrow> config_file \<Rightarrow> load_error + startup_config" where
  "loadConfig parse_url decode path f =
     (if path = [] then Inr default_startup
      else (case f of
          ConfigAbsent \<Rightarrow> Inr default_startup
        | ConfigUnreadable \<Rightarrow> Inl ConfigReadFailed
        | ConfigText text \<Rightarrow>
            (case decode text of
               None \<Rightarrow> Inl ConfigNotJSON
             | Some cfg \<Rightarrow>
                 (case check_config parse_url (st_app cfg) of
                    Inl e \<Rightarrow> Inl (ConfigRefused e)
                  | Inr app \<Rightarrow> Inr (cfg\<lparr>st_app := app\<rparr>)))))"

section \<open>Serve\<close>

record 'st serve_env =
  sn_parse_route :: "string \<Rightarrow> string + route"
  sn_parse_duration :: "string \<Rightarrow> int option"
  sn_parse_url :: "string \<Rightarrow> parsed_url option"
  sn_decode :: "string \<Rightarrow> startup_config option"
  sn_create :: "string list \<Rightarrow> string + sender"
  sn_events_ok :: bool
  sn_lifecycle_ok :: bool
  sn_db_dir_ok :: bool
  sn_open_store :: "'st option"
  sn_ops :: "'st format_ops"
  sn_reconcile_method :: "'st \<Rightarrow> string \<Rightarrow> bool \<Rightarrow> string option \<times> 'st"
  sn_prune :: "'st \<Rightarrow> int \<Rightarrow> string option \<times> 'st"
  sn_control_plane_ok :: bool
  sn_listens :: "string \<Rightarrow> bool"
  sn_ready :: bool

datatype serve_error =
    ServeConfig load_error
  | ServeRuntime runtime_error
  | ServeNoRoutes
  | ServeProxyProtocol string
  | ServeNoInstance
  | ServeNoSMTPRoute
  | ServeEventsFile
  | ServeLifecycle
  | ServeMethod method_error
  | ServeDbDir
  | ServeStore
  | ServeFormat format_error
  | ServeReconcile string
  | ServeAlerts "alerter_error + sender_error"
  | ServeApprove string
  | ServeControlPlane
  | ServeListen string
  | ServeReady

text \<open>A guard and an error of a callee, wrapped.\<close>

definition require :: "bool \<Rightarrow> 'e \<Rightarrow> 'e + 'a \<Rightarrow> 'e + 'a" where
  "require ok e k = (if ok then k else Inl e)"

definition wrapped :: "('d \<Rightarrow> 'e) \<Rightarrow> 'd + 'a \<Rightarrow> 'e + 'a" where
  "wrapped f m = (case m of Inl e \<Rightarrow> Inl (f e) | Inr x \<Rightarrow> Inr x)"

definition has_smtp :: "route_config list \<Rightarrow> bool" where
  "has_smtp rs = list_ex (\<lambda>r. rc_protocol r = ''smtp'') rs"

text \<open>What a listener is opened with.\<close>

record served_route =
  sr_route :: route_config
  sr_blockUnknown :: bool
  sr_sendProxyV2 :: bool
  sr_protocol :: string

definition plan_route :: "serve_settings \<Rightarrow> route_config \<Rightarrow> served_route" where
  "plan_route s r =
     \<lparr>sr_route = r, sr_blockUnknown = fst (policy r (sv_allowUnknown s) (sv_proxyProtocol s)),
      sr_sendProxyV2 = snd (policy r (sv_allowUnknown s) (sv_proxyProtocol s)),
      sr_protocol = (if rc_protocol r = [] then ''tls'' else rc_protocol r)\<rparr>"

fun listen_all :: "(string \<Rightarrow> bool) \<Rightarrow> served_route list \<Rightarrow> serve_error + unit" where
  "listen_all listens [] = Inr ()"
| "listen_all listens (r # rs) =
     (if listens (Listen (sr_route r)) then listen_all listens rs else Inl (ServeListen (Listen (sr_route r))))"

record 'st started =
  sd_method :: fingerprint_method
  sd_shadow :: bool
  sd_routes :: "served_route list"
  sd_allow :: ip_allowlist
  sd_alerter :: "(blocked_range list \<times> (string \<Rightarrow> string option)) option"
  sd_store :: 'st

text \<open>The store, once its format and its method are those of this process.\<close>

definition reconcile_store ::
  "'st serve_env \<Rightarrow> serve_settings \<Rightarrow> fingerprint_method \<Rightarrow> 'st \<Rightarrow> serve_error + 'st" where
  "reconcile_store env s how st =
     (case reconcileFingerprintFormat (sn_ops env) st (sv_reset s) of
        ((Some e, _), _) \<Rightarrow> Inl (ServeFormat e)
      | ((None, _), st) \<Rightarrow>
          (case sn_reconcile_method env st how (sv_reset s) of
             (Some e, _) \<Rightarrow> Inl (ServeReconcile e)
           | (None, st) \<Rightarrow> Inr st))"

text \<open>The first pruning; its error is logged only.\<close>

definition startup_prune :: "'st serve_env \<Rightarrow> app_config \<Rightarrow> 'st \<Rightarrow> 'st" where
  "startup_prune env app st = (if ac_MaxFingerprints app > 0 then snd (sn_prune env st (ac_MaxFingerprints app)) else st)"

text \<open>The sockets: the metrics listener, then every route's.\<close>

definition open_listeners :: "'st serve_env \<Rightarrow> string \<Rightarrow> served_route list \<Rightarrow> serve_error + unit" where
  "open_listeners env metrics rs =
     require (metrics = [] \<or> sn_listens env metrics) (ServeListen metrics) (listen_all (sn_listens env) rs)"

text \<open>From the store to the last listener.\<close>

definition serve_open ::
  "'st serve_env \<Rightarrow> startup_config \<Rightarrow> serve_settings \<Rightarrow> fingerprint_method \<Rightarrow> 'st \<Rightarrow> serve_error + 'st started" where
  "serve_open env cfg s how st =
     ebind (reconcile_store env s how st) (\<lambda>st.
     ebind (wrapped ServeAlerts (NewBlockedRangeAlerter (sn_parse_url env) (sn_create env) (st_AlertRanges cfg) (st_app cfg))) (\<lambda>alerter.
     ebind (wrapped ServeApprove (newIPAllowlist (st_ApproveRanges cfg))) (\<lambda>allow.
     require (sn_control_plane_ok env) ServeControlPlane
     (ebind (open_listeners env (st_MetricsListen cfg) (map (plan_route s) (sv_routes s))) (\<lambda>_.
     require (sn_ready env) ServeReady
       (Inr \<lparr>sd_method = how, sd_shadow = st_ScopeShadow cfg, sd_routes = map (plan_route s) (sv_routes s), sd_allow = allow, sd_alerter = alerter,
          sd_store = startup_prune env (st_app cfg) st\<rparr>))))))"

definition serve_start ::
  "'st serve_env \<Rightarrow> string \<Rightarrow> config_file \<Rightarrow> string list \<Rightarrow> serve_settings \<Rightarrow> serve_error + 'st started" where
  "serve_start env path f explicit flags =
     ebind (wrapped ServeConfig (loadConfig (sn_parse_url env) (sn_decode env) path f)) (\<lambda>cfg.
     ebind (wrapped ServeRuntime (applyRuntimeConfig (sn_parse_route env) (sn_parse_duration env) explicit (st_runtime cfg) flags)) (\<lambda>s.
     require (sv_routes s \<noteq> []) ServeNoRoutes
     (require (sv_proxyProtocol s = ''off'' \<or> sv_proxyProtocol s = ''v2'') (ServeProxyProtocol (sv_proxyProtocol s))
     (require (sv_smtpEvents s = [] \<or> sv_smtpInstance s \<noteq> []) ServeNoInstance
     (require (sv_smtpEvents s = [] \<or> has_smtp (sv_routes s)) ServeNoSMTPRoute
     (require (sv_smtpEvents s = [] \<or> sn_events_ok env) ServeEventsFile
     (require (sn_lifecycle_ok env) ServeLifecycle
     (ebind (wrapped ServeMethod (ParseFingerprintMethod (sv_fingerprint s))) (\<lambda>how.
     require (sn_db_dir_ok env) ServeDbDir
     (case sn_open_store env of None \<Rightarrow> Inl ServeStore | Some st \<Rightarrow> serve_open env cfg s how st))))))))))"

section \<open>Doctor\<close>

text \<open>\<open>Addr.IsLoopback\<close> and \<open>Addr.IsPrivate\<close> of an address that is no mapped IPv4 address.\<close>

fun IsLoopback :: "addr \<Rightarrow> bool" where
  "IsLoopback (Addr4 a) \<longleftrightarrow> drop_bit 24 a = 127"
| "IsLoopback (Addr6 a z) \<longleftrightarrow> a = 1"

fun IsPrivate :: "addr \<Rightarrow> bool" where
  "IsPrivate (Addr4 a) \<longleftrightarrow> drop_bit 24 a = 10 \<or> drop_bit 20 a = 0xAC1 \<or> drop_bit 16 a = 0xC0A8"
| "IsPrivate (Addr6 a z) \<longleftrightarrow> drop_bit 121 a = 0x7E"

definition mailClientPorts :: "string list" where
  "mailClientPorts = [''465'', ''587'', ''993'', ''995'']"

definition mailRouteHidesClient :: "string \<Rightarrow> string \<Rightarrow> bool" where
  "mailRouteHidesClient listen backend =
     (case SplitHostPort listen of
        None \<Rightarrow> False
      | Some (_, port) \<Rightarrow>
          if port \<notin> set mailClientPorts then False
          else (case SplitHostPort backend of
              None \<Rightarrow> False
            | Some (host, _) \<Rightarrow>
                if ToLower host = ''localhost'' \<or> ToLower host = ''host.docker.internal'' then True
                else (case ParseAddr host of
                    None \<Rightarrow> False
                  | Some a \<Rightarrow> IsLoopback (Unmap a) \<or> IsPrivate (Unmap a))))"

definition metricsBindsNonLoopback :: "string \<Rightarrow> bool" where
  "metricsBindsNonLoopback listen =
     (case SplitHostPort listen of
        None \<Rightarrow> False
      | Some (host, _) \<Rightarrow>
          if EqualFold host ''localhost'' then False
          else (case ParseAddr host of None \<Rightarrow> True | Some a \<Rightarrow> \<not> IsLoopback (Unmap a)))"

datatype doctor_error =
    DoctorArgument string
  | DoctorConfig load_error
  | DoctorRuntime runtime_error
  | DoctorMethod method_error
  | DoctorProxyProtocol string
  | DoctorNoInstance
  | DoctorNoSMTPRoute
  | DoctorDatabase
  | DoctorConfigFile
  | DoctorApprove string
  | DoctorNotificationURLs
  | DoctorRangeName
  | DoctorRangeEmpty string
  | DoctorRangeCIDR string string
  | DoctorControlPlane

text \<open>\<open>validateDoctorConfig\<close>.\<close>

fun doctor_cidrs :: "string \<Rightarrow> string list \<Rightarrow> doctor_error option" where
  "doctor_cidrs name [] = None"
| "doctor_cidrs name (cidr # cidrs) =
     (if ParsePrefix cidr = None then Some (DoctorRangeCIDR name cidr) else doctor_cidrs name cidrs)"

fun doctor_ranges :: "alert_range_config list \<Rightarrow> doctor_error option" where
  "doctor_ranges [] = None"
| "doctor_ranges (c # cs) =
     (if arc_Name c = [] then Some DoctorRangeName
      else if arc_CIDRs c = [] then Some (DoctorRangeEmpty (arc_Name c))
      else (case doctor_cidrs (arc_Name c) (arc_CIDRs c) of Some e \<Rightarrow> Some e | None \<Rightarrow> doctor_ranges cs))"

definition validateDoctorConfig :: "startup_config \<Rightarrow> doctor_error option" where
  "validateDoctorConfig cfg =
     (case newIPAllowlist (st_ApproveRanges cfg) of
        Inl e \<Rightarrow> Some (DoctorApprove e)
      | Inr _ \<Rightarrow>
          if st_AlertRanges cfg \<noteq> [] \<and> ac_NotificationURLs (st_app cfg) = [] then Some DoctorNotificationURLs
          else (case doctor_ranges (st_AlertRanges cfg) of
              Some e \<Rightarrow> Some e
            | None \<Rightarrow> if st_cp_enabled cfg \<and> \<not> st_cp_valid cfg then Some DoctorControlPlane else None))"

text \<open>One call of \<open>emit\<close> each; the texts are their formats applied to the fields.\<close>

datatype doctor_line =
    LVersion
  | LDatabase string
  | LDatabaseMode nat
  | LDatabaseMissing
  | LConfig string
  | LConfigPresent
  | LConfigAbsent
  | LMethod fingerprint_method
  | LDrain int
  | LEvents string string
  | LNoEvents
  | LProxy string
  | LUnknownAllowed
  | LUnknownBlocked
  | LMaxFingerprints int
  | LMaxConnections int
  | LRate rat int
  | LNoMetrics
  | LMetrics string
  | LMetricsExposed string
  | LTrustedRanges nat
  | LAlertRanges nat
  | LControlPlane
  | LNoControlPlane
  | LNoRangesFile
  | LRangesFileUnused string
  | LRangesFile string
  | LNoRoutes
  | LSMTPRoute string string bool
  | LTLSRoute string string bool bool
  | LCapacity string int
  | LClientHidden string string

definition doctor_route :: "serve_settings \<Rightarrow> route_config \<Rightarrow> doctor_line list" where
  "doctor_route s r =
     (let block = fst (policy r (sv_allowUnknown s) (sv_proxyProtocol s));
          proxy = snd (policy r (sv_allowUnknown s) (sv_proxyProtocol s));
          protocol = (if rc_protocol r = [] then ''tls'' else rc_protocol r)
      in [if protocol = ''smtp'' then LSMTPRoute (Listen r) (Backend r) proxy
          else LTLSRoute (Listen r) (Backend r) (\<not> block) proxy] @
         (if rc_maxConcurrent r > 0 then [LCapacity (Listen r) (rc_maxConcurrent r)] else []) @
         (if protocol = ''tls'' \<and> \<not> proxy \<and> mailRouteHidesClient (Listen r) (Backend r)
          then [LClientHidden (Listen r) (Backend r)] else []))"

definition doctor_settings :: "startup_config \<Rightarrow> serve_settings \<Rightarrow> fingerprint_method \<Rightarrow> doctor_line list" where
  "doctor_settings cfg s how =
     [LMethod how, LDrain (sv_drain s),
      if sv_smtpEvents s \<noteq> [] then LEvents (sv_smtpEvents s) (sv_smtpInstance s) else LNoEvents,
      LProxy (sv_proxyProtocol s), if sv_allowUnknown s then LUnknownAllowed else LUnknownBlocked,
      LMaxFingerprints (ac_MaxFingerprints (st_app cfg)), LMaxConnections (ac_MaxConnections (st_app cfg)),
      LRate (ac_ConnectionRate (st_app cfg)) (ac_ConnectionBurst (st_app cfg))] @
     (if st_MetricsListen cfg = [] then [LNoMetrics]
      else LMetrics (st_MetricsListen cfg) #
        (if metricsBindsNonLoopback (st_MetricsListen cfg) then [LMetricsExposed (st_MetricsListen cfg)] else [])) @
     [LTrustedRanges (length (st_ApproveRanges cfg)), LAlertRanges (length (st_AlertRanges cfg)),
      if st_cp_enabled cfg then LControlPlane else LNoControlPlane,
      if st_TrustedRangesFile cfg = [] then LNoRangesFile
      else if \<not> st_cp_enabled cfg then LRangesFileUnused (st_TrustedRangesFile cfg)
      else LRangesFile (st_TrustedRangesFile cfg)] @
     (if sv_routes s = [] then [LNoRoutes] else concat (map (doctor_route s) (sv_routes s)))"

text \<open>What \<open>os.Stat\<close> says of a path.\<close>

datatype stat_result = StatMode nat | StatMissing | StatFailed

definition doctor_report ::
  "stat_result \<Rightarrow> stat_result \<Rightarrow> string \<Rightarrow> startup_config \<Rightarrow> serve_settings \<Rightarrow> fingerprint_method \<Rightarrow>
     doctor_error option \<times> doctor_line list" where
  "doctor_report db_stat config_stat path cfg s how =
     (let start = [LVersion, LDatabase (sv_db s)] in
      case db_stat of
        StatFailed \<Rightarrow> (Some DoctorDatabase, start)
      | _ \<Rightarrow>
          (let start = start @ [case db_stat of StatMode m \<Rightarrow> LDatabaseMode m | _ \<Rightarrow> LDatabaseMissing, LConfig path] in
           case config_stat of
             StatFailed \<Rightarrow> (Some DoctorConfigFile, start)
           | _ \<Rightarrow>
               (let start = start @ [case config_stat of StatMode _ \<Rightarrow> LConfigPresent | _ \<Rightarrow> LConfigAbsent] in
                case validateDoctorConfig cfg of
                  Some e \<Rightarrow> (Some e, start)
                | None \<Rightarrow> (None, start @ doctor_settings cfg s how))))"

text \<open>The inputs that \<open>runDoctor\<close> checks before it writes anything.\<close>

definition doctor_inputs ::
  "'st serve_env \<Rightarrow> string \<Rightarrow> config_file \<Rightarrow> string list \<Rightarrow> serve_settings \<Rightarrow>
     doctor_error + (startup_config \<times> serve_settings \<times> fingerprint_method)" where
  "doctor_inputs env path f explicit flags =
     ebind (wrapped DoctorConfig (loadConfig (sn_parse_url env) (sn_decode env) path f)) (\<lambda>cfg.
     ebind (wrapped DoctorRuntime (applyRuntimeConfig (sn_parse_route env) (sn_parse_duration env) explicit (st_runtime cfg) flags)) (\<lambda>s.
     ebind (wrapped DoctorMethod (ParseFingerprintMethod (sv_fingerprint s))) (\<lambda>how.
     require (sv_proxyProtocol s = ''off'' \<or> sv_proxyProtocol s = ''v2'') (DoctorProxyProtocol (sv_proxyProtocol s))
     (require (sv_smtpEvents s = [] \<or> sv_smtpInstance s \<noteq> []) DoctorNoInstance
     (require (sv_smtpEvents s = [] \<or> has_smtp (sv_routes s)) DoctorNoSMTPRoute
       (Inr (cfg, s, how)))))))"

text \<open>
  \<open>runDoctor\<close> with its flags parsed, \<open>args\<close> what is left of the arguments: the error it returns,
  and the lines it emits.
\<close>

definition runDoctor ::
  "'st serve_env \<Rightarrow> stat_result \<Rightarrow> stat_result \<Rightarrow> string list \<Rightarrow> string \<Rightarrow> config_file \<Rightarrow> string list \<Rightarrow> serve_settings \<Rightarrow>
     doctor_error option \<times> doctor_line list" where
  "runDoctor env db_stat config_stat args path f explicit flags =
     (case args of
        a # _ \<Rightarrow> (Some (DoctorArgument a), [])
      | [] \<Rightarrow>
          (case doctor_inputs env path f explicit flags of
             Inl e \<Rightarrow> (Some e, [])
           | Inr (cfg, s, how) \<Rightarrow> doctor_report db_stat config_stat path cfg s how))"

text \<open>The first write that fails ends the output, and is what \<open>runDoctor\<close> returns when nothing else is wrong.\<close>

definition doctor_output :: "(nat \<Rightarrow> bool) \<Rightarrow> doctor_line list \<Rightarrow> doctor_line list \<times> bool" where
  "doctor_output write_ok lines =
     (let k = length (takeWhile write_ok [0..<length lines]) in (take k lines, k = length lines))"

section \<open>Doctor and serve agree\<close>

lemma require_Inr [res_simps]: "require ok e k = Inr x \<longleftrightarrow> ok \<and> k = Inr x"
  by (simp add: require_def)

lemma wrapped_Inr [res_simps]: "wrapped g m = Inr x \<longleftrightarrow> m = Inr x"
  by (simp add: wrapped_def split: sum.split)

lemma doctor_cidrs_iff: "doctor_cidrs name cs = None \<longleftrightarrow> (\<exists>ps. range_prefixes name cs = Inr ps)"
  by (induction cs) (auto simp: res_simps split: option.splits)

lemma range_prefixes_length: "range_prefixes name cs = Inr ps \<Longrightarrow> length ps = length cs"
  by (induction cs arbitrary: ps) (auto simp: res_simps split: option.splits)

lemma doctor_ranges_iff: "doctor_ranges cs = None \<longleftrightarrow> (\<exists>rs. alert_ranges cs = Inr rs)"
proof (induction cs)
  case (Cons c cs)
  show ?case
  proof (cases "\<exists>ps. range_prefixes (arc_Name c) (arc_CIDRs c) = Inr ps")
    case True
    then obtain ps where ps: "range_prefixes (arc_Name c) (arc_CIDRs c) = Inr ps" by blast
    then have "ps = [] \<longleftrightarrow> arc_CIDRs c = []" "doctor_cidrs (arc_Name c) (arc_CIDRs c) = None"
      using range_prefixes_length [OF ps] by (auto simp: doctor_cidrs_iff)
    then show ?thesis using Cons ps by (auto simp: res_simps)
  next
    case False
    then have "doctor_cidrs (arc_Name c) (arc_CIDRs c) \<noteq> None" by (simp add: doctor_cidrs_iff)
    then show ?thesis using False by (auto simp: res_simps split: option.split)
  qed
qed simp

text \<open>What is loaded has secure URLs and a known mode, so a sender can be made of it.\<close>

definition app_loaded :: "(string \<Rightarrow> parsed_url option) \<Rightarrow> app_config \<Rightarrow> bool" where
  "app_loaded parse_url app \<longleftrightarrow> check_urls parse_url (ac_NotificationURLs app) = Inr () \<and>
     ac_NotificationMode app \<in> {[], ''failover'', ''broadcast''}"

lemma loadConfig_loaded: "loadConfig parse_url decode path f = Inr cfg \<Longrightarrow> app_loaded parse_url (st_app cfg)"
  by (auto simp: loadConfig_def app_loaded_def default_startup_def default_config_def check_config_def Let_def
      split: if_splits config_file.splits option.splits sum.splits)

text \<open>
  The failures of serve that no reading of its inputs can foresee, each with what failed: a file,
  a directory, a socket, the process library, the store and what it holds, the control plane, and
  a notification URL that the sender library refuses.
\<close>

fun outside_failure :: "'st serve_env \<Rightarrow> startup_config \<Rightarrow> serve_error \<Rightarrow> bool" where
  "outside_failure env cfg ServeEventsFile \<longleftrightarrow> \<not> sn_events_ok env"
| "outside_failure env cfg ServeLifecycle \<longleftrightarrow> \<not> sn_lifecycle_ok env"
| "outside_failure env cfg ServeDbDir \<longleftrightarrow> \<not> sn_db_dir_ok env"
| "outside_failure env cfg ServeStore \<longleftrightarrow> sn_open_store env = None"
| "outside_failure env cfg (ServeFormat e) \<longleftrightarrow>
     (\<exists>st reset. fst (fst (reconcileFingerprintFormat (sn_ops env) st reset)) = Some e)"
| "outside_failure env cfg (ServeReconcile e) \<longleftrightarrow> (\<exists>st how reset. fst (sn_reconcile_method env st how reset) = Some e)"
| "outside_failure env cfg (ServeAlerts e) \<longleftrightarrow>
     (\<exists>msg urls. e = Inr (CreateFailed msg) \<and> st_AlertRanges cfg \<noteq> [] \<and> set urls \<subseteq> set (ac_NotificationURLs (st_app cfg)) \<and>
        sn_create env urls = Inl msg)"
| "outside_failure env cfg ServeControlPlane \<longleftrightarrow> \<not> sn_control_plane_ok env"
| "outside_failure env cfg (ServeListen a) \<longleftrightarrow> \<not> sn_listens env a"
| "outside_failure env cfg ServeReady \<longleftrightarrow> \<not> sn_ready env"
| "outside_failure env cfg _ \<longleftrightarrow> False"

lemma create_all_fails: "create_all create us = Inl msg \<Longrightarrow> \<exists>u \<in> set us. create [u] = Inl msg"
  by (induction us) (auto simp: ebind_eq_Inl)

lemma sender_fails:
  assumes "app_loaded parse_url app" "newNotificationSender parse_url create (ac_NotificationURLs app) mode = Inl e"
    and "mode = (if ac_NotificationMode app = [] then ''failover'' else ac_NotificationMode app)"
  shows "\<exists>msg urls. e = CreateFailed msg \<and> set urls \<subseteq> set (ac_NotificationURLs app) \<and> create urls = Inl msg"
proof -
  from assms obtain msg where e: "e = CreateFailed msg"
    "create_all create (ac_NotificationURLs app) = Inl msg \<or> create (ac_NotificationURLs app) = Inl msg"
    by (auto simp: newNotificationSender_def app_loaded_def split: sum.splits if_splits)
  from e(2) show ?thesis
  proof
    assume "create_all create (ac_NotificationURLs app) = Inl msg"
    then obtain u where "u \<in> set (ac_NotificationURLs app)" "create [u] = Inl msg" using create_all_fails by blast
    then show ?thesis using e(1) by (intro exI [of _ msg] exI [of _ "[u]"]) simp
  qed (use e(1) in blast)
qed

text \<open>What serve does beyond doctor's checks succeeds only where they do, and fails only outside.\<close>

lemma alerter_cases:
  assumes "app_loaded parse_url (st_app cfg)"
  shows "NewBlockedRangeAlerter parse_url create (st_AlertRanges cfg) (st_app cfg) = Inr a \<Longrightarrow>
      \<not> (st_AlertRanges cfg \<noteq> [] \<and> ac_NotificationURLs (st_app cfg) = []) \<and> doctor_ranges (st_AlertRanges cfg) = None"
    and "NewBlockedRangeAlerter parse_url create (st_AlertRanges cfg) (st_app cfg) = Inl e \<Longrightarrow>
      \<not> (st_AlertRanges cfg \<noteq> [] \<and> ac_NotificationURLs (st_app cfg) = []) \<Longrightarrow> doctor_ranges (st_AlertRanges cfg) = None \<Longrightarrow>
      \<exists>msg urls. e = Inr (CreateFailed msg) \<and> st_AlertRanges cfg \<noteq> [] \<and> set urls \<subseteq> set (ac_NotificationURLs (st_app cfg)) \<and>
        create urls = Inl msg"
proof -
  define mode where "mode = (if ac_NotificationMode (st_app cfg) = [] then ''failover'' else ac_NotificationMode (st_app cfg))"
  note d = NewBlockedRangeAlerter_def Let_def mode_def [symmetric] doctor_ranges_iff
  show "NewBlockedRangeAlerter parse_url create (st_AlertRanges cfg) (st_app cfg) = Inr a \<Longrightarrow>
      \<not> (st_AlertRanges cfg \<noteq> [] \<and> ac_NotificationURLs (st_app cfg) = []) \<and> doctor_ranges (st_AlertRanges cfg) = None"
    unfolding d by (auto split: if_splits sum.splits)
  show "NewBlockedRangeAlerter parse_url create (st_AlertRanges cfg) (st_app cfg) = Inl e \<Longrightarrow>
      \<not> (st_AlertRanges cfg \<noteq> [] \<and> ac_NotificationURLs (st_app cfg) = []) \<Longrightarrow> doctor_ranges (st_AlertRanges cfg) = None \<Longrightarrow>
      \<exists>msg urls. e = Inr (CreateFailed msg) \<and> st_AlertRanges cfg \<noteq> [] \<and> set urls \<subseteq> set (ac_NotificationURLs (st_app cfg)) \<and>
        create urls = Inl msg"
    unfolding d by (auto split: if_splits sum.splits dest!: sender_fails [OF assms _ mode_def])
qed

lemma listen_all_fails: "listen_all listens rs = Inl e \<Longrightarrow> \<exists>a. e = ServeListen a \<and> \<not> listens a"
  by (induction rs) (auto split: if_splits)

lemma serve_open_passes:
  assumes "app_loaded (sn_parse_url env) (st_app cfg)" "sn_control_plane_ok env \<Longrightarrow> \<not> (st_cp_enabled cfg \<and> \<not> st_cp_valid cfg)"
    and "serve_open env cfg s how st = Inr d"
  shows "validateDoctorConfig cfg = None" and "sd_method d = how" and "sd_routes d = map (plan_route s) (sv_routes s)"
proof -
  from assms(3) obtain a l where "NewBlockedRangeAlerter (sn_parse_url env) (sn_create env) (st_AlertRanges cfg) (st_app cfg) = Inr a"
    "newIPAllowlist (st_ApproveRanges cfg) = Inr l" "sn_control_plane_ok env" "sd_method d = how" "sd_routes d = map (plan_route s) (sv_routes s)"
    by (auto simp: serve_open_def res_simps)
  then show "validateDoctorConfig cfg = None" "sd_method d = how" "sd_routes d = map (plan_route s) (sv_routes s)"
    using alerter_cases(1) [OF assms(1)] assms(2) by (auto simp: validateDoctorConfig_def split: option.split)
qed

lemma reconcile_store_fails:
  "reconcile_store env s how st = Inl e \<Longrightarrow> outside_failure env cfg e"
  unfolding reconcile_store_def by (auto split: prod.splits option.splits) (metis fst_conv)+

lemma serve_open_fails:
  assumes "app_loaded (sn_parse_url env) (st_app cfg)" "validateDoctorConfig cfg = None" "serve_open env cfg s how st = Inl e"
  shows "outside_failure env cfg e"
proof -
  have ok: "\<not> (st_AlertRanges cfg \<noteq> [] \<and> ac_NotificationURLs (st_app cfg) = [])" "doctor_ranges (st_AlertRanges cfg) = None"
    "\<exists>l. newIPAllowlist (st_ApproveRanges cfg) = Inr l"
    using assms(2) by (auto simp: validateDoctorConfig_def split: sum.splits if_splits option.splits)
  note alerts = alerter_cases(2) [OF assms(1) _ ok(1,2)]
  show ?thesis
    using assms(3) ok(3)
    by (auto simp: serve_open_def ebind_eq_Inl wrapped_def require_def open_listeners_def
        split: sum.splits if_splits dest!: alerts listen_all_fails intro: reconcile_store_fails) blast+
qed

text \<open>The line of the report for a listener that serve opens.\<close>

definition route_line :: "served_route \<Rightarrow> doctor_line" where
  "route_line sr =
     (if sr_protocol sr = ''smtp'' then LSMTPRoute (Listen (sr_route sr)) (Backend (sr_route sr)) (sr_sendProxyV2 sr)
      else LTLSRoute (Listen (sr_route sr)) (Backend (sr_route sr)) (\<not> sr_blockUnknown sr) (sr_sendProxyV2 sr))"

lemma doctor_report_ok:
  assumes "db_stat \<noteq> StatFailed" "config_stat \<noteq> StatFailed"
  shows "fst (doctor_report db_stat config_stat path cfg s how) = validateDoctorConfig cfg"
    and "validateDoctorConfig cfg = None \<Longrightarrow>
      set (doctor_settings cfg s how) \<subseteq> set (snd (doctor_report db_stat config_stat path cfg s how)) \<and>
      (LNoRoutes \<in> set (snd (doctor_report db_stat config_stat path cfg s how)) \<longleftrightarrow> sv_routes s = [])"
proof -
  show "fst (doctor_report db_stat config_stat path cfg s how) = validateDoctorConfig cfg"
    using assms by (auto simp: doctor_report_def Let_def split: stat_result.split option.split)
  assume ok: "validateDoctorConfig cfg = None"
  have "LNoRoutes \<in> set (doctor_settings cfg s how) \<longleftrightarrow> sv_routes s = []"
    by (auto simp: doctor_settings_def doctor_route_def Let_def)
  then show "set (doctor_settings cfg s how) \<subseteq> set (snd (doctor_report db_stat config_stat path cfg s how)) \<and>
      (LNoRoutes \<in> set (snd (doctor_report db_stat config_stat path cfg s how)) \<longleftrightarrow> sv_routes s = [])"
    using assms ok by (auto simp: doctor_report_def Let_def split: stat_result.splits)
qed

lemma doctor_settings_routes:
  "r \<in> set (sv_routes s) \<Longrightarrow> route_line (plan_route s r) \<in> set (doctor_settings cfg s how)"
  by (force simp: doctor_settings_def doctor_route_def route_line_def plan_route_def Let_def)

lemma LMethod_settings: "LMethod how \<in> set (doctor_settings cfg s how)"
  by (simp add: doctor_settings_def)

text \<open>
  C38: doctor and serve judge the inputs alike. What serve starts with, \<open>doctor\<close> accepts, and the
  report names the fingerprint method and every listener with the backend, the treatment of
  unknown clients and the PROXY header that serve opens it with. And if \<open>doctor\<close> accepts the
  flags and the configuration and does not say that no route is configured, then serve starts or
  stops for a reason outside of them: a file, a directory, a socket, the process library, the
  store or what it holds, the control plane, or notification URLs that the sender library does
  not take, which \<open>doctor\<close> does not try. Hypotheses: the paths can be examined, and the control
  plane does not start with an invalid configuration.
\<close>

theorem doctor_agrees:
  assumes "db_stat \<noteq> StatFailed" and "config_stat \<noteq> StatFailed"
    and "\<And>cfg. loadConfig (sn_parse_url env) (sn_decode env) path f = Inr cfg \<Longrightarrow> sn_control_plane_ok env \<Longrightarrow>
      \<not> (st_cp_enabled cfg \<and> \<not> st_cp_valid cfg)"
  shows "(\<forall>d. serve_start env path f explicit flags = Inr d \<longrightarrow>
       (\<exists>report. runDoctor env db_stat config_stat [] path f explicit flags = (None, report) \<and> LNoRoutes \<notin> set report \<and>
          LMethod (sd_method d) \<in> set report \<and> (\<forall>sr \<in> set (sd_routes d). route_line sr \<in> set report))) \<and>
     (\<forall>report. runDoctor env db_stat config_stat [] path f explicit flags = (None, report) \<and> LNoRoutes \<notin> set report \<longrightarrow>
       (case serve_start env path f explicit flags of
          Inr d \<Rightarrow> True
        | Inl e \<Rightarrow> \<exists>cfg. loadConfig (sn_parse_url env) (sn_decode env) path f = Inr cfg \<and> outside_failure env cfg e))"
proof -
  let ?run = "runDoctor env db_stat config_stat [] path f explicit flags"
  define inputs where "inputs = (\<lambda>cfg s how. loadConfig (sn_parse_url env) (sn_decode env) path f = Inr cfg \<and>
      applyRuntimeConfig (sn_parse_route env) (sn_parse_duration env) explicit (st_runtime cfg) flags = Inr s \<and>
      ParseFingerprintMethod (sv_fingerprint s) = Inr how \<and>
      (sv_proxyProtocol s = ''off'' \<or> sv_proxyProtocol s = ''v2'') \<and> (sv_smtpEvents s = [] \<or> sv_smtpInstance s \<noteq> []) \<and>
      (sv_smtpEvents s = [] \<or> has_smtp (sv_routes s)))"
  have loaded: "app_loaded (sn_parse_url env) (st_app cfg)" if "inputs cfg s how" for cfg s how
    using that loadConfig_loaded by (auto simp: inputs_def)
  have doctor: "?run = (None, report) \<longleftrightarrow>
      (\<exists>cfg s how. inputs cfg s how \<and> doctor_report db_stat config_stat path cfg s how = (None, report))" for report
  proof -
    have "inputs cfg s how \<longleftrightarrow> doctor_inputs env path f explicit flags = Inr (cfg, s, how)" for cfg s how
      by (auto simp: doctor_inputs_def inputs_def res_simps)
    then show ?thesis by (cases "doctor_inputs env path f explicit flags") (auto simp: runDoctor_def)
  qed
  have reports: "(\<exists>report. doctor_report db_stat config_stat path cfg s how = (None, report)) \<longleftrightarrow> validateDoctorConfig cfg = None" for cfg s how
    using doctor_report_ok(1) [OF assms(1,2), of path cfg s how] by (cases "doctor_report db_stat config_stat path cfg s how") auto
  have lines: "set (doctor_settings cfg s how) \<subseteq> set report \<and> (LNoRoutes \<in> set report \<longleftrightarrow> sv_routes s = [])"
    if "doctor_report db_stat config_stat path cfg s how = (None, report)" for cfg s how report
    using doctor_report_ok(2) [OF assms(1,2), of cfg s how path] reports [of cfg s how] that by auto
  have started: "\<exists>report. ?run = (None, report) \<and> LNoRoutes \<notin> set report \<and> LMethod (sd_method d) \<in> set report \<and>
      (\<forall>sr \<in> set (sd_routes d). route_line sr \<in> set report)" if d: "serve_start env path f explicit flags = Inr d" for d
  proof -
    from d obtain cfg s how st where r: "inputs cfg s how" "sv_routes s \<noteq> []" "serve_open env cfg s how st = Inr d"
      by (auto simp: serve_start_def inputs_def res_simps split: option.splits)
    note cp = assms(3) [of cfg] and cfg = r(1) [unfolded inputs_def, THEN conjunct1]
    note opened = serve_open_passes [OF loaded [OF r(1)] cp [OF cfg] r(3)]
    obtain report where report: "doctor_report db_stat config_stat path cfg s how = (None, report)" using reports opened(1) by blast
    then show ?thesis
      using doctor r(1,2) lines [OF report] opened(2,3) LMethod_settings [of how cfg s] doctor_settings_routes [of _ s cfg how]
      by (intro exI [of _ report]) auto
  qed
  have failed: "\<exists>cfg. loadConfig (sn_parse_url env) (sn_decode env) path f = Inr cfg \<and> outside_failure env cfg e"
    if run: "?run = (None, report)" "LNoRoutes \<notin> set report" and e: "serve_start env path f explicit flags = Inl e" for report e
  proof -
    from run(1) obtain cfg s how where r: "inputs cfg s how" "doctor_report db_stat config_stat path cfg s how = (None, report)"
      using doctor by blast
    have routes: "sv_routes s \<noteq> []" using lines [OF r(2)] run(2) by simp
    have valid: "validateDoctorConfig cfg = None" using reports r(2) by blast
    have cfg: "loadConfig (sn_parse_url env) (sn_decode env) path f = Inr cfg" using r(1) by (simp add: inputs_def)
    have "outside_failure env cfg e"
      using e r(1) routes serve_open_fails [OF loaded [OF r(1)] valid, of s how]
      by (auto simp: serve_start_def inputs_def wrapped_def require_def split: if_splits option.splits)
    then show ?thesis using cfg by blast
  qed
  show ?thesis using started failed by (auto split: sum.split)
qed

text \<open>
  The one disagreement about the inputs alone: \<open>doctor\<close> does not build the senders, so it accepts
  notification URLs that the sender library refuses and serve stops at.
\<close>

lemma doctor_misses_urls:
  assumes "validateDoctorConfig cfg = None" "st_AlertRanges cfg \<noteq> []" "ac_NotificationMode (st_app cfg) = ''broadcast''"
    and "check_urls (sn_parse_url env) (ac_NotificationURLs (st_app cfg)) = Inr ()"
    and "sn_create env (ac_NotificationURLs (st_app cfg)) = Inl msg" "reconcile_store env s how st = Inr st'"
  shows "serve_open env cfg s how st = Inl (ServeAlerts (Inr (CreateFailed msg)))"
  using assms
  by (auto simp: serve_open_def wrapped_def NewBlockedRangeAlerter_def newNotificationSender_def Let_def validateDoctorConfig_def
      split: sum.splits if_splits)

text \<open>An example: no configuration file, one route on the command line.\<close>

definition demo_machine :: "unit serve_env" where
  "demo_machine =
     \<lparr>sn_parse_route = (\<lambda>s. Inl []), sn_parse_duration = (\<lambda>s. None), sn_parse_url = (\<lambda>s. None), sn_decode = (\<lambda>s. None),
      sn_create = (\<lambda>us. Inr (\<lambda>t. [])), sn_events_ok = True, sn_lifecycle_ok = True, sn_db_dir_ok = True, sn_open_store = Some (),
      sn_ops = \<lparr>GetMeta = (\<lambda>st k. Inr canonicalFingerprintFormat), LastFingerprint = (\<lambda>st. Inr []),
        ResetFingerprints = (\<lambda>st. (Inr 0, st)), SetMeta = (\<lambda>st k v. (None, st))\<rparr>,
      sn_reconcile_method = (\<lambda>st how reset. (None, st)), sn_prune = (\<lambda>st n. (None, st)), sn_control_plane_ok = True, sn_listens = (\<lambda>a. True), sn_ready = True\<rparr>"

definition demo_flags :: serve_settings where
  "demo_flags =
     \<lparr>sv_routes = [\<lparr>Listen = ''l:993'', Backend = ''b:143'', rc_allowUnknown = None, rc_proxyProtocol = [], rc_protocol = [],
        rc_maxConcurrent = 0\<rparr>],
      sv_db = ''d'', sv_allowUnknown = False, sv_fingerprint = ''ja3'', sv_reset = False, sv_proxyProtocol = ''off'', sv_drain = 0,
      sv_smtpEvents = [], sv_smtpInstance = []\<rparr>"

lemma demo_start:
  "\<exists>d. serve_start demo_machine [] ConfigAbsent [''route''] demo_flags = Inr d"
proof -
  have cfg: "loadConfig (sn_parse_url demo_machine) (sn_decode demo_machine) [] ConfigAbsent = Inr default_startup"
    by (simp add: loadConfig_def)
  have settings: "applyRuntimeConfig (sn_parse_route demo_machine) (sn_parse_duration demo_machine) [''route'']
      (st_runtime default_startup) demo_flags = Inr demo_flags"
    by (simp add: applyRuntimeConfig_def default_startup_def demo_flags_def text_from_file_def from_file_def drain_from_file_def)
  have how: "ParseFingerprintMethod (sv_fingerprint demo_flags) = Inr MethodJA3"
    by (simp add: ParseFingerprintMethod_def MethodJA3_def demo_flags_def)
  obtain d where "serve_open demo_machine default_startup demo_flags MethodJA3 () = Inr d"
    by (simp add: serve_open_def reconcile_store_def reconcileFingerprintFormat_def open_listeners_def NewBlockedRangeAlerter_def
        newIPAllowlist_def demo_machine_def default_startup_def demo_flags_def wrapped_def require_def)
  moreover have "sn_lifecycle_ok demo_machine" "sn_db_dir_ok demo_machine" "sn_open_store demo_machine = Some ()"
    by (simp_all add: demo_machine_def)
  moreover have "sv_routes demo_flags \<noteq> []" "sv_proxyProtocol demo_flags = ''off''" "sv_smtpEvents demo_flags = []"
    by (simp_all add: demo_flags_def)
  ultimately show ?thesis by (simp add: serve_start_def cfg settings how wrapped_def require_def)
qed

lemma doctor_agrees_witness:
  "\<exists>d report. serve_start demo_machine [] ConfigAbsent [''route''] demo_flags = Inr d \<and>
     runDoctor demo_machine StatMissing StatMissing [] [] ConfigAbsent [''route''] demo_flags = (None, report) \<and>
     LMethod (sd_method d) \<in> set report"
proof -
  obtain d where d: "serve_start demo_machine [] ConfigAbsent [''route''] demo_flags = Inr d" using demo_start by blast
  have cp: "\<not> (st_cp_enabled cfg \<and> \<not> st_cp_valid cfg)"
    if "loadConfig (sn_parse_url demo_machine) (sn_decode demo_machine) [] ConfigAbsent = Inr cfg" for cfg
    using that by (auto simp: loadConfig_def default_startup_def)
  have stat: "StatMissing \<noteq> StatFailed" by simp
  note agree = doctor_agrees [where explicit = "[''route'']" and flags = demo_flags, OF stat stat cp]
  from agree d show ?thesis by blast
qed

end
