(* ===== verification/Smtp_Commands.thy ===== *)
theory Smtp_Commands
  imports Smtp_Report Serve
begin

text \<open>
  The commands on SMTP observations with their flags parsed: \<open>correlate-smtp\<close> of
  \<open>smtp_correlate.go\<close>, \<open>classify-smtp\<close> of \<open>smtp_campaign.go\<close> and \<open>report-smtp\<close> of
  \<open>smtp_report.go\<close>. Files and databases are looked up by path; printing is left out. The lemma:
  when \<open>report-smtp\<close> takes what \<open>classify-smtp\<close> writes for a listener.
\<close>

section \<open>Correlating and classifying\<close>

record smtp_flags =
  xf_events :: string
  xf_postfix :: string
  xf_instance :: string
  xf_listener :: string
  xf_tolerance :: int
  xf_format :: string
  xf_exclude :: string

datatype smtp_command_error =
    UnexpectedArguments
  | FlagsRequired
  | InvalidFormat string
  | InvalidExclusion exclusion_error
  | CorrelationFailed corr_error
  | ClassificationFailed campaign_error
  | ReportConfig load_error
  | ControlPlaneDisabled
  | ReportFailed report_error
  | UploadRefused upload_error
  | UploadEnded upload_end

text \<open>The counts of excluded traffic are printed only when something can be excluded.\<close>

definition printed_exclusion :: "net_prefix list \<Rightarrow> 'a \<Rightarrow> 'a option" where
  "printed_exclusion exclude counts = (if exclude = [] then None else Some counts)"

definition cmdCorrelateSMTP ::
  "corr_env \<Rightarrow> (string \<Rightarrow> batch_file option) \<Rightarrow> corr_files \<Rightarrow> (string \<Rightarrow> corr_row list option) \<Rightarrow> string list \<Rightarrow> smtp_flags \<Rightarrow> string \<Rightarrow> string \<Rightarrow>
     smtp_command_error + (smtp_summary \<times> (nat \<times> nat) option \<times> corr_row list)" where
  "cmdCorrelateSMTP env lookup parsers tables args fl verdicts db =
     (if args \<noteq> [] then Inl UnexpectedArguments
      else if xf_events fl = [] \<or> xf_postfix fl = [] \<or> verdicts = [] \<or> xf_instance fl = [] \<or> xf_listener fl = [] then Inl FlagsRequired
      else if xf_format fl \<noteq> ''text'' \<and> xf_format fl \<noteq> ''json'' then Inl (InvalidFormat (xf_format fl))
      else (case parseSMTPSourceExclusion (xf_exclude fl) of
          Inl e \<Rightarrow> Inl (InvalidExclusion e)
        | Inr exclude \<Rightarrow>
            (case runSMTPCorrelationExcluding env
                (parsers\<lparr>cf_events := lookup (xf_events fl), cf_postfix := lookup (xf_postfix fl), cf_verdicts := lookup verdicts\<rparr>)
                (tables db) (xf_instance fl) (xf_listener fl) (xf_tolerance fl) exclude of
               Inl e \<Rightarrow> Inl (CorrelationFailed e)
             | Inr (summary, excluded, rows) \<Rightarrow> Inr (summary, printed_exclusion exclude excluded, rows))))"

definition cmdClassifySMTP ::
  "(string \<Rightarrow> batch_file option) \<Rightarrow> (string \<Rightarrow> prefix_input) \<Rightarrow> campaign_env \<Rightarrow> string list \<Rightarrow> smtp_flags \<Rightarrow> string \<Rightarrow> int \<Rightarrow>
     smtp_command_error + (smtp_campaign_report \<times> (nat \<times> nat) option)" where
  "cmdClassifySMTP lookup prefix_file parsers args fl prefix_path maxLifetime =
     (if args \<noteq> [] \<or> xf_events fl = [] \<or> xf_postfix fl = [] \<or> xf_instance fl = [] \<or> xf_listener fl = [] then Inl FlagsRequired
      else if xf_format fl \<noteq> ''text'' \<and> xf_format fl \<noteq> ''json'' then Inl (InvalidFormat (xf_format fl))
      else (case parseSMTPSourceExclusion (xf_exclude fl) of
          Inl e \<Rightarrow> Inl (InvalidExclusion e)
        | Inr exclude \<Rightarrow>
            (case runSMTPCampaignClassificationExcluding
                (parsers\<lparr>cm_events := lookup (xf_events fl), cm_postfix := lookup (xf_postfix fl),
                  cm_prefixes := (if prefix_path = [] then NoPrefixFile else prefix_file prefix_path)\<rparr>)
                (xf_instance fl) (xf_listener fl) maxLifetime (xf_tolerance fl) exclude of
               Inl e \<Rightarrow> Inl (ClassificationFailed e)
             | Inr (report, excluded) \<Rightarrow> Inr (report, printed_exclusion exclude excluded))))"

section \<open>Reporting\<close>

record report_flags =
  rf_config :: string
  rf_report :: string
  rf_campaign :: string
  rf_smtp_instance :: string
  rf_listener :: string
  rf_start :: string
  rf_end :: string
  rf_generated :: string

text \<open>The network and the configured endpoint of one upload.\<close>

record upload_env =
  up_url :: "string option"
  up_client_ok :: bool
  up_answer :: "nat \<Rightarrow> http_result"
  up_fires :: "nat \<Rightarrow> bool"

definition cmdReportSMTP ::
  "(string \<Rightarrow> parsed_url option) \<Rightarrow> (string \<Rightarrow> startup_config option) \<Rightarrow> config_file \<Rightarrow> (startup_config \<Rightarrow> report_env) \<Rightarrow>
     (string \<Rightarrow> batch_file option) \<Rightarrow> upload_env \<Rightarrow> string list \<Rightarrow> report_flags \<Rightarrow> smtp_command_error + report_envelope" where
  "cmdReportSMTP parse_url decode config env lookup up args fl =
     (if args \<noteq> [] \<or> rf_report fl = [] \<or> rf_smtp_instance fl = [] \<or> rf_listener fl = [] \<or> rf_start fl = [] \<or> rf_end fl = [] \<or>
         rf_generated fl = [] then Inl FlagsRequired
      else (case loadConfig parse_url decode (rf_config fl) config of
          Inl e \<Rightarrow> Inl (ReportConfig e)
        | Inr cfg \<Rightarrow>
            if \<not> st_cp_enabled cfg then Inl ControlPlaneDisabled
            else (case readSMTPReport (env cfg) (lookup (rf_report fl))
                (if rf_campaign fl = [] then None else Some (lookup (rf_campaign fl)))
                (rf_smtp_instance fl) (rf_listener fl) (rf_start fl) (rf_end fl) (rf_generated fl) of
                Inl e \<Rightarrow> Inl (ReportFailed e)
              | Inr report \<Rightarrow>
                  (case uploadSMTPReport (rv_config_ok (env cfg)) (rv_body (env cfg)) (up_url up) (up_client_ok up) (up_answer up)
                      (up_fires up) report of
                     Inl e \<Rightarrow> Inl (UploadRefused e)
                   | Inr (path, attempts, ended, waited) \<Rightarrow> if ended = UploadOk then Inr report else Inl (UploadEnded ended)))))"

section \<open>The commands fit together\<close>

text \<open>
  The report that \<open>classify-smtp\<close> returns is accepted by \<open>report-smtp\<close> for the same instance and
  listener exactly if its records fit, if its file is one JSON value within the limit that decodes
  to it and can be closed.
\<close>

lemma report_takes_classified:
  assumes "cmdClassifySMTP lookup prefix_file parsers args fl prefix_path maxLifetime = Inr (g, excluded)"
    and "read_report_file (rv_campaign env) f = Inr g" and "file_closes f"
    and "\<And>rs. mset (cm_sort parsers rs) = mset rs" and "\<And>ns. set (cm_order parsers ns) \<subseteq> set ns"
  shows "readSMTPCampaignReport (rv_campaign env) f (xf_instance fl) (xf_listener fl) = Inr g \<longleftrightarrow> (\<forall>r \<in> set (cg_Records g). fits_report r)"
proof -
  let ?env = "parsers\<lparr>cm_events := lookup (xf_events fl), cm_postfix := lookup (xf_postfix fl),
    cm_prefixes := (if prefix_path = [] then NoPrefixFile else prefix_file prefix_path)\<rparr>"
  from assms(1) obtain exclude xc xe where
    run: "runSMTPCampaignClassificationExcluding ?env (xf_instance fl) (xf_listener fl) maxLifetime (xf_tolerance fl) exclude = Inr (g, xc, xe)"
    by (auto simp: cmdClassifySMTP_def split: if_splits sum.splits)
  have "validateSMTPCampaignReport g (xf_instance fl) (xf_listener fl) = Inr () \<longleftrightarrow> (\<forall>r \<in> set (cg_Records g). fits_report r)"
    using assms(4,5) by (intro campaign_report_checked [OF run]) simp_all
  then show ?thesis using assms(2,3) by (auto simp: readSMTPCampaignReport_def split: sum.split)
qed

end
