(* ===== verification/Gate.thy ===== *)
theory Gate
  imports Record_Reassembly Proxy_Protocol Source_Sets Store_Meta
begin

text \<open>
  The TLS gate: \<open>handleConnWithScope\<close> of \<open>proxy.go\<close>, from the accepted connection to the point
  where the two byte pumps take over. The fingerprint store, the rate limiter and approval
  scopes are the gatekit library's and are arguments (\<open>gate_env\<close>); the client, the sockets'
  failures and the backend are inputs (\<open>gate_conn\<close>). The definitions follow the handler:
  the guards before the first read, the handshake branch with its decision by stored
  status, the non-TLS branch, and the hand-over to the backend.
\<close>

section \<open>The gate's surroundings\<close>

text \<open>\<open>store.Status\<close>; the handler has no default case, so other strings matter.\<close>

datatype status = StatusPending | StatusApproved | StatusBlocked | OtherStatus string

record 'sc entry =
  entry_status :: status
  ApprovalRanges :: "'sc option"

record observation =
  obs_fingerprint :: string
  obs_ip :: string
  obs_port :: int
  obs_meta :: meta_bag

text \<open>
  The libraries: \<open>store.Observe\<close>, \<open>Scope.Allows\<close> (on the zero address when the client address
  does not parse) and the connection limiter, which may be absent. \<open>limiter_observes\<close> says
  whether the limiter also counts backend failures.
\<close>

record ('st, 'l, 'sc) gate_env =
  Observe :: "'st \<Rightarrow> observation \<Rightarrow> bool \<Rightarrow> (string + 'sc entry) \<times> 'st"
  scope_Allows :: "'sc \<Rightarrow> addr option \<Rightarrow> bool"
  limiter_Allow :: "('l \<Rightarrow> string \<Rightarrow> bool \<times> 'l) option"
  limiter_observes :: bool

text \<open>The per-route settings the handler is called with.\<close>

record gate_config =
  cfg_port :: int
  cfg_blockUnknown :: bool
  cfg_method :: fingerprint_method
  cfg_allow :: ip_allowlist
  cfg_sendProxyV2 :: bool
  cfg_scopeShadow :: bool

text \<open>
  One client connection and what happens to the sockets: the remote address as text, the two
  TCP addresses, the bytes that arrive, and whether each socket call succeeds.
\<close>

record gate_conn =
  remote_addr :: string
  source_addr :: net_addr
  local_addr :: net_addr
  arriving :: conn_in
  set_deadline_ok :: bool
  clear_deadline_ok :: bool
  dial_ok :: bool
  write_header_ok :: bool
  write_peeked_ok :: bool

text \<open>
  What the handler does besides forwarding: a decision logged for a fingerprint (with the
  tag of the log line), an alert raised for a blocked fingerprint, a backend failure counted.
\<close>

datatype gate_event =
    Decided string string bool
  | AlertRaised string int string tls_metadata
  | BackendFailure

record ('st, 'l) gate_state =
  gate_store :: 'st
  gate_limiter :: 'l
  gate_events :: "gate_event list"

datatype drop_reason =
    RateLimited
  | DeadlineError
  | NoRecordHeader
  | UnparseableHello
  | StoreFailed
  | FingerprintBlocked
  | FingerprintPending
  | OutOfScope
  | NotTLS
  | ClearDeadlineError
  | DialFailed
  | ProxyHeaderFailed proxy_error
  | ProxyWriteFailed
  | PeekedWriteFailed

text \<open>
  The end of the handler: the connection is dropped, or the given bytes went to the backend
  and the pumps take over what is left of the client's stream.
\<close>

datatype outcome = Dropped drop_reason | Forwarded "u8 list" conn_in

section \<open>The decision for a parsed ClientHello\<close>

text \<open>
  The \<open>switch entry.Status\<close>: the log tag and the reason to drop the connection, if any, and
  whether a blocked-range alert is raised. A status outside the three does neither.
\<close>

definition decide ::
  "('st, 'l, 'sc) gate_env \<Rightarrow> bool \<Rightarrow> bool \<Rightarrow> bool \<Rightarrow> string \<Rightarrow> 'sc entry \<Rightarrow>
     (string \<times> bool) option \<times> drop_reason option \<times> bool" where
  "decide env whitelisted blockThis scopeShadow clientIP entry =
     (case entry_status entry of
        StatusBlocked \<Rightarrow>
          (if whitelisted then (Some (''WHITELIST forwarding blocked'', whitelisted), None, False)
           else (Some (''BLOCKED '', whitelisted), Some FingerprintBlocked, True))
      | StatusPending \<Rightarrow>
          (if blockThis then (Some (''BLOCKED pending'', whitelisted), Some FingerprintPending, True)
           else (Some (if whitelisted then ''WHITELIST'' else ''PENDING '', whitelisted), None, False))
      | StatusApproved \<Rightarrow>
          (if whitelisted then (Some (''WHITELIST'', whitelisted), None, False)
           else (case ApprovalRanges entry of
               None \<Rightarrow> (Some (''APPROVED'', whitelisted), None, False)
             | Some scope \<Rightarrow>
                 (if \<not> scope_Allows env scope (ParseAddr clientIP) then
                    (if \<not> scopeShadow then (Some (''BLOCKED out_of_scope'', False), Some OutOfScope, False)
                     else (Some (''APPROVED would_block_out_of_scope shadow=true'', whitelisted), None, False))
                  else (Some (''APPROVED'', whitelisted), None, False))))
      | OtherStatus _ \<Rightarrow> (None, None, False))"

definition log_event :: "gate_event list \<Rightarrow> ('st, 'l) gate_state \<Rightarrow> ('st, 'l) gate_state" where
  "log_event es st = st\<lparr>gate_events := gate_events st @ es\<rparr>"

text \<open>
  The branch for a complete ClientHello record: parse, observe, decide. \<open>None\<close> means go on.
\<close>

definition gate_hello ::
  "('st, 'l, 'sc) gate_env \<Rightarrow> gate_config \<Rightarrow> string \<Rightarrow> bool \<Rightarrow> bool \<Rightarrow> u8 list \<Rightarrow>
     ('st, 'l) gate_state \<Rightarrow> drop_reason option \<times> ('st, 'l) gate_state" where
  "gate_hello env cfg clientIP whitelisted blockThis parseBuf st =
     (case extractTLSMetadata parseBuf (cfg_method cfg) of
        Inl _ \<Rightarrow> (if blockThis then Some UnparseableHello else None, st)
      | Inr (fp, meta) \<Rightarrow>
          (case Observe env (gate_store st)
              \<lparr>obs_fingerprint = fp, obs_ip = clientIP, obs_port = cfg_port cfg, obs_meta = toMeta meta\<rparr>
              blockThis of
             (Inl _, s) \<Rightarrow> (Some StoreFailed, st\<lparr>gate_store := s\<rparr>)
           | (Inr entry, s) \<Rightarrow>
               (case decide env whitelisted blockThis (cfg_scopeShadow cfg) clientIP entry of
                  (tag, verdict, alert) \<Rightarrow>
                    (verdict, log_event
                       ((case tag of None \<Rightarrow> [] | Some (t, trusted) \<Rightarrow> [Decided t fp trusted]) @
                        (if alert then [AlertRaised clientIP (cfg_port cfg) fp meta] else []))
                       (st\<lparr>gate_store := s\<rparr>)))))"

text \<open>
  The handshake: \<open>peeked\<close> and what is left of the stream, with the reason to drop, if any.
\<close>

definition gate_handshake ::
  "('st, 'l, 'sc) gate_env \<Rightarrow> gate_config \<Rightarrow> string \<Rightarrow> bool \<Rightarrow> bool \<Rightarrow> u8 list \<Rightarrow> conn_in \<Rightarrow>
     ('st, 'l) gate_state \<Rightarrow> (drop_reason + (u8 list \<times> conn_in)) \<times> ('st, 'l) gate_state" where
  "gate_handshake env cfg clientIP whitelisted blockThis header c st =
     (if hd header = recordTypeHandshake then
        (case readClientHello c header of
           (Inl _, raw, c) \<Rightarrow> (if blockThis then Inl UnparseableHello else Inr (raw, c), st)
         | (Inr parseBuf, raw, c) \<Rightarrow>
             (case gate_hello env cfg clientIP whitelisted blockThis parseBuf st of
                (Some r, st) \<Rightarrow> (Inl r, st)
              | (None, st) \<Rightarrow> (Inr (raw, c), st)))
      else if blockThis then (Inl NotTLS, st)
      else (Inr (header, c), st))"

text \<open>Dialling the backend and writing the PROXY header and the bytes read so far.\<close>

definition gate_forward ::
  "('st, 'l, 'sc) gate_env \<Rightarrow> gate_config \<Rightarrow> gate_conn \<Rightarrow> u8 list \<Rightarrow> conn_in \<Rightarrow>
     ('st, 'l) gate_state \<Rightarrow> outcome \<times> ('st, 'l) gate_state" where
  "gate_forward env cfg gc peeked c st =
     (if \<not> clear_deadline_ok gc then (Dropped ClearDeadlineError, st)
      else if \<not> dial_ok gc then
        (Dropped DialFailed, if limiter_observes env then log_event [BackendFailure] st else st)
      else
        (case (if cfg_sendProxyV2 cfg then proxyV2Header (source_addr gc) (local_addr gc) else Inr []) of
           Inl e \<Rightarrow> (Dropped (ProxyHeaderFailed e), st)
         | Inr header \<Rightarrow>
             (if cfg_sendProxyV2 cfg \<and> \<not> write_header_ok gc then (Dropped ProxyWriteFailed, st)
              else if \<not> write_peeked_ok gc then (Dropped PeekedWriteFailed, st)
              else (Forwarded (header @ peeked) c, st))))"

text \<open>\<open>clientIP\<close>: the host part of the remote address, empty when it does not split.\<close>

definition client_ip :: "gate_conn \<Rightarrow> string" where
  "client_ip gc = (case SplitHostPort (remote_addr gc) of None \<Rightarrow> [] | Some (host, _) \<Rightarrow> host)"

definition limiter_check ::
  "('st, 'l, 'sc) gate_env \<Rightarrow> string \<Rightarrow> ('st, 'l) gate_state \<Rightarrow> bool \<times> ('st, 'l) gate_state" where
  "limiter_check env ip st =
     (case limiter_Allow env of
        None \<Rightarrow> (True, st)
      | Some f \<Rightarrow> (case f (gate_limiter st) ip of (ok, l) \<Rightarrow> (ok, st\<lparr>gate_limiter := l\<rparr>)))"

definition handleConnWithScope ::
  "('st, 'l, 'sc) gate_env \<Rightarrow> gate_config \<Rightarrow> gate_conn \<Rightarrow> ('st, 'l) gate_state \<Rightarrow>
     outcome \<times> ('st, 'l) gate_state" where
  "handleConnWithScope env cfg gc st =
     (let clientIP = client_ip gc;
          whitelisted = allow_contains (cfg_allow cfg) clientIP;
          blockThis = (cfg_blockUnknown cfg \<and> \<not> whitelisted)
      in case limiter_check env clientIP st of (allowed, st) \<Rightarrow>
        if \<not> allowed then (Dropped RateLimited, st)
        else if \<not> set_deadline_ok gc then (Dropped DeadlineError, st)
        else (case read_full 5 (arriving gc) of
            (None, _) \<Rightarrow> (Dropped NoRecordHeader, st)
          | (Some header, c) \<Rightarrow>
              (case gate_handshake env cfg clientIP whitelisted blockThis header c st of
                 (Inl r, st) \<Rightarrow> (Dropped r, st)
               | (Inr (peeked, c), st) \<Rightarrow> gate_forward env cfg gc peeked c st)))"

text \<open>\<open>handleConn\<close> is the handler without scope shadowing.\<close>

definition handleConn ::
  "('st, 'l, 'sc) gate_env \<Rightarrow> gate_config \<Rightarrow> gate_conn \<Rightarrow> ('st, 'l) gate_state \<Rightarrow>
     outcome \<times> ('st, 'l) gate_state" where
  "handleConn env cfg = handleConnWithScope env (cfg\<lparr>cfg_scopeShadow := False\<rparr>)"

section \<open>Who gets through\<close>

definition gate_observation :: "gate_config \<Rightarrow> string \<Rightarrow> string \<Rightarrow> tls_metadata \<Rightarrow> observation" where
  "gate_observation cfg ip fp meta =
     \<lparr>obs_fingerprint = fp, obs_ip = ip, obs_port = cfg_port cfg, obs_meta = toMeta meta\<rparr>"

definition scope_admits :: "('st, 'l, 'sc) gate_env \<Rightarrow> bool \<Rightarrow> string \<Rightarrow> 'sc entry \<Rightarrow> bool" where
  "scope_admits env shadow ip entry \<longleftrightarrow>
     (case ApprovalRanges entry of None \<Rightarrow> True
      | Some sc \<Rightarrow> scope_Allows env sc (ParseAddr ip) \<or> shadow)"

lemma decide_strict:
  "fst (snd (decide env False True shadow ip entry)) = None \<longleftrightarrow>
     (\<exists>s. entry_status entry = OtherStatus s) \<or>
     (entry_status entry = StatusApproved \<and> scope_admits env shadow ip entry)"
  by (auto simp: decide_def scope_admits_def split: status.split option.split)

lemma decide_whitelisted: "fst (snd (decide env True blockThis shadow ip entry)) = None \<longleftrightarrow>
    \<not> (entry_status entry = StatusPending \<and> blockThis)"
  by (auto simp: decide_def split: status.split)

lemma decide_alert:
  "snd (snd (decide env w b sh ip entry)) \<longleftrightarrow>
     fst (snd (decide env w b sh ip entry)) \<in> {Some FingerprintBlocked, Some FingerprintPending}"
  by (auto simp: decide_def split: status.split option.split)

lemma log_event_store [simp]:
  "gate_store (log_event es st) = gate_store st" "gate_limiter (log_event es st) = gate_limiter st"
  "gate_events (log_event es st) = gate_events st @ es"
  by (simp_all add: log_event_def)

lemma limiter_check_store: "limiter_check env ip st = (ok, st') \<Longrightarrow> gate_store st' = gate_store st \<and> gate_events st' = gate_events st"
  by (auto simp: limiter_check_def split: option.splits prod.splits)

text \<open>The cases of the hello branch.\<close>

lemma gate_hello_cases:
  assumes "gate_hello env cfg ip w b buf st = (verdict, st')"
  obtains (unparsed) e where "extractTLSMetadata buf (cfg_method cfg) = Inl e" "st' = st"
      "verdict = (if b then Some UnparseableHello else None)"
  | (failed) fp meta e s where "extractTLSMetadata buf (cfg_method cfg) = Inr (fp, meta)"
      "Observe env (gate_store st) (gate_observation cfg ip fp meta) b = (Inl e, s)"
      "verdict = Some StoreFailed" "st' = st\<lparr>gate_store := s\<rparr>"
  | (decided) fp meta entry s where "extractTLSMetadata buf (cfg_method cfg) = Inr (fp, meta)"
      "Observe env (gate_store st) (gate_observation cfg ip fp meta) b = (Inr entry, s)"
      "verdict = fst (snd (decide env w b (cfg_scopeShadow cfg) ip entry))"
      "gate_store st' = s"
      "\<exists>ds. gate_events st' = gate_events st @ ds @
         (if snd (snd (decide env w b (cfg_scopeShadow cfg) ip entry))
          then [AlertRaised ip (cfg_port cfg) fp meta] else []) \<and> length ds \<le> 1 \<and>
         (\<forall>d \<in> set ds. \<exists>t tr. d = Decided t fp tr)"
      "\<And>t tr. fst (decide env w b (cfg_scopeShadow cfg) ip entry) = Some (t, tr) \<Longrightarrow> Decided t fp tr \<in> set (gate_events st')"
proof (cases "extractTLSMetadata buf (cfg_method cfg)")
  case (Inl e)
  then show thesis using assms by (intro unparsed) (auto simp: gate_hello_def)
next
  case (Inr x)
  then obtain fp meta where x: "extractTLSMetadata buf (cfg_method cfg) = Inr (fp, meta)" by (cases x) auto
  obtain r s where o: "Observe env (gate_store st) (gate_observation cfg ip fp meta) b = (r, s)" by fastforce
  show thesis
  proof (cases r)
    case (Inl e)
    then show thesis using assms x o by (intro failed) (auto simp: gate_hello_def gate_observation_def)
  next
    case (Inr entry)
    obtain tag v alert where d: "decide env w b (cfg_scopeShadow cfg) ip entry = (tag, v, alert)"
      by (metis prod_cases3)
    show thesis
    proof (rule decided [OF x])
      show "Observe env (gate_store st) (gate_observation cfg ip fp meta) b = (Inr entry, s)"
        using o Inr by simp
      show "verdict = fst (snd (decide env w b (cfg_scopeShadow cfg) ip entry))" "gate_store st' = s"
        using assms x o Inr d by (auto simp: gate_hello_def gate_observation_def)
      have ev: "gate_events st' = gate_events st @ (case tag of None \<Rightarrow> [] | Some (t, trusted) \<Rightarrow> [Decided t fp trusted]) @
          (if alert then [AlertRaised ip (cfg_port cfg) fp meta] else [])"
        using assms x o Inr d by (auto simp: gate_hello_def gate_observation_def)
      then show "\<exists>ds. gate_events st' = gate_events st @ ds @
         (if snd (snd (decide env w b (cfg_scopeShadow cfg) ip entry))
          then [AlertRaised ip (cfg_port cfg) fp meta] else []) \<and> length ds \<le> 1 \<and>
         (\<forall>d \<in> set ds. \<exists>t tr. d = Decided t fp tr)"
        unfolding d by (intro exI [of _ "case tag of None \<Rightarrow> [] | Some (t, trusted) \<Rightarrow> [Decided t fp trusted]"])
          (auto split: option.split)
      show "Decided t fp tr \<in> set (gate_events st')" if "fst (decide env w b (cfg_scopeShadow cfg) ip entry) = Some (t, tr)" for t tr
        using that unfolding ev d by simp
    qed
  qed
qed

text \<open>A forwarded connection passed every stage.\<close>

lemma forwarded_stages:
  assumes "handleConnWithScope env cfg gc st = (Forwarded bytes rest, st')"
  obtains st1 header c peeked st2 hdr where
    "limiter_check env (client_ip gc) st = (True, st1)" "set_deadline_ok gc"
    "read_full 5 (arriving gc) = (Some header, c)"
    "gate_handshake env cfg (client_ip gc) (allow_contains (cfg_allow cfg) (client_ip gc))
       (cfg_blockUnknown cfg \<and> \<not> allow_contains (cfg_allow cfg) (client_ip gc)) header c st1 =
       (Inr (peeked, rest), st2)"
    "clear_deadline_ok gc" "dial_ok gc" "write_peeked_ok gc"
    "if cfg_sendProxyV2 cfg then proxyV2Header (source_addr gc) (local_addr gc) = Inr hdr else hdr = []"
    "bytes = hdr @ peeked" "st' = st2"
  using assms
  by (auto simp: handleConnWithScope_def gate_forward_def Let_def split: prod.splits option.splits sum.splits if_splits)

text \<open>
  What a strict route lets through: the entry is approved, and if the source is out of its scope
  then only in shadow mode, which logs that; a status that is none of the three has no case.
\<close>

definition passes_strict ::
  "('sc \<Rightarrow> addr option \<Rightarrow> bool) \<Rightarrow> bool \<Rightarrow> string \<Rightarrow> string \<Rightarrow> gate_event list \<Rightarrow> 'sc entry \<Rightarrow> bool" where
  "passes_strict allows shadow ip fp es entry \<longleftrightarrow>
     (\<exists>s. entry_status entry = OtherStatus s) \<or>
     entry_status entry = StatusApproved \<and>
       (case ApprovalRanges entry of
          None \<Rightarrow> True
        | Some sc \<Rightarrow> allows sc (ParseAddr ip) \<or>
            (shadow \<and> Decided ''APPROVED would_block_out_of_scope shadow=true'' fp False \<in> set es))"

lemma decide_passes:
  assumes "fst (snd (decide env False True shadow ip entry)) = None"
    and "\<And>t tr. fst (decide env False True shadow ip entry) = Some (t, tr) \<Longrightarrow> Decided t fp tr \<in> set es"
  shows "passes_strict (scope_Allows env) shadow ip fp es entry"
  using assms by (auto simp: decide_def passes_strict_def split: status.splits option.splits if_splits)

lemma strict_forward:
  assumes "handleConnWithScope env cfg gc st = (Forwarded bytes rest, st')"
    and "cfg_blockUnknown cfg" and "\<not> allow_contains (cfg_allow cfg) (client_ip gc)"
  shows "\<exists>header c parseBuf raw fp meta entry.
    read_full 5 (arriving gc) = (Some header, c) \<and>
    readClientHello c header = (Inr parseBuf, raw, rest) \<and>
    extractTLSMetadata parseBuf (cfg_method cfg) = Inr (fp, meta) \<and>
    Observe env (gate_store st) (gate_observation cfg (client_ip gc) fp meta) True = (Inr entry, gate_store st') \<and>
    passes_strict (scope_Allows env) (cfg_scopeShadow cfg) (client_ip gc) fp (gate_events st') entry"
proof -
  obtain st1 header c peeked where run:
    "limiter_check env (client_ip gc) st = (True, st1)" "read_full 5 (arriving gc) = (Some header, c)"
    "gate_handshake env cfg (client_ip gc) False True header c st1 = (Inr (peeked, rest), st')"
    using forwarded_stages [OF assms(1)] assms(2,3) by simp metis
  then obtain parseBuf where hs: "readClientHello c header = (Inr parseBuf, peeked, rest)"
    "gate_hello env cfg (client_ip gc) False True parseBuf st1 = (None, st')"
    by (auto simp: gate_handshake_def split: if_splits prod.splits sum.splits option.splits)
  note same = limiter_check_store [OF run(1), THEN conjunct1]
  from hs(2) show ?thesis
  proof (cases rule: gate_hello_cases)
    case (decided fp meta entry s)
    have "passes_strict (scope_Allows env) (cfg_scopeShadow cfg) (client_ip gc) fp (gate_events st') entry"
      by (rule decide_passes) (use decided(3,6) in simp_all)
    then show ?thesis using run(2) hs(1) same decided(1,2,4) by metis
  qed simp_all
qed

text \<open>
  C1: the gate fails closed. On a route that blocks unknown clients, a connection from a
  source outside the allowlist reaches the backend only if a complete ClientHello was read
  from it and parsed, the store answered for exactly that fingerprint, source and port, and
  the answer was "approved", without ranges or with ranges that hold the source; out of its
  ranges a source passes only if the process is configured to shadow its scopes, and then the
  log says that it would have been blocked. The one other way is an answer that is none of the
  store's three statuses, for which the handler has no case. Every error, refusal or malformed
  byte on the way ends the connection instead.
\<close>

theorem gate_fails_closed:
  assumes "handleConnWithScope env cfg gc st = (Forwarded bytes rest, st')"
    and "cfg_blockUnknown cfg" and "\<not> allow_contains (cfg_allow cfg) (client_ip gc)"
  shows "\<exists>header c parseBuf raw fp meta entry.
    read_full 5 (arriving gc) = (Some header, c) \<and>
    readClientHello c header = (Inr parseBuf, raw, rest) \<and>
    extractTLSMetadata parseBuf (cfg_method cfg) = Inr (fp, meta) \<and>
    Observe env (gate_store st) (gate_observation cfg (client_ip gc) fp meta) True = (Inr entry, gate_store st') \<and>
    ((\<exists>s. entry_status entry = OtherStatus s) \<or>
     entry_status entry = StatusApproved \<and>
       (case ApprovalRanges entry of
          None \<Rightarrow> True
        | Some sc \<Rightarrow> scope_Allows env sc (ParseAddr (client_ip gc)) \<or>
            (cfg_scopeShadow cfg \<and> Decided ''APPROVED would_block_out_of_scope shadow=true'' fp False \<in> set (gate_events st'))))"
  using strict_forward [OF assms] unfolding passes_strict_def .

text \<open>
  A store is expected to answer with one of its three statuses. The handler's \<open>switch\<close> relies on
  that: without a default case, an entry with another status passes a strict route.
\<close>

lemma unknown_status_passes: "decide env False True shadow ip entry = (None, None, False)" if "entry_status entry = OtherStatus s"
  using that by (simp add: decide_def)

text \<open>
  An example: a store that approves everything and remembers the fingerprints it was asked
  about, no rate limit, an allowlist of one network.
\<close>

definition sample_env :: "(string list, unit, unit) gate_env" where
  "sample_env =
     \<lparr>Observe = \<lambda>st obs b. (Inr \<lparr>entry_status = StatusApproved, ApprovalRanges = None\<rparr>, obs_fingerprint obs # st),
      scope_Allows = \<lambda>_ _. False, limiter_Allow = None, limiter_observes = False\<rparr>"

definition sample_config :: gate_config where
  "sample_config =
     \<lparr>cfg_port = 993, cfg_blockUnknown = True, cfg_method = ''ja4'',
      cfg_allow = \<lparr>static_nets = [Prefix4 0x0a000000 8], dynamic_nets = [], dynamicInitialized = False\<rparr>,
      cfg_sendProxyV2 = False, cfg_scopeShadow = False\<rparr>"

definition sample_conn :: "string \<Rightarrow> u8 list \<Rightarrow> gate_conn" where
  "sample_conn remote bytes =
     \<lparr>remote_addr = remote, source_addr = OtherAddr, local_addr = OtherAddr,
      arriving = \<lparr>ready = bytes, later = [99]\<rparr>, set_deadline_ok = True, clear_deadline_ok = True,
      dial_ok = True, write_header_ok = True, write_peeked_ok = True\<rparr>"

definition sample_state :: "(string list, unit) gate_state" where
  "sample_state = \<lparr>gate_store = [], gate_limiter = (), gate_events = []\<rparr>"

lemma sample_ips:
  "client_ip (sample_conn ''192.0.2.1:47'' bs) = ''192.0.2.1''"
  "client_ip (sample_conn ''10.1.2.3:47'' bs) = ''10.1.2.3''"
  "allow_contains (cfg_allow sample_config) ''192.0.2.1'' = False"
  "allow_contains (cfg_allow sample_config) ''10.1.2.3'' = True"
proof -
  have "ParseAddr ''192.0.2.1'' = Some (Addr4 0xc0000201)" "ParseAddr ''10.1.2.3'' = Some (Addr4 0x0a010203)"
    by (simp_all add: addr_parse_simps)
  then show "allow_contains (cfg_allow sample_config) ''192.0.2.1'' = False"
    "allow_contains (cfg_allow sample_config) ''10.1.2.3'' = True"
    by (simp_all add: sample_config_def allow_contains_def allow_addr_def any_contains_def)
qed (simp_all add: client_ip_def sample_conn_def SplitHostPort_def cut_last_def)

lemma sample_read:
  "read_full 5 \<lparr>ready = small_bytes @ [7], later = [99]\<rparr> =
     (Some (take 5 small_bytes), \<lparr>ready = drop 5 small_bytes @ [7], later = [99]\<rparr>)"
  "readClientHello \<lparr>ready = drop 5 small_bytes @ [7], later = [99]\<rparr> (take 5 small_bytes) =
     (Inr small_bytes, small_bytes, \<lparr>ready = [7], later = [99]\<rparr>)"
  "hd (take 5 small_bytes) = recordTypeHandshake"
  by (simp_all add: reader_simps small_bytes_def)

lemma sample_fields [simp]:
  "limiter_Allow sample_env = None" "limiter_observes sample_env = False"
  "cfg_sendProxyV2 sample_config = False" "cfg_blockUnknown sample_config = True"
  "cfg_method sample_config = ''ja4''" "cfg_scopeShadow sample_config = False"
  "arriving (sample_conn r bs) = \<lparr>ready = bs, later = [99]\<rparr>"
  "set_deadline_ok (sample_conn r bs)" "clear_deadline_ok (sample_conn r bs)" "dial_ok (sample_conn r bs)"
  "write_peeked_ok (sample_conn r bs)" "write_header_ok (sample_conn r bs)"
  by (simp_all add: sample_env_def sample_config_def sample_conn_def)

lemma sample_run:
  "\<exists>st'. handleConnWithScope sample_env sample_config (sample_conn ''192.0.2.1:47'' (small_bytes @ [7])) sample_state =
     (Forwarded small_bytes \<lparr>ready = [7], later = [99]\<rparr>, st')"
proof -
  obtain fp meta where x: "extractTLSMetadata small_bytes ''ja4'' = Inr (fp, meta)"
    by (cases "extractTLSMetadata small_bytes ''ja4''") (auto simp: extractTLSMetadata_def small_parse Let_def case_prod_beta split: if_splits)
  have "fst (gate_hello sample_env sample_config ip False True small_bytes st) = None" for ip st
    using x by (auto simp: gate_hello_def sample_env_def sample_config_def decide_def split: prod.splits)
  then obtain st' where "gate_hello sample_env sample_config ''192.0.2.1'' False True small_bytes sample_state = (None, st')"
    by (metis prod.collapse)
  then show ?thesis
    by (simp add: handleConnWithScope_def sample_ips limiter_check_def gate_handshake_def gate_forward_def
        sample_read)
qed

lemma gate_fails_closed_witness:
  "\<exists>fp meta st'. extractTLSMetadata small_bytes ''ja4'' = Inr (fp, meta) \<and>
     handleConnWithScope sample_env sample_config (sample_conn ''192.0.2.1:47'' (small_bytes @ [7])) sample_state =
       (Forwarded small_bytes \<lparr>ready = [7], later = [99]\<rparr>, st') \<and> gate_store st' = [fp]"
proof -
  obtain st' where run: "handleConnWithScope sample_env sample_config (sample_conn ''192.0.2.1:47'' (small_bytes @ [7]))
      sample_state = (Forwarded small_bytes \<lparr>ready = [7], later = [99]\<rparr>, st')"
    using sample_run by blast
  from gate_fails_closed [OF this] sample_ips obtain parseBuf raw fp meta entry where
    "readClientHello \<lparr>ready = drop 5 small_bytes @ [7], later = [99]\<rparr> (take 5 small_bytes) =
       (Inr parseBuf, raw, \<lparr>ready = [7], later = [99]\<rparr>)"
    "extractTLSMetadata parseBuf ''ja4'' = Inr (fp, meta)"
    "Observe sample_env [] (gate_observation sample_config ''192.0.2.1'' fp meta) True = (Inr entry, gate_store st')"
    by (auto simp: sample_read sample_state_def)
  with run show ?thesis
    by (auto simp: sample_read sample_env_def gate_observation_def)
qed

section \<open>What the backend and the store see\<close>

lemma read_full_unread: "read_full n c = (Some b, c') \<Longrightarrow> b @ unread c' = unread c \<and> length b = n"
  by (auto simp: read_full_Some unread_def)

lemma gate_handshake_bytes:
  assumes "gate_handshake env cfg ip w b header c st = (Inr (peeked, rest), st')" "length header = 5"
  shows "\<exists>lost. peeked @ lost @ unread rest = header @ unread c \<and>
    (lost \<noteq> [] \<longrightarrow> \<not> b \<and> fst (readClientHello c header) = fail ShortRead)"
proof (cases "hd header = recordTypeHandshake")
  case True
  obtain res raw c' where r: "readClientHello c header = (res, raw, c')" by (metis prod_cases3)
  then have "peeked = raw \<and> rest = c' \<and> (b \<longrightarrow> (\<exists>buf. res = Inr buf))"
    using assms(1) True by (auto simp: gate_handshake_def split: if_splits sum.splits prod.splits option.splits)
  moreover obtain lost where "raw @ lost @ unread c' = header @ unread c" "lost \<noteq> [] \<longrightarrow> res = fail ShortRead"
    using readClientHello_sound [OF assms(2), of c] r by (auto simp: reading_sound_def)
  ultimately show ?thesis using r by (intro exI [of _ lost]) (auto simp: fail_def)
next
  case False
  then show ?thesis using assms(1) by (auto simp: gate_handshake_def split: if_splits intro: exI [of _ "[]"])
qed

text \<open>
  C6: the proxy is transparent. What a forwarded connection's backend receives is the PROXY
  header, if one is configured, then the bytes read so far, and what the pumps carry on with
  is the rest: together exactly the client's stream, in order. Only a connection that is
  not to be blocked can miss bytes, and only when its ClientHello broke off in a short read.
\<close>

theorem gate_forwards_verbatim:
  assumes "handleConnWithScope env cfg gc st = (Forwarded bytes rest, st')"
  shows "\<exists>hdr peeked lost. bytes = hdr @ peeked \<and>
    peeked @ lost @ unread rest = unread (arriving gc) \<and>
    (if cfg_sendProxyV2 cfg then proxyV2Header (source_addr gc) (local_addr gc) = Inr hdr else hdr = []) \<and>
    (lost \<noteq> [] \<longrightarrow>
       \<not> (cfg_blockUnknown cfg \<and> \<not> allow_contains (cfg_allow cfg) (client_ip gc)) \<and>
       (\<exists>header c. read_full 5 (arriving gc) = (Some header, c) \<and>
          fst (readClientHello c header) = fail ShortRead))"
  using assms
proof (rule forwarded_stages)
  fix st1 header c peeked st2 hdr
  assume run: "read_full 5 (arriving gc) = (Some header, c)"
    "gate_handshake env cfg (client_ip gc) (allow_contains (cfg_allow cfg) (client_ip gc))
       (cfg_blockUnknown cfg \<and> \<not> allow_contains (cfg_allow cfg) (client_ip gc)) header c st1 =
       (Inr (peeked, rest), st2)"
    "if cfg_sendProxyV2 cfg then proxyV2Header (source_addr gc) (local_addr gc) = Inr hdr else hdr = []"
    "bytes = hdr @ peeked"
  note hdr = read_full_unread [OF run(1)]
  from gate_handshake_bytes [OF run(2) hdr [THEN conjunct2]] obtain lost where
    "peeked @ lost @ unread rest = header @ unread c"
    "lost \<noteq> [] \<longrightarrow> \<not> (cfg_blockUnknown cfg \<and> \<not> allow_contains (cfg_allow cfg) (client_ip gc)) \<and>
       fst (readClientHello c header) = fail ShortRead"
    by blast
  with run hdr show ?thesis by metis
qed

lemma gate_forwards_verbatim_witness:
  "\<exists>st'. handleConnWithScope sample_env sample_config (sample_conn ''192.0.2.1:47'' (small_bytes @ [7])) sample_state =
     (Forwarded small_bytes \<lparr>ready = [7], later = [99]\<rparr>, st') \<and>
   (\<exists>hdr peeked. small_bytes = hdr @ peeked \<and> hdr = [] \<and> peeked @ [7, 99] = small_bytes @ [7, 99])"
proof -
  obtain st' where run: "handleConnWithScope sample_env sample_config (sample_conn ''192.0.2.1:47'' (small_bytes @ [7]))
      sample_state = (Forwarded small_bytes \<lparr>ready = [7], later = [99]\<rparr>, st')"
    using sample_run by blast
  from gate_forwards_verbatim [OF this] run show ?thesis
    by (auto simp: sample_ips unread_def)
qed

lemma handle_cases:
  assumes "handleConnWithScope env cfg gc st = (out, st')"
  defines "ip \<equiv> client_ip gc"
  defines "w \<equiv> allow_contains (cfg_allow cfg) ip"
  defines "b \<equiv> cfg_blockUnknown cfg \<and> \<not> w"
  obtains (early) "out \<in> {Dropped RateLimited, Dropped DeadlineError, Dropped NoRecordHeader}"
      "gate_store st' = gate_store st" "gate_events st' = gate_events st"
  | (refused) st1 header c r where "limiter_check env ip st = (True, st1)"
      "read_full 5 (arriving gc) = (Some header, c)"
      "gate_handshake env cfg ip w b header c st1 = (Inl r, st')" "out = Dropped r"
  | (passed) st1 header c peeked rest st2 where "limiter_check env ip st = (True, st1)"
      "read_full 5 (arriving gc) = (Some header, c)"
      "gate_handshake env cfg ip w b header c st1 = (Inr (peeked, rest), st2)"
      "gate_forward env cfg gc peeked rest st2 = (out, st')"
proof -
  obtain ok st1 where l: "limiter_check env ip st = (ok, st1)" by fastforce
  obtain hc c where h: "read_full 5 (arriving gc) = (hc, c)" by fastforce
  note eq = assms(1) [unfolded handleConnWithScope_def Let_def, folded ip_def, folded w_def, folded b_def]
  show thesis
  proof (cases "\<not> ok \<or> \<not> set_deadline_ok gc \<or> hc = None")
    case True
    then show thesis
      using eq l h limiter_check_store [OF l] by (intro early) (auto split: if_splits option.splits)
  next
    case False
    then obtain header where ok: "ok" "set_deadline_ok gc" "hc = Some header" by auto
    obtain r st2 where g: "gate_handshake env cfg ip w b header c st1 = (r, st2)" by fastforce
    show thesis
    proof (cases r)
      case (Inl x)
      with eq l h ok g show thesis by (intro refused) auto
    next
      case (Inr y)
      with eq l h ok g show thesis by (cases y) (intro passed, auto)
    qed
  qed
qed

lemma gate_forward_effects:
  assumes "gate_forward env cfg gc peeked c st = (out, st')"
  shows "gate_store st' = gate_store st"
    "gate_events st' = gate_events st \<or> gate_events st' = gate_events st @ [BackendFailure] \<and> out = Dropped DialFailed"
    "(\<exists>h. out = Forwarded (h @ peeked) c) \<or>
     (\<exists>r. out = Dropped r \<and> r \<notin> {RateLimited, DeadlineError, NoRecordHeader, UnparseableHello, NotTLS,
        StoreFailed, FingerprintBlocked, FingerprintPending, OutOfScope})"
  using assms by (auto simp: gate_forward_def split: if_splits sum.splits)

lemma gate_handshake_cases:
  assumes "gate_handshake env cfg ip w b header c st = (r, st')"
  obtains (silent) "st' = st" "r \<in> {Inl UnparseableHello, Inl NotTLS} \<and> b \<or> (\<exists>x. r = Inr x) \<and> \<not> b"
  | (hello) parseBuf raw c' verdict where "readClientHello c header = (Inr parseBuf, raw, c')"
      "gate_hello env cfg ip w b parseBuf st = (verdict, st')"
      "r = (case verdict of Some x \<Rightarrow> Inl x | None \<Rightarrow> Inr (raw, c'))"
proof (cases "hd header = recordTypeHandshake")
  case True
  obtain res raw c' where rd: "readClientHello c header = (res, raw, c')" by (metis prod_cases3)
  show thesis
  proof (cases res)
    case (Inl e)
    then show thesis using assms True rd by (intro silent) (auto simp: gate_handshake_def split: if_splits)
  next
    case (Inr buf)
    obtain v s where "gate_hello env cfg ip w b buf st = (v, s)" by fastforce
    then show thesis
      using assms True rd Inr by (intro hello [of buf raw c' v]) (auto simp: gate_handshake_def split: option.splits)
  qed
next
  case False
  then show thesis using assms by (intro silent) (auto simp: gate_handshake_def split: if_splits)
qed

text \<open>The observation a parsed ClientHello gives rise to.\<close>

definition observed :: "gate_config \<Rightarrow> gate_conn \<Rightarrow> string \<Rightarrow> tls_metadata \<Rightarrow> bool" where
  "observed cfg gc fp meta \<longleftrightarrow>
     (\<exists>header c parseBuf raw c'. read_full 5 (arriving gc) = (Some header, c) \<and>
        readClientHello c header = (Inr parseBuf, raw, c') \<and>
        extractTLSMetadata parseBuf (cfg_method cfg) = Inr (fp, meta))"

text \<open>
  C9: the handler touches the store at most once, and only to observe. Whatever the outcome,
  the store is afterwards as it was, or as one \<open>Observe\<close> left it, for the fingerprint of a
  ClientHello that was read completely and parsed. It is unchanged when the connection was
  rate limited, sent no record header, or was refused as unparseable or not TLS: floods and
  malformed handshakes cannot grow it, and no path ever approves anything.
\<close>

theorem gate_store_discipline:
  assumes "handleConnWithScope env cfg gc st = (out, st')"
  shows "(gate_store st' = gate_store st \<or>
     (\<exists>fp meta. observed cfg gc fp meta \<and>
        gate_store st' = snd (Observe env (gate_store st) (gate_observation cfg (client_ip gc) fp meta)
          (cfg_blockUnknown cfg \<and> \<not> allow_contains (cfg_allow cfg) (client_ip gc))))) \<and>
   (out \<in> Dropped ` {RateLimited, DeadlineError, NoRecordHeader, UnparseableHello, NotTLS} \<longrightarrow>
      gate_store st' = gate_store st)"
proof -
  have hs: "(gate_store s' = gate_store s \<or> (\<exists>fp meta. observed cfg gc fp meta \<and> gate_store s' =
      snd (Observe env (gate_store s) (gate_observation cfg ip fp meta) b))) \<and>
      (r \<in> Inl ` {RateLimited, DeadlineError, NoRecordHeader, UnparseableHello, NotTLS} \<longrightarrow> gate_store s' = gate_store s)"
    if g: "gate_handshake env cfg ip w b header c s = (r, s')"
      and rd: "read_full 5 (arriving gc) = (Some header, c)" for ip w b header c s r s'
    using g
  proof (cases rule: gate_handshake_cases)
    case (hello parseBuf raw c' verdict)
    from hello(2) show ?thesis
    proof (cases rule: gate_hello_cases)
      case (failed fp meta e s1)
      then show ?thesis using hello rd by (auto simp: observed_def)
    next
      case (decided fp meta entry s1)
      then have "observed cfg gc fp meta" using hello rd by (auto simp: observed_def)
      moreover have "verdict \<in> {None, Some FingerprintBlocked, Some FingerprintPending, Some OutOfScope}"
        using decided(3) by (auto simp: decide_def split: status.splits option.splits if_splits)
      ultimately show ?thesis using decided hello by (auto intro!: exI [of _ fp] exI [of _ meta])
    qed (use hello in simp)
  qed simp
  show ?thesis
    using assms
  proof (cases rule: handle_cases)
    case (refused st1 header c r)
    from hs [OF refused(3,2)] limiter_check_store [OF refused(1)] refused(4) show ?thesis by auto
  next
    case (passed st1 header c peeked rest st2)
    from hs [OF passed(3,2)] limiter_check_store [OF passed(1)] gate_forward_effects [OF passed(4)]
    show ?thesis by auto
  qed auto
qed

lemma gate_store_discipline_witness:
  "\<exists>st'. handleConnWithScope sample_env sample_config (sample_conn ''192.0.2.1:47'' [0x47, 0x45, 0x54, 0x20, 0x2f]) sample_state =
     (Dropped NotTLS, st') \<and> gate_store st' = []"
proof -
  have run: "handleConnWithScope sample_env sample_config (sample_conn ''192.0.2.1:47'' [0x47, 0x45, 0x54, 0x20, 0x2f])
      sample_state = (Dropped NotTLS, sample_state)"
    by (simp add: handleConnWithScope_def sample_ips limiter_check_def gate_handshake_def read_full_def
        recordTypeHandshake_def)
  from gate_store_discipline [OF this] run show ?thesis by (auto simp: sample_state_def)
qed

text \<open>
  A blocked-range alert is raised exactly for a connection that was dropped because its
  fingerprint is blocked or pending, once, for its source address and the route's port; an
  out-of-scope refusal, an error or a forwarded connection raises none.
\<close>

theorem gate_alerts_exact:
  assumes "handleConnWithScope env cfg gc st = (out, st')"
  shows "\<exists>es. gate_events st' = gate_events st @ es \<and>
    (if out \<in> {Dropped FingerprintBlocked, Dropped FingerprintPending}
     then (\<exists>fp meta ds. observed cfg gc fp meta \<and> es = ds @ [AlertRaised (client_ip gc) (cfg_port cfg) fp meta] \<and>
        (\<forall>d \<in> set ds. \<exists>t tr. d = Decided t fp tr))
     else (\<forall>ip p fp meta. AlertRaised ip p fp meta \<notin> set es))"
proof -
  have hs: "\<exists>es. gate_events s' = gate_events s @ es \<and>
      (if r \<in> {Inl FingerprintBlocked, Inl FingerprintPending}
       then (\<exists>fp meta ds. observed cfg gc fp meta \<and> es = ds @ [AlertRaised ip (cfg_port cfg) fp meta] \<and>
          (\<forall>d \<in> set ds. \<exists>t tr. d = Decided t fp tr))
       else (\<forall>ip p fp meta. AlertRaised ip p fp meta \<notin> set es))"
    if g: "gate_handshake env cfg ip w b header c s = (r, s')"
      and rd: "read_full 5 (arriving gc) = (Some header, c)" for ip w b header c s r s'
    using g
  proof (cases rule: gate_handshake_cases)
    case (hello parseBuf raw c' verdict)
    from hello(2) show ?thesis
    proof (cases rule: gate_hello_cases)
      case (decided fp meta entry s1)
      then have obs: "observed cfg gc fp meta" using hello rd by (auto simp: observed_def)
      have r: "r \<in> {Inl FingerprintBlocked, Inl FingerprintPending} \<longleftrightarrow>
          snd (snd (decide env w b (cfg_scopeShadow cfg) ip entry))"
        using hello(3) decided(3) by (auto simp: decide_alert split: option.splits)
      obtain ds where ds: "gate_events s' = gate_events s @ ds @
           (if r \<in> {Inl FingerprintBlocked, Inl FingerprintPending} then [AlertRaised ip (cfg_port cfg) fp meta] else [])"
        "\<forall>d \<in> set ds. \<exists>t tr. d = Decided t fp tr"
        using decided(5) unfolding r by blast
      then show ?thesis using obs by (cases "r \<in> {Inl FingerprintBlocked, Inl FingerprintPending}") auto
    qed (use hello in \<open>auto split: if_splits\<close>)
  qed auto
  show ?thesis
    using assms
  proof (cases rule: handle_cases)
    case (refused st1 header c r)
    from hs [OF refused(3,2)] limiter_check_store [OF refused(1)] refused(4) show ?thesis by auto
  next
    case (passed st1 header c peeked rest st2)
    from hs [OF passed(3,2)] limiter_check_store [OF passed(1)] gate_forward_effects [OF passed(4)]
    show ?thesis by auto
  qed auto
qed

definition blocking_env :: "(string list, unit, unit) gate_env" where
  "blocking_env = sample_env\<lparr>Observe := \<lambda>st obs b. (Inr \<lparr>entry_status = StatusBlocked, ApprovalRanges = None\<rparr>, st)\<rparr>"

lemma gate_alerts_exact_witness:
  "\<exists>st' es. handleConnWithScope blocking_env sample_config (sample_conn ''192.0.2.1:47'' (small_bytes @ [7])) sample_state =
     (Dropped FingerprintBlocked, st') \<and> gate_events st' = es \<and>
     (\<exists>fp meta. AlertRaised ''192.0.2.1'' 993 fp meta \<in> set es)"
proof -
  obtain fp meta where x: "extractTLSMetadata small_bytes ''ja4'' = Inr (fp, meta)"
    by (cases "extractTLSMetadata small_bytes ''ja4''") (auto simp: extractTLSMetadata_def small_parse Let_def case_prod_beta split: if_splits)
  have env: "limiter_Allow blocking_env = None" by (simp add: blocking_env_def)
  have "fst (gate_hello blocking_env sample_config ip False True small_bytes st) = Some FingerprintBlocked" for ip st
    using x by (simp add: gate_hello_def blocking_env_def decide_def)
  then obtain st' where "gate_hello blocking_env sample_config ''192.0.2.1'' False True small_bytes sample_state =
      (Some FingerprintBlocked, st')"
    by (metis prod.collapse)
  then have run: "handleConnWithScope blocking_env sample_config (sample_conn ''192.0.2.1:47'' (small_bytes @ [7]))
      sample_state = (Dropped FingerprintBlocked, st')"
    by (simp add: handleConnWithScope_def sample_ips limiter_check_def gate_handshake_def sample_read env)
  have port: "cfg_port sample_config = 993" by (simp add: sample_config_def)
  from gate_alerts_exact [OF run] obtain fp meta ds where
    "gate_events st' = ds @ [AlertRaised ''192.0.2.1'' 993 fp meta]"
    by (auto simp: sample_ips port sample_state_def)
  then have "AlertRaised ''192.0.2.1'' 993 fp meta \<in> set (gate_events st')" by simp
  with run show ?thesis by blast
qed

section \<open>Who is let in\<close>

definition sockets_ok :: "gate_config \<Rightarrow> gate_conn \<Rightarrow> bool" where
  "sockets_ok cfg gc \<longleftrightarrow> set_deadline_ok gc \<and> clear_deadline_ok gc \<and> dial_ok gc \<and> write_header_ok gc \<and>
     write_peeked_ok gc \<and> (cfg_sendProxyV2 cfg \<longrightarrow> (\<exists>h. proxyV2Header (source_addr gc) (local_addr gc) = Inr h))"

definition proxy_prefix :: "gate_config \<Rightarrow> gate_conn \<Rightarrow> u8 list" where
  "proxy_prefix cfg gc =
     (if cfg_sendProxyV2 cfg
      then (case proxyV2Header (source_addr gc) (local_addr gc) of Inr h \<Rightarrow> h | Inl _ \<Rightarrow> []) else [])"

lemma gate_forward_ok:
  "sockets_ok cfg gc \<Longrightarrow> gate_forward env cfg gc peeked c st = (Forwarded (proxy_prefix cfg gc @ peeked) c, st)"
  by (auto simp: gate_forward_def sockets_ok_def proxy_prefix_def)

text \<open>
  A trusted source passes. When the limiter lets a source of the allowlist through, its
  record header arrives and the sockets work, the connection is forwarded, whatever its
  handshake is worth and whatever status the fingerprint has, with one exception: when the
  handshake parses and the store fails to record it, the connection is dropped.
\<close>

theorem gate_trusted_source:
  assumes "allow_contains (cfg_allow cfg) (client_ip gc)" and "sockets_ok cfg gc"
    and "limiter_check env (client_ip gc) st = (True, st1)" and "5 \<le> length (ready (arriving gc))"
  shows "(\<exists>bytes rest st'. handleConnWithScope env cfg gc st = (Forwarded bytes rest, st')) \<or>
    (\<exists>st' fp meta e. handleConnWithScope env cfg gc st = (Dropped StoreFailed, st') \<and> observed cfg gc fp meta \<and>
       Observe env (gate_store st) (gate_observation cfg (client_ip gc) fp meta) False = (Inl e, gate_store st'))"
proof -
  obtain header c where rd: "read_full 5 (arriving gc) = (Some header, c)"
    using assms(4) by (simp add: read_full_def)
  obtain r st2 where g: "gate_handshake env cfg (client_ip gc) True False header c st1 = (r, st2)" by fastforce
  have eq: "handleConnWithScope env cfg gc st =
      (case r of Inl x \<Rightarrow> (Dropped x, st2) | Inr (peeked, c) \<Rightarrow> gate_forward env cfg gc peeked c st2)"
    using assms rd g by (auto simp: handleConnWithScope_def sockets_ok_def split: sum.split prod.split)
  show ?thesis
  proof (cases r)
    case (Inr x)
    then show ?thesis
      using eq by (cases x) (simp add: gate_forward_ok [OF assms(2)])
  next
    case (Inl x)
    from g show ?thesis
    proof (cases rule: gate_handshake_cases)
      case (hello parseBuf raw c' verdict)
      from hello(2) show ?thesis
      proof (cases rule: gate_hello_cases)
        case (failed fp meta e s)
        have "observed cfg gc fp meta" using rd hello(1) failed(1) by (auto simp: observed_def)
        moreover have "r = Inl StoreFailed" using hello(3) failed(3) by simp
        ultimately show ?thesis
          using eq failed(2,4) limiter_check_store [OF assms(3)] by auto
      next
        case (decided fp meta entry s)
        then have "verdict = None" by (simp add: decide_whitelisted)
        then show ?thesis using hello(3) Inl by simp
      qed (use hello(3) Inl in simp)
    qed (use Inl in auto)
  qed
qed

lemma gate_trusted_source_witness:
  "(\<exists>bytes rest st'. handleConnWithScope blocking_env sample_config
      (sample_conn ''10.1.2.3:47'' (small_bytes @ [7])) sample_state = (Forwarded bytes rest, st'))"
proof -
  have "limiter_check blocking_env (client_ip (sample_conn ''10.1.2.3:47'' (small_bytes @ [7]))) sample_state = (True, sample_state)"
    by (simp add: limiter_check_def blocking_env_def)
  from gate_trusted_source [OF _ _ this] show ?thesis
    by (auto simp: sample_ips sockets_ok_def small_bytes_def blocking_env_def)
qed

text \<open>
  The exception contradicts the comment of \<open>ApproveRanges\<close> ("their connections are always
  forwarded"): with a failing store a source of the allowlist is dropped.
\<close>

definition failing_env :: "(string list, unit, unit) gate_env" where
  "failing_env = sample_env\<lparr>Observe := \<lambda>st obs b. (Inl ''database is locked'', st)\<rparr>"

lemma trusted_source_dropped_on_store_error:
  "allow_contains (cfg_allow sample_config) (client_ip (sample_conn ''10.1.2.3:47'' (small_bytes @ [7]))) \<and>
   fst (handleConnWithScope failing_env sample_config (sample_conn ''10.1.2.3:47'' (small_bytes @ [7])) sample_state) =
     Dropped StoreFailed"
proof -
  obtain fp meta where x: "extractTLSMetadata small_bytes ''ja4'' = Inr (fp, meta)"
    by (cases "extractTLSMetadata small_bytes ''ja4''") (auto simp: extractTLSMetadata_def small_parse Let_def case_prod_beta split: if_splits)
  then have "fst (gate_hello failing_env sample_config ''10.1.2.3'' True False small_bytes sample_state) = Some StoreFailed"
    by (simp add: gate_hello_def failing_env_def)
  moreover have "limiter_Allow failing_env = None" by (simp add: failing_env_def)
  ultimately show ?thesis
    by (cases "gate_hello failing_env sample_config ''10.1.2.3'' True False small_bytes sample_state")
      (simp add: handleConnWithScope_def sample_ips limiter_check_def gate_handshake_def sample_read)
qed

section \<open>An approved client, end to end\<close>

text \<open>
  C4: an approved client gets through, however it sends its hello. For every well-formed
  ClientHello, every fragmentation of it into TLS records and whatever the client sends
  next: if the store approves the ClientHello's own key (JA3 or JA4, as configured) for this
  source, within scope, and limiter and sockets cooperate, the handler forwards exactly the
  records as sent, leaves the rest to the pumps, and has recorded exactly one observation
  with the ClientHello's metadata.
\<close>

theorem approved_client_forwarded:
  assumes "wf_msg m" and "fragmentation rs" and "records_message rs = encode_handshake m"
    and "ready (arriving gc) = records_wire rs @ rest"
    and "limiter_check env (client_ip gc) st = (True, st1)" and "sockets_ok cfg gc"
    and "Observe env (gate_store st)
      (gate_observation cfg (client_ip gc) (hello_key (cfg_method cfg) (msg_meaning m))
         (hello_metadata (msg_meaning m)))
      (cfg_blockUnknown cfg \<and> \<not> allow_contains (cfg_allow cfg) (client_ip gc)) = (Inr entry, s)"
    and "entry_status entry = StatusApproved"
    and "scope_admits env (cfg_scopeShadow cfg) (client_ip gc) entry"
  shows "\<exists>st'. handleConnWithScope env cfg gc st =
      (Forwarded (proxy_prefix cfg gc @ records_wire rs) ((arriving gc)\<lparr>ready := rest\<rparr>), st') \<and>
    gate_store st' = s"
proof -
  let ?ip = "client_ip gc" and ?w = "allow_contains (cfg_allow cfg) (client_ip gc)"
  let ?b = "cfg_blockUnknown cfg \<and> \<not> ?w" and ?h = "record_header (hd rs)"
  obtain c where rd: "read_full 5 (arriving gc) = (Some ?h, c)"
    "readClientHello c ?h = (Inr (?h @ encode_handshake m), records_wire rs, (arriving gc)\<lparr>ready := rest\<rparr>)"
    using read_fragments [OF assms(2,4)] assms(3) by auto
  obtain h4 where h4: "?h = 0x16 # h4" "length h4 = 4"
    using record_header_bytes [of "hd rs"] by (auto simp: recordTypeHandshake_def)
  have parsed: "parseClientHello (?h @ encode_handshake m) = Inr (msg_meaning m)"
    using parse_encoded [OF assms(1) h4(2), of "[]"] h4(1) by simp
  have admitted: "fst (snd (decide env ?w ?b (cfg_scopeShadow cfg) ?ip entry)) = None"
    using assms(8,9) by (auto simp: decide_def scope_admits_def split: option.splits)
  have same: "gate_store st1 = gate_store st" using limiter_check_store [OF assms(5)] by simp
  obtain st2 where hello: "gate_hello env cfg ?ip ?w ?b (?h @ encode_handshake m) st1 = (None, st2)"
    "gate_store st2 = s"
  proof -
    obtain v st2 where g: "gate_hello env cfg ?ip ?w ?b (?h @ encode_handshake m) st1 = (v, st2)" by fastforce
    then have "v = None \<and> gate_store st2 = s"
      using extractTLSMetadata_eq [OF parsed, of "cfg_method cfg"] assms(7) same admitted
      by (cases rule: gate_hello_cases) auto
    with g that show thesis by simp
  qed
  have "hd ?h = recordTypeHandshake" by (simp add: h4 recordTypeHandshake_def)
  then have "handleConnWithScope env cfg gc st = gate_forward env cfg gc (records_wire rs) ((arriving gc)\<lparr>ready := rest\<rparr>) st2"
    using assms(5,6) rd hello(1) by (simp add: handleConnWithScope_def gate_handshake_def sockets_ok_def)
  then show ?thesis
    using hello(2) by (simp add: gate_forward_ok [OF assms(6)])
qed

lemma approved_client_forwarded_witness:
  "\<exists>st'. handleConnWithScope sample_env sample_config
      (sample_conn ''192.0.2.1:47'' (records_wire [((3, 1), take 3 (encode_handshake sample_msg)), ((3, 3), drop 3 (encode_handshake sample_msg))] @ [7])) sample_state =
      (Forwarded (records_wire [((3, 1), take 3 (encode_handshake sample_msg)), ((3, 3), drop 3 (encode_handshake sample_msg))])
         \<lparr>ready = [7], later = [99]\<rparr>, st') \<and>
    gate_store st' = [hello_key ''ja4'' (msg_meaning sample_msg)]"
proof -
  let ?rs = "[((3, 1), take 3 (encode_handshake sample_msg)), ((3, 3), drop 3 (encode_handshake sample_msg))]"
  let ?gc = "sample_conn ''192.0.2.1:47'' (records_wire ?rs @ [7])"
  have wf: "wf_msg sample_msg"
    by (simp add: sample_msg_def wf_msg_def encode_body_def encode_exts_def encode_ext_def enc_proto_def known_ext_types_def)
  have frag: "fragmentation ?rs"
    by (simp add: fragmentation_def records_message_def whole_def message_total_def reassembly_limits
        encode_handshake_def encode_body_def encode_exts_def encode_ext_def enc_proto_def sample_msg_def
        be24n_eq put24n_def put16n_def unat_of_nat)
  have lim: "limiter_check sample_env (client_ip ?gc) sample_state = (True, sample_state)"
    by (simp add: limiter_check_def)
  from approved_client_forwarded [OF wf frag _ _ lim, of "[7]" sample_config] show ?thesis
    by (simp add: records_message_def sockets_ok_def proxy_prefix_def sample_env_def gate_observation_def
        sample_state_def scope_admits_def)
qed

end
