(* ===== verification/Commands.thy ===== *)
theory Commands
  imports Gate Log_Text Smtp_Behavior "HOL-Library.Product_Lexorder"
begin

text \<open>
  The commands on the store: the order and the cells of \<open>list\<close>, and what \<open>approve\<close>, \<open>block\<close>,
  \<open>label\<close>, \<open>delete\<close> and \<open>reset\<close> of \<open>main.go\<close> and \<open>approval_scopes.go\<close> do to the store. The
  store's operations and approval scopes are the gatekit library's; so are the times' format
  and the layout of the table. The theorems: the order of the list is determined, and an
  approval restricted to ranges is stored with these ranges or not at all.
\<close>

section \<open>List\<close>

text \<open>An entry as \<open>list\<close> shows it.\<close>

record 'sc stored_entry =
  se_Status :: status
  se_Label :: string
  se_Count :: int
  se_FirstSeen :: time
  se_LastSeen :: time
  se_IPs :: "string list"
  se_Meta :: meta_bag
  se_Scope :: "'sc option"

definition statusRank :: "status \<Rightarrow> nat" where
  "statusRank s = (case s of StatusApproved \<Rightarrow> 0 | StatusBlocked \<Rightarrow> 1 | StatusPending \<Rightarrow> 2 | OtherStatus _ \<Rightarrow> 3)"

definition listEntryLess :: "string \<Rightarrow> 'sc stored_entry \<Rightarrow> string \<Rightarrow> 'sc stored_entry \<Rightarrow> bool" where
  "listEntryLess fpA a fpB b =
     (if se_Count a \<noteq> se_Count b then se_Count a > se_Count b
      else if statusRank (se_Status a) \<noteq> statusRank (se_Status b) then statusRank (se_Status a) < statusRank (se_Status b)
      else if se_FirstSeen a \<noteq> se_FirstSeen b then se_FirstSeen a < se_FirstSeen b
      else fpA < fpB)"

definition valueOrDash :: "string \<Rightarrow> string" where
  "valueOrDash s = (if s = [] then ''-'' else s)"

definition displayValue :: "string \<Rightarrow> string" where
  "displayValue s = valueOrDash (sanitizeLog s)"

definition hex_name :: "u16 \<Rightarrow> string" where
  "hex_name v = (if isGREASE v then ''GREASE(0x'' @ hex4 v @ '')'' else ''0x'' @ hex4 v)"

definition tlsVersionName :: "u16 \<Rightarrow> string" where
  "tlsVersionName v =
     (if v = 0x0304 then ''TLS1.3'' else if v = 0x0303 then ''TLS1.2'' else if v = 0x0302 then ''TLS1.1''
      else if v = 0x0301 then ''TLS1.0'' else hex_name v)"

definition signatureAlgorithmName :: "u16 \<Rightarrow> string" where
  "signatureAlgorithmName v =
     (case map_of [(0x0403, ''ECDSA-SHA256''), (0x0503, ''ECDSA-SHA384''), (0x0603, ''ECDSA-SHA512''),
         (0x0804, ''RSA-PSS-SHA256''), (0x0805, ''RSA-PSS-SHA384''), (0x0806, ''RSA-PSS-SHA512''),
         (0x0401, ''RSA-SHA256''), (0x0501, ''RSA-SHA384''), (0x0601, ''RSA-SHA512''),
         (0x0807, ''ED25519''), (0x0808, ''ED448'')] v of
        Some name \<Rightarrow> name
      | None \<Rightarrow> hex_name v)"

definition tlsVersionList :: "u16 list \<Rightarrow> string" where
  "tlsVersionList vs = (if vs = [] then [] else join '','' (map tlsVersionName vs))"

definition signatureAlgorithmList :: "u16 list \<Rightarrow> string" where
  "signatureAlgorithmList vs = (if vs = [] then [] else join '','' (map signatureAlgorithmName vs))"

text \<open>The cells of one row.\<close>

definition list_row ::
  "(status \<Rightarrow> string) \<Rightarrow> (time \<Rightarrow> string) \<Rightarrow> ('sc \<Rightarrow> string list) \<Rightarrow> bool \<Rightarrow> string \<Rightarrow> 'sc stored_entry \<Rightarrow> string list" where
  "list_row status_text fmt_time scope_ranges verbose k e =
     (let tls = tlsMetaOf (se_Meta e);
          label = (if se_Label e = [] then ''-'' else se_Label e);
          scope = (case se_Scope e of None \<Rightarrow> ''unrestricted'' | Some sc \<Rightarrow> join '','' (scope_ranges sc));
          ips = (if join '','' (se_IPs e) = [] then ''-'' else join '','' (se_IPs e))
      in [displayValue k, status_text (se_Status e), displayValue label, itoa_int (se_Count e), fmt_time (se_LastSeen e),
          displayValue (SNI tls), displayValue (join '','' (ALPN tls)), displayValue (tlsVersionList (SupportedVersions tls))] @
         (if verbose then [displayValue (signatureAlgorithmList (SignatureAlgorithms tls)), displayValue (JA3 tls), displayValue (JA4 tls)]
          else []) @
         [displayValue ips, displayValue scope])"

text \<open>
  The table: the entries in the order of \<open>listEntryLess\<close>, which compares these keys, one row
  each.
\<close>

definition list_key :: "string \<times> 'sc stored_entry \<Rightarrow> int \<times> nat \<times> int \<times> string" where
  "list_key x = (- se_Count (snd x), statusRank (se_Status (snd x)), se_FirstSeen (snd x), fst x)"

definition cmdList ::
  "(status \<Rightarrow> string) \<Rightarrow> (time \<Rightarrow> string) \<Rightarrow> ('sc \<Rightarrow> string list) \<Rightarrow> bool \<Rightarrow> (string \<times> 'sc stored_entry) list \<Rightarrow> string list list" where
  "cmdList status_text fmt_time scope_ranges verbose fps =
     map (\<lambda>(k, e). list_row status_text fmt_time scope_ranges verbose k e) (sort_key list_key fps)"

section \<open>Changing the store\<close>

datatype get_error = NoRows | GetFailed string

text \<open>\<open>metaFingerprintMethod\<close> is the library's name of the key under which the method is stored.\<close>

record ('st, 'sc) admin_ops = "'st format_ops" +
  metaFingerprintMethod :: string
  SetStatus :: "'st \<Rightarrow> string \<Rightarrow> status \<Rightarrow> string option \<times> 'st"
  SetLabel :: "'st \<Rightarrow> string \<Rightarrow> string \<Rightarrow> string option \<times> 'st"
  UpsertStatus :: "'st \<Rightarrow> string \<Rightarrow> status \<Rightarrow> string \<Rightarrow> string option \<times> 'st"
  GetLabel :: "'st \<Rightarrow> string \<Rightarrow> get_error + string"
  ApplyDecision :: "'st \<Rightarrow> string \<Rightarrow> status \<Rightarrow> string \<Rightarrow> 'sc option \<Rightarrow> string option \<times> 'st"
  DeleteEntry :: "'st \<Rightarrow> string \<Rightarrow> string option \<times> 'st"

datatype command_error =
    StoreError string
  | FormatError format_error
  | NotFullFingerprint string string
  | NotFullFingerprintForScope
  | RangesAndUnrestricted
  | BadRanges string
  | BadMethod method_error

definition expectedFingerprintDesc :: "string \<Rightarrow> string" where
  "expectedFingerprintDesc how =
     (if how = MethodJA3 then ''ja3'' else if how = MethodJA4 then ''ja4'' else ''ja3 or ja4'')"

text \<open>What both ways to register a fingerprint check first; the format marker may be set. \<open>refuse\<close> is
  what each says of a fingerprint that is not a full one of the stored method.\<close>

definition check_register :: "('st, 'sc, 'm) admin_ops_scheme \<Rightarrow> (string \<Rightarrow> command_error) \<Rightarrow> 'st \<Rightarrow> string \<Rightarrow> command_error option \<times> 'st" where
  "check_register ops refuse st fp =
     (case GetMeta ops st (metaFingerprintMethod ops) of
        Inl e \<Rightarrow> (Some (StoreError e), st)
      | Inr how \<Rightarrow>
          if \<not> validFingerprintForMethod fp how then (Some (refuse how), st)
          else (case reconcileFingerprintFormat (format_ops.truncate ops) st False of
              ((err, _), st) \<Rightarrow> (map_option FormatError err, st)))"

definition registerStatus ::
  "('st, 'sc, 'm) admin_ops_scheme \<Rightarrow> 'st \<Rightarrow> string \<Rightarrow> status \<Rightarrow> string \<Rightarrow> command_error option \<times> 'st" where
  "registerStatus ops st fp status label =
     (case check_register ops (\<lambda>how. NotFullFingerprint (expectedFingerprintDesc how) fp) st fp of
        (Some e, st) \<Rightarrow> (Some e, st)
      | (None, st) \<Rightarrow> (case UpsertStatus ops st fp status label of (err, st) \<Rightarrow> (map_option StoreError err, st)))"

text \<open>\<open>approval.New\<close> is \<open>new_scope\<close>.\<close>

definition approveWithScope ::
  "('st, 'sc, 'm) admin_ops_scheme \<Rightarrow> (string list \<Rightarrow> string + 'sc) \<Rightarrow> 'st \<Rightarrow> string \<Rightarrow> string \<Rightarrow> string \<Rightarrow> bool \<Rightarrow> bool \<Rightarrow>
     command_error option \<times> 'st" where
  "approveWithScope ops new_scope st fp label ranges unrestricted register =
     (if ranges \<noteq> [] \<and> unrestricted then (Some RangesAndUnrestricted, st)
      else (case (if unrestricted then Inr None else map_sum id Some (new_scope (split_char (CHR '','') ranges))) of
          Inl e \<Rightarrow> (Some (BadRanges e), st)
        | Inr scope \<Rightarrow>
            (case (if register then check_register ops (\<lambda>_. NotFullFingerprintForScope) st fp else (None, st)) of
               (Some e, st) \<Rightarrow> (Some e, st)
             | (None, st) \<Rightarrow>
                 (case (case GetLabel ops st fp of
                      Inr l \<Rightarrow> Inr l
                    | Inl NoRows \<Rightarrow> if register then Inr [] else Inl ''no rows''
                    | Inl (GetFailed e) \<Rightarrow> Inl e) of
                    Inl e \<Rightarrow> (Some (StoreError e), st)
                  | Inr old \<Rightarrow>
                      (case ApplyDecision ops st fp StatusApproved (if label = [] then old else label) scope of
                         (err, st) \<Rightarrow> (map_option StoreError err, st))))))"

definition set_status_label ::
  "('st, 'sc, 'm) admin_ops_scheme \<Rightarrow> 'st \<Rightarrow> string \<Rightarrow> status \<Rightarrow> string \<Rightarrow> command_error option \<times> 'st" where
  "set_status_label ops st fp status label =
     (case SetStatus ops st fp status of
        (Some e, st) \<Rightarrow> (Some (StoreError e), st)
      | (None, st) \<Rightarrow>
          if label = [] then (None, st)
          else (case SetLabel ops st fp label of (err, st) \<Rightarrow> (map_option StoreError err, st)))"

definition cmdApprove ::
  "('st, 'sc, 'm) admin_ops_scheme \<Rightarrow> (string list \<Rightarrow> string + 'sc) \<Rightarrow> 'st \<Rightarrow> string \<Rightarrow> string \<Rightarrow> string \<Rightarrow> bool \<Rightarrow> bool \<Rightarrow>
     command_error option \<times> 'st" where
  "cmdApprove ops new_scope st fp label ranges unrestricted register =
     (if ranges \<noteq> [] \<or> unrestricted then approveWithScope ops new_scope st fp label ranges unrestricted register
      else if register then registerStatus ops st fp StatusApproved label
      else set_status_label ops st fp StatusApproved label)"

definition cmdBlock ::
  "('st, 'sc, 'm) admin_ops_scheme \<Rightarrow> 'st \<Rightarrow> string \<Rightarrow> string \<Rightarrow> bool \<Rightarrow> command_error option \<times> 'st" where
  "cmdBlock ops st fp label register =
     (if register then registerStatus ops st fp StatusBlocked label else set_status_label ops st fp StatusBlocked label)"

definition cmdLabel :: "('st, 'sc, 'm) admin_ops_scheme \<Rightarrow> 'st \<Rightarrow> string \<Rightarrow> string \<Rightarrow> command_error option \<times> 'st" where
  "cmdLabel ops st fp label = (case SetLabel ops st fp label of (err, st) \<Rightarrow> (map_option StoreError err, st))"

definition cmdDelete :: "('st, 'sc, 'm) admin_ops_scheme \<Rightarrow> 'st \<Rightarrow> string \<Rightarrow> command_error option \<times> 'st" where
  "cmdDelete ops st fp = (case DeleteEntry ops st fp of (err, st) \<Rightarrow> (map_option StoreError err, st))"

text \<open>\<open>reset\<close>: the method is chosen before anything is purged.\<close>

definition cmdReset :: "('st, 'sc, 'm) admin_ops_scheme \<Rightarrow> 'st \<Rightarrow> string \<Rightarrow> (command_error + int) \<times> 'st" where
  "cmdReset ops st fingerprint =
     (case (if fingerprint = [] then map_sum StoreError id (GetMeta ops st (metaFingerprintMethod ops))
            else map_sum BadMethod id (ParseFingerprintMethod fingerprint)) of
        Inl e \<Rightarrow> (Inl e, st)
      | Inr how \<Rightarrow>
          (case ResetFingerprints ops st of
             (Inl e, st) \<Rightarrow> (Inl (StoreError e), st)
           | (Inr purged, st) \<Rightarrow>
               if how = [] then (Inr purged, st)
               else (case SetMeta ops st (metaFingerprintMethod ops) how of
                   (Some e, st) \<Rightarrow> (Inl (StoreError e), st)
                 | (None, st) \<Rightarrow> (Inr purged, st))))"

section \<open>The list is determined\<close>

lemma listEntryLess_key: "listEntryLess fpA a fpB b \<longleftrightarrow> list_key (fpA, a) < list_key (fpB, b)"
  by (auto simp: listEntryLess_def list_key_def)

lemma sorted_key_unique:
  fixes key :: "'a \<Rightarrow> 'k::linorder"
  assumes "mset ys = mset zs" "inj_on key (set ys)" "sorted (map key ys)" "sorted (map key zs)"
  shows "ys = zs"
proof -
  have "mset (map key ys) = mset (map key zs)" using assms(1) by simp
  then have "map key ys = map key zs" using assms(3,4) by (metis properties_for_sort)
  then show ?thesis using assms(1,2) by (metis inj_on_map_eq_map mset_eq_setD Un_absorb)
qed

lemma less_sorted_key:
  "sorted_wrt (\<lambda>a b. \<not> listEntryLess (fst b) (snd b) (fst a) (snd a)) ws \<Longrightarrow> sorted (map list_key ws)"
  by (simp add: listEntryLess_key sorted_map not_less)

text \<open>
  The list is determined by the store. \<open>sort.Slice\<close> may leave the order of elements open
  that the comparison does not separate, but fingerprints differ, so whatever order the map
  was ranged over in and whatever permutation the sort returns, as long as no later entry
  is less than an earlier one, the rows printed are those of \<open>cmdList\<close>; more counts come
  first, then approved, blocked, pending and other ones.
\<close>

theorem list_determined:
  assumes "distinct (map fst xs)" and "mset ys = mset xs"
    and "sorted_wrt (\<lambda>a b. \<not> listEntryLess (fst b) (snd b) (fst a) (snd a)) ys"
  shows "map (\<lambda>(k, e). list_row status_text fmt_time scope_ranges verbose k e) ys =
       cmdList status_text fmt_time scope_ranges verbose xs \<and>
     sorted_wrt (\<lambda>a b. se_Count (snd a) > se_Count (snd b) \<or>
       (se_Count (snd a) = se_Count (snd b) \<and> statusRank (se_Status (snd a)) \<le> statusRank (se_Status (snd b)))) ys"
proof -
  have "inj_on fst (set ys)" using assms(1,2) by (metis distinct_map mset_eq_setD)
  then have "inj_on list_key (set ys)" by (auto simp: inj_on_def list_key_def)
  moreover have "mset ys = mset (sort_key list_key xs)" using assms(2) by simp
  moreover have "sorted (map list_key (sort_key list_key xs))" by (rule sorted_sort_key)
  ultimately have "ys = sort_key list_key xs" using less_sorted_key [OF assms(3)] by (intro sorted_key_unique)
  moreover have "sorted_wrt (\<lambda>a b. se_Count (snd a) > se_Count (snd b) \<or>
       (se_Count (snd a) = se_Count (snd b) \<and> statusRank (se_Status (snd a)) \<le> statusRank (se_Status (snd b)))) ys"
    using assms(3) by (rule sorted_wrt_mono_rel [rotated]) (auto simp: listEntryLess_def split: if_splits)
  ultimately show ?thesis by (simp add: cmdList_def)
qed

definition demo_stored :: "int \<Rightarrow> status \<Rightarrow> unit stored_entry" where
  "demo_stored n s = \<lparr>se_Status = s, se_Label = [], se_Count = n, se_FirstSeen = 0, se_LastSeen = 0, se_IPs = [], se_Meta = Map.empty, se_Scope = None\<rparr>"

lemma list_determined_witness:
  "cmdList (\<lambda>_. []) (\<lambda>_. []) (\<lambda>_. []) False
       [(''a'', demo_stored 1 StatusPending), (''b'', demo_stored 2 StatusPending), (''c'', demo_stored 1 StatusApproved)] =
     map (\<lambda>(k, e). list_row (\<lambda>_. []) (\<lambda>_. []) (\<lambda>_. []) False k e)
       [(''b'', demo_stored 2 StatusPending), (''c'', demo_stored 1 StatusApproved), (''a'', demo_stored 1 StatusPending)]"
proof -
  let ?xs = "[(''a'', demo_stored 1 StatusPending), (''b'', demo_stored 2 StatusPending), (''c'', demo_stored 1 StatusApproved)]"
  let ?ys = "[(''b'', demo_stored 2 StatusPending), (''c'', demo_stored 1 StatusApproved), (''a'', demo_stored 1 StatusPending)]"
  have "sorted_wrt (\<lambda>a b. \<not> listEntryLess (fst b) (snd b) (fst a) (snd a)) ?ys"
    by (simp add: demo_stored_def listEntryLess_def statusRank_def)
  then show ?thesis
    using list_determined [of ?xs ?ys "\<lambda>_. []" "\<lambda>_. []" "\<lambda>_. []" False] by (simp add: add_mset_commute)
qed

section \<open>A restricted approval stays restricted\<close>

text \<open>
  C40: an approval that is asked for with ranges is stored with exactly these ranges or
  fails. \<open>approve --ranges\<close> reports success only if the ranges parse, \<open>--unrestricted\<close> was
  not given, a registered fingerprint was a full one of the stored method, and the store
  took the approval with this very scope; when the ranges do not parse, contradict
  \<open>--unrestricted\<close>, or the fingerprint to register is not a full one, the command fails
  and the store is as it was.
\<close>

theorem approve_restricted:
  assumes "cmdApprove ops new_scope st fp label ranges unrestricted register = (err, st')" and "ranges \<noteq> []"
  shows "(err = None \<longrightarrow> \<not> unrestricted \<and> (\<exists>sc st1 l. new_scope (split_char (CHR '','') ranges) = Inr sc \<and>
       ApplyDecision ops st1 fp StatusApproved l (Some sc) = (None, st') \<and> (label \<noteq> [] \<longrightarrow> l = label) \<and>
       (\<not> register \<longrightarrow> st1 = st) \<and>
       (register \<longrightarrow> (\<exists>how. GetMeta ops st (metaFingerprintMethod ops) = Inr how \<and> validFingerprintForMethod fp how)))) \<and>
     (unrestricted \<or> new_scope (split_char (CHR '','') ranges) \<in> range Inl \<or>
        (register \<and> (\<exists>how. GetMeta ops st (metaFingerprintMethod ops) = Inr how \<and> \<not> validFingerprintForMethod fp how)) \<longrightarrow>
      err \<noteq> None \<and> st' = st)"
proof -
  have run: "approveWithScope ops new_scope st fp label ranges unrestricted register = (err, st')"
    using assms by (simp add: cmdApprove_def)
  show ?thesis
  proof (cases "unrestricted \<or> new_scope (split_char (CHR '','') ranges) \<in> range Inl")
    case True
    then have "err \<noteq> None \<and> st' = st" using run assms(2) by (cases unrestricted) (auto simp: approveWithScope_def)
    then show ?thesis by blast
  next
    case False
    then obtain sc where sc: "\<not> unrestricted" "new_scope (split_char (CHR '','') ranges) = Inr sc"
      by (cases "new_scope (split_char (CHR '','') ranges)") auto
    obtain chk st1 where c: "(if register then check_register ops (\<lambda>_. NotFullFingerprintForScope) st fp else (None, st)) = (chk, st1)" by fastforce
    have checked: "register \<Longrightarrow> chk = None \<Longrightarrow> \<exists>how. GetMeta ops st (metaFingerprintMethod ops) = Inr how \<and> validFingerprintForMethod fp how"
      and refused: "register \<Longrightarrow> \<exists>how. GetMeta ops st (metaFingerprintMethod ops) = Inr how \<and> \<not> validFingerprintForMethod fp how \<Longrightarrow>
        chk \<noteq> None \<and> st1 = st"
      using c by (auto simp: check_register_def split: sum.splits if_splits)
    show ?thesis
    proof (cases chk)
      case (Some e)
      then have "err = Some e \<and> st' = st1" using run sc c by (simp add: approveWithScope_def)
      then show ?thesis using False refused sc(1) by auto
    next
      case None
      have "\<exists>l. ApplyDecision ops st1 fp StatusApproved l (Some sc) = (None, st') \<and> (label \<noteq> [] \<longrightarrow> l = label)" if "err = None"
        using run sc c None that
        by (auto simp: approveWithScope_def split: sum.splits get_error.splits if_splits prod.splits)
      moreover have "\<not> register \<Longrightarrow> st1 = st" using c by auto
      moreover have "\<not> (register \<and> (\<exists>how. GetMeta ops st (metaFingerprintMethod ops) = Inr how \<and> \<not> validFingerprintForMethod fp how))"
        using refused None by blast
      ultimately show ?thesis using sc checked None False by blast
    qed
  qed
qed

text \<open>An example: a store that keeps the approvals it is given.\<close>

definition demo_admin :: "((string \<times> string list option) list, string list) admin_ops" where
  "demo_admin =
     \<lparr>GetMeta = (\<lambda>st k. Inr ''ja3''), LastFingerprint = (\<lambda>st. Inr []), ResetFingerprints = (\<lambda>st. (Inr 0, st)),
      SetMeta = (\<lambda>st k v. (None, st)), metaFingerprintMethod = ''m'', SetStatus = (\<lambda>st fp s. (None, st)), SetLabel = (\<lambda>st fp l. (None, st)),
      UpsertStatus = (\<lambda>st fp s l. (None, (fp, None) # st)), GetLabel = (\<lambda>st fp. Inr ''old''),
      ApplyDecision = (\<lambda>st fp s l sc. (None, (fp, sc) # st)), DeleteEntry = (\<lambda>st fp. (None, st))\<rparr>"

lemma approve_restricted_witness:
  "cmdApprove demo_admin Inr [] ''f'' [] ''r,s'' False False = (None, [(''f'', Some [''r'', ''s''])]) \<and>
   (\<exists>l. ApplyDecision demo_admin [] ''f'' StatusApproved l (Some [''r'', ''s'']) = (None, [(''f'', Some [''r'', ''s''])]))"
proof -
  have split: "split_char (CHR '','') ''r,s'' = [''r'', ''s'']" by simp
  have run: "cmdApprove demo_admin Inr [] ''f'' [] ''r,s'' False False = (None, [(''f'', Some [''r'', ''s''])])"
    by (simp add: cmdApprove_def approveWithScope_def demo_admin_def)
  have "\<exists>sc st1 l. Inr (split_char (CHR '','') ''r,s'') = (Inr sc :: string + string list) \<and>
      ApplyDecision demo_admin st1 ''f'' StatusApproved l (Some sc) = (None, [(''f'', Some [''r'', ''s''])]) \<and> st1 = []"
    using approve_restricted [OF run] by auto
  then show ?thesis using run unfolding split by auto
qed

end
