(* ===== verification/Correlate.thy ===== *)
theory Correlate
  imports Smtp_Batch Commands
begin

text \<open>
  The \<open>correlate\<close> command (\<open>correlate.go\<close>): finding a fingerprint by a prefix, and the lines of
  a mail log that name one of its addresses near the times it was seen. The parsers of
  times and the calendar are arguments, and so is the order in which Go ranges over the set of
  addresses, which may differ from line to line.
\<close>

section \<open>Finding the fingerprint\<close>

datatype find_error = FingerprintNotFound | FingerprintAmbiguous "string list"

text \<open>The stored fingerprints as a list with distinct keys.\<close>

definition findFingerprint :: "(string \<times> 'e) list \<Rightarrow> string \<Rightarrow> find_error + (string \<times> 'e)" where
  "findFingerprint fps query =
     (case map_of fps query of
        Some e \<Rightarrow> Inr (query, e)
      | None \<Rightarrow>
          (case sort (filter (\<lambda>fp. has_prefix fp query) (map fst fps)) of
             [] \<Rightarrow> Inl FingerprintNotFound
           | [fp] \<Rightarrow> Inr (fp, the (map_of fps fp))
           | found \<Rightarrow> Inl (FingerprintAmbiguous found)))"

section \<open>Addresses in a line\<close>

text \<open>\<open>strings.Index\<close>.\<close>

fun Index :: "string \<Rightarrow> string \<Rightarrow> nat option" where
  "Index s p = (if has_prefix s p then Some 0 else case s of [] \<Rightarrow> None | _ # s' \<Rightarrow> map_option Suc (Index s' p))"

declare Index.simps [simp del]

definition ip_char :: "char \<Rightarrow> bool" where
  "ip_char c \<longleftrightarrow> c = CHR ''.'' \<or> c = CHR '':'' \<or> is_digit c \<or>
     (CHR ''a'' \<le> c \<and> c \<le> CHR ''f'') \<or> (CHR ''A'' \<le> c \<and> c \<le> CHR ''F'')"

definition ipBoundaryByte :: "string \<Rightarrow> int \<Rightarrow> bool" where
  "ipBoundaryByte line i = (if i < 0 \<or> i \<ge> int (length line) then False else ip_char (line ! nat i))"

text \<open>The loop of \<open>lineHasIPToken\<close>; slicing beyond the end of the line panics.\<close>

function has_ip_from :: "string \<Rightarrow> string \<Rightarrow> nat \<Rightarrow> (find_error, bool) go" where
  "has_ip_from line ip from =
     ebind (slice line from (length line)) (\<lambda>rest.
       case Index rest ip of
         None \<Rightarrow> Inr False
       | Some i \<Rightarrow>
           if \<not> ipBoundaryByte line (int (from + i) - 1) \<and> \<not> ipBoundaryByte line (int (from + i + length ip)) then Inr True
           else has_ip_from line ip (from + i + 1))"
  by pat_completeness auto
termination
  by (relation "measure (\<lambda>(line, ip, from). length line + 1 - from)") (auto simp: slice_def split: if_splits)

declare has_ip_from.simps [simp del]

definition lineHasIPToken :: "string \<Rightarrow> string \<Rightarrow> (find_error, bool) go" where
  "lineHasIPToken line ip = has_ip_from line ip 0"

text \<open>The range over the set of addresses, in the order it takes.\<close>

fun lineContainsAnyIP :: "string \<Rightarrow> string list \<Rightarrow> (find_error, string option) go" where
  "lineContainsAnyIP line [] = Inr None"
| "lineContainsAnyIP line (ip # ips) =
     ebind (lineHasIPToken line ip) (\<lambda>found. if found then Inr (Some ip) else lineContainsAnyIP line ips)"

section \<open>Times\<close>

text \<open>
  \<open>cl_stamp ref p\<close> is the syslog stamp \<open>p\<close> in the year and the location of \<open>ref\<close>; \<open>cl_months\<close> and
  \<open>cl_years\<close> are \<open>Time.AddDate\<close>.
\<close>

record syslog_clock =
  cl_rfc3339 :: "string \<Rightarrow> time option"
  cl_stamp :: "time \<Rightarrow> string \<Rightarrow> time option"
  cl_months :: "time \<Rightarrow> int \<Rightarrow> time"
  cl_years :: "time \<Rightarrow> int \<Rightarrow> time"

definition syslog_stamp_time :: "syslog_clock \<Rightarrow> string \<Rightarrow> time \<Rightarrow> time option" where
  "syslog_stamp_time clock line ref =
     (if length line < length ''Jan  2 15:04:05'' then None
      else (case cl_stamp clock ref (take (length ''Jan  2 15:04:05'') line) of
          None \<Rightarrow> None
        | Some at \<Rightarrow>
            Some (if at > cl_months clock ref 6 then cl_years clock at (-1)
              else if at < cl_months clock ref (-6) then cl_years clock at 1
              else at)))"

definition parseSyslogTime :: "syslog_clock \<Rightarrow> string \<Rightarrow> time \<Rightarrow> time option" where
  "parseSyslogTime clock line ref =
     (case Fields line of
        [] \<Rightarrow> syslog_stamp_time clock line ref
      | f # _ \<Rightarrow> (case cl_rfc3339 clock f of Some at \<Rightarrow> Some at | None \<Rightarrow> syslog_stamp_time clock line ref))"

definition withinWindow :: "time \<Rightarrow> time \<Rightarrow> int \<Rightarrow> bool" where
  "withinWindow t center window = (if center = 0 then False else \<not> t < center - window \<and> \<not> t > center + window)"

definition withinCorrelationWindows :: "time \<Rightarrow> 'sc stored_entry \<Rightarrow> int \<Rightarrow> bool" where
  "withinCorrelationWindows t e window \<longleftrightarrow> withinWindow t (se_FirstSeen e) window \<or> withinWindow t (se_LastSeen e) window"

section \<open>Mail logs\<close>

definition isUsefulMailLog :: "string \<Rightarrow> bool" where
  "isUsefulMailLog line =
     (let low = ToLower line in
      if contains_str low ''tlsgate'' then False
      else list_ex (contains_str low)
        [''dovecot'', ''postfix'', ''sogod'', ''/sogo/'', ''imap-login'', ''sasl_username='', ''mailcow''])"

definition logSource :: "string \<Rightarrow> string" where
  "logSource line =
     (let low = ToLower line in
      if contains_str low ''dovecot'' \<or> contains_str low ''imap-login'' then ''dovecot''
      else if contains_str low ''postfix'' then ''postfix''
      else if contains_str low ''sogod'' \<or> contains_str low ''/sogo/'' then ''sogo''
      else if contains_str low ''mailcow'' then ''mailcow''
      else [])"

definition userPatterns :: "re list" where
  "userPatterns =
     [Seq [Lit ''user=<'', Group 1 (Plus (Not ''>'')), Lit ''>''],
      Seq [Lit ''sasl_username='', Group 1 (Plus (Sym (\<lambda>c. c \<noteq> CHR '','' \<and> \<not> re_space c)))],
      Seq [Lit ''login: '', Group 1 (Plus (Sym (\<lambda>c. c \<noteq> CHR '','' \<and> \<not> re_space c)))],
      Seq [Space, Lit ''-'', Space, Group 1 (Plus (Not '' ['')), Plus Space, Lit ''[''],
      Seq [Lit ''/SOGo/dav/'', Group 1 (Plus (Sym (\<lambda>c. c \<noteq> CHR ''/'' \<and> c \<noteq> CHR 0x22 \<and> \<not> re_space c)))]]"

text \<open>\<open>url.PathUnescape\<close>.\<close>

definition unhex :: "char \<Rightarrow> nat option" where
  "unhex c =
     (if is_digit c then Some (of_char c - 48)
      else if CHR ''a'' \<le> c \<and> c \<le> CHR ''f'' then Some (of_char c - 87)
      else if CHR ''A'' \<le> c \<and> c \<le> CHR ''F'' then Some (of_char c - 55)
      else None)"

fun PathUnescape :: "string \<Rightarrow> string option" where
  "PathUnescape [] = Some []"
| "PathUnescape (c # s) =
     (if c = CHR ''%'' then
        (case s of
           a # b # rest \<Rightarrow>
             (case (unhex a, unhex b) of
                (Some x, Some y) \<Rightarrow> map_option (\<lambda>t. char_of (16 * x + y) # t) (PathUnescape rest)
              | _ \<Rightarrow> None)
         | _ \<Rightarrow> None)
      else map_option (\<lambda>t. c # t) (PathUnescape s))"

fun first_user :: "re list \<Rightarrow> string \<Rightarrow> string" where
  "first_user [] line = []"
| "first_user (p # ps) line =
     (case FindSubmatch p line of
        None \<Rightarrow> first_user ps line
      | Some m \<Rightarrow>
          (let user = trim_right (\<lambda>c. c \<in> set ''<>,'') (dropWhile (\<lambda>c. c \<in> set ''<>,'') (group m 1)) in
           case PathUnescape user of Some decoded \<Rightarrow> decoded | None \<Rightarrow> user))"

definition extractUser :: "string \<Rightarrow> string" where
  "extractUser line = first_user userPatterns line"

section \<open>The matches\<close>

record log_match =
  lm_when :: time
  lm_ip :: string
  lm_source :: string
  lm_user :: string
  lm_line :: string

text \<open>
  One line: its match, if it has one. \<open>order\<close> is the order of the range over the addresses for
  this line.
\<close>

definition line_match :: "syslog_clock \<Rightarrow> string list \<Rightarrow> 'sc stored_entry \<Rightarrow> int \<Rightarrow> string \<Rightarrow> (find_error, log_match option) go" where
  "line_match clock order e window line =
     (if \<not> isUsefulMailLog line then Inr None
      else ebind (lineContainsAnyIP line order) (\<lambda>found.
        case found of
          None \<Rightarrow> Inr None
        | Some ip \<Rightarrow>
            (case parseSyslogTime clock line (se_LastSeen e) of
               None \<Rightarrow> Inr None
             | Some at \<Rightarrow>
                 if \<not> withinCorrelationWindows at e window then Inr None
                 else Inr (Some \<lparr>lm_when = at, lm_ip = ip, lm_source = logSource line, lm_user = extractUser line, lm_line = line\<rparr>))))"

text \<open>
  The lines as \<open>bufio.Scanner\<close> yields them, \<open>None\<close> for a line that does not fit its buffer of one
  MiB; the last line need not be ended.
\<close>

definition scan_items :: "string \<Rightarrow> string option list" where
  "scan_items text =
     (let ls = split_char (CHR 0x0A) text;
          ls = (if last ls = [] then butlast ls else ls)
      in map (\<lambda>l. if length l \<ge> maxSMTPBatchLine then None else Some (drop_cr l)) ls)"

datatype correlate_error = LogMissing | LogLineTooLong | LogPanic

fun correlate_loop ::
  "syslog_clock \<Rightarrow> (string \<Rightarrow> string list) \<Rightarrow> 'sc stored_entry \<Rightarrow> int \<Rightarrow> int \<Rightarrow> log_match list \<Rightarrow> string option list \<Rightarrow>
     correlate_error + log_match list" where
  "correlate_loop clock order e window limit acc [] = Inr acc"
| "correlate_loop clock order e window limit acc (None # items) = Inl LogLineTooLong"
| "correlate_loop clock order e window limit acc (Some line # items) =
     (case line_match clock (order line) e window line of
        Inl _ \<Rightarrow> Inl LogPanic
      | Inr None \<Rightarrow> correlate_loop clock order e window limit acc items
      | Inr (Some m) \<Rightarrow>
          if limit > 0 \<and> int (length (acc @ [m])) \<ge> limit then Inr (acc @ [m])
          else correlate_loop clock order e window limit (acc @ [m]) items)"

definition correlateSyslog ::
  "syslog_clock \<Rightarrow> (string \<Rightarrow> string list) \<Rightarrow> string option \<Rightarrow> 'sc stored_entry \<Rightarrow> int \<Rightarrow> int \<Rightarrow> correlate_error + log_match list" where
  "correlateSyslog clock order file e window limit =
     (case file of None \<Rightarrow> Inl LogMissing | Some text \<Rightarrow> correlate_loop clock order e window limit [] (scan_items text))"

text \<open>The command on an opened store: the fingerprint it reports on, and one row for each line found.\<close>

datatype correlate_failure =
    CorrelateFind find_error
  | CorrelateNoIPs string
  | CorrelateLog correlate_error

definition match_row :: "(time \<Rightarrow> string) \<Rightarrow> log_match \<Rightarrow> string list" where
  "match_row fmt_time m =
     [fmt_time (lm_when m), lm_ip m, valueOrDash (lm_source m), valueOrDash (sanitizeLog (lm_user m)), sanitizeLog (lm_line m)]"

definition cmdCorrelate ::
  "syslog_clock \<Rightarrow> (time \<Rightarrow> string) \<Rightarrow> (string \<Rightarrow> string list) \<Rightarrow> string option \<Rightarrow> (string \<times> 'sc stored_entry) list \<Rightarrow> string \<Rightarrow> int \<Rightarrow> int \<Rightarrow>
     correlate_failure + (string \<times> string \<times> string list list)" where
  "cmdCorrelate clock fmt_time order file fps query window limit =
     (case findFingerprint fps query of
        Inl e \<Rightarrow> Inl (CorrelateFind e)
      | Inr (fp, e) \<Rightarrow>
          if se_IPs e = [] then Inl (CorrelateNoIPs fp)
          else (case correlateSyslog clock order file e window limit of
              Inl err \<Rightarrow> Inl (CorrelateLog err)
            | Inr ms \<Rightarrow> Inr (displayValue fp, if se_Label e = [] then [] else displayValue (se_Label e), map (match_row fmt_time) ms)))"

section \<open>An address is found as a whole\<close>

lemma Index_None: "Index s p = None \<longleftrightarrow> (\<forall>k \<le> length s. \<not> has_prefix (drop k s) p)"
proof (induction s)
  case Nil
  then show ?case by (simp add: Index.simps)
next
  case (Cons c s)
  have "(\<forall>k \<le> length (c # s). \<not> has_prefix (drop k (c # s)) p) \<longleftrightarrow>
      \<not> has_prefix (c # s) p \<and> (\<forall>k \<le> length s. \<not> has_prefix (drop k s) p)"
    by (simp only: less_Suc_eq_le [symmetric] length_Cons All_less_Suc2 drop_Suc_Cons drop_0)
  then show ?case using Cons by (simp add: Index.simps [of "c # s"])
qed

lemma Index_Some:
  "Index s p = Some i \<Longrightarrow> i \<le> length s \<and> has_prefix (drop i s) p \<and> (\<forall>k < i. \<not> has_prefix (drop k s) p)"
proof (induction s arbitrary: i)
  case Nil
  then show ?case by (simp add: Index.simps split: if_splits)
next
  case (Cons c s)
  show ?case
  proof (cases "has_prefix (c # s) p")
    case True
    then show ?thesis using Cons.prems by (simp add: Index.simps)
  next
    case False
    with Cons.prems obtain j where j: "Index s p = Some j" "i = Suc j"
      by (auto simp: Index.simps [of "c # s"])
    have "\<not> has_prefix (drop k (c # s)) p" if "k < i" for k
      using that Cons.IH [OF j(1)] False j(2) by (cases k) auto
    then show ?thesis using Cons.IH [OF j(1)] j(2) by auto
  qed
qed

text \<open>An occurrence of \<open>ip\<close> at \<open>k\<close> that no character of an address touches.\<close>

definition token_at :: "string \<Rightarrow> string \<Rightarrow> nat \<Rightarrow> bool" where
  "token_at line ip k \<longleftrightarrow> k \<le> length line \<and> has_prefix (drop k line) ip \<and>
     \<not> ipBoundaryByte line (int k - 1) \<and> \<not> ipBoundaryByte line (int (k + length ip))"

lemma has_ip_from_exact:
  "ip \<noteq> [] \<Longrightarrow> from \<le> length line \<Longrightarrow> has_ip_from line ip from = Inr (\<exists>k \<ge> from. token_at line ip k)"
proof (induction line ip "from" rule: has_ip_from.induct)
  case (1 line ip "from")
  have rest: "slice line from (length line) = Inr (drop from line)" using "1.prems" by simp
  have drop: "drop k line = drop (k - from) (drop from line)" if "from \<le> k" for k using that by simp
  show ?case
  proof (cases "Index (drop from line) ip")
    case None
    then have "\<not> token_at line ip k" if "from \<le> k" for k
      using that drop [OF that] None [unfolded Index_None, rule_format, of "k - from"] by (auto simp: token_at_def diff_le_mono)
    then show ?thesis using None by (subst has_ip_from.simps) (auto simp: rest)
  next
    case (Some i)
    let ?k = "from + i"
    from Index_Some [OF Some] have i: "?k \<le> length line" "has_prefix (drop ?k line) ip" "\<forall>j < i. \<not> has_prefix (drop j (drop from line)) ip"
      using "1.prems" by (auto simp: add.commute)
    have "?k < length line" using i(1,2) "1.prems"(1) by (cases "?k = length line") (auto simp: has_prefix_def)
    have before: "\<not> token_at line ip k" if "from \<le> k" "k < ?k" for k
    proof -
      have "k - from < i" using that by linarith
      then have "\<not> has_prefix (drop (k - from) (drop from line)) ip" using i(3) by blast
      then show ?thesis by (simp only: token_at_def drop [OF that(1)]) blast
    qed
    have at: "token_at line ip ?k \<longleftrightarrow> \<not> ipBoundaryByte line (int ?k - 1) \<and> \<not> ipBoundaryByte line (int (?k + length ip))"
      using i by (simp add: token_at_def)
    show ?thesis
    proof (cases "token_at line ip ?k")
      case True
      then have "has_ip_from line ip from = Inr True"
        using at by (subst has_ip_from.simps) (simp add: rest Some)
      then show ?thesis using True by (auto intro: exI [of _ ?k])
    next
      case False
      then have "has_ip_from line ip from = has_ip_from line ip (?k + 1)"
        using at by (subst has_ip_from.simps) (auto simp: rest Some)
      also have "\<dots> = Inr (\<exists>k \<ge> ?k + 1. token_at line ip k)"
        by (rule "1.IH") (use "1.prems"(1) rest Some False at \<open>?k < length line\<close> in auto)
      also have "(\<exists>k \<ge> ?k + 1. token_at line ip k) \<longleftrightarrow> (\<exists>k \<ge> from. token_at line ip k)"
      proof
        assume "\<exists>k \<ge> from. token_at line ip k"
        then obtain k where k: "from \<le> k" "token_at line ip k" by blast
        then have "?k \<le> k" "k \<noteq> ?k" using before [of k] False by (auto simp: not_less [symmetric])
        then show "\<exists>k \<ge> ?k + 1. token_at line ip k" using k(2) by (intro exI [of _ k]) simp
      next
        assume "\<exists>k \<ge> ?k + 1. token_at line ip k"
        then obtain k where "?k + 1 \<le> k" "token_at line ip k" by blast
        then show "\<exists>k \<ge> from. token_at line ip k" by (intro exI [of _ k]) simp
      qed
      finally show ?thesis .
    qed
  qed
qed

text \<open>The same as a split of the line.\<close>

definition whole_address :: "string \<Rightarrow> string \<Rightarrow> bool" where
  "whole_address line ip \<longleftrightarrow> (\<exists>pre post. line = pre @ ip @ post \<and>
     (pre = [] \<or> \<not> ip_char (last pre)) \<and> (post = [] \<or> \<not> ip_char (hd post)))"

lemma token_at_split: "token_at line ip k \<longleftrightarrow> (\<exists>pre post. line = pre @ ip @ post \<and> length pre = k \<and>
     (pre = [] \<or> \<not> ip_char (last pre)) \<and> (post = [] \<or> \<not> ip_char (hd post)))"
proof
  assume t: "token_at line ip k"
  then obtain post where post: "drop k line = ip @ post" by (auto simp: token_at_def has_prefix_iff prefix_def)
  have line: "line = take k line @ ip @ post" unfolding post [symmetric] by simp
  have len: "length (take k line) = k" using t by (simp add: token_at_def)
  have "take k line = [] \<or> \<not> ip_char (last (take k line))"
    using t by (cases k) (auto simp: token_at_def ipBoundaryByte_def last_conv_nth)
  moreover have "post = [] \<or> \<not> ip_char (hd post)"
  proof (cases post)
    case (Cons c cs)
    have "line ! (k + length ip) = drop k line ! length ip" using t by (simp add: token_at_def)
    then have "line ! (k + length ip) = c" by (simp add: post nth_append Cons)
    moreover have "k + length ip < length line" using len Cons by (subst line) simp
    ultimately show ?thesis using t Cons by (auto simp: token_at_def ipBoundaryByte_def nat_add_distrib)
  qed simp
  ultimately show "\<exists>pre post. line = pre @ ip @ post \<and> length pre = k \<and>
     (pre = [] \<or> \<not> ip_char (last pre)) \<and> (post = [] \<or> \<not> ip_char (hd post))"
    using line len by blast
next
  assume "\<exists>pre post. line = pre @ ip @ post \<and> length pre = k \<and>
     (pre = [] \<or> \<not> ip_char (last pre)) \<and> (post = [] \<or> \<not> ip_char (hd post))"
  then obtain pre post where p: "line = pre @ ip @ post" "length pre = k" "pre = [] \<or> \<not> ip_char (last pre)"
    "post = [] \<or> \<not> ip_char (hd post)" by blast
  have "\<not> ipBoundaryByte line (int k - 1)"
    using p by (cases pre rule: rev_cases) (auto simp: ipBoundaryByte_def nth_append)
  moreover have "\<not> ipBoundaryByte line (int (k + length ip))"
    using p by (cases post) (auto simp: ipBoundaryByte_def nth_append nat_add_distrib)
  ultimately show "token_at line ip k" using p by (simp add: token_at_def has_prefix_def)
qed

lemma lineHasIPToken_exact: "ip \<noteq> [] \<Longrightarrow> lineHasIPToken line ip = Inr (whole_address line ip)"
  unfolding lineHasIPToken_def whole_address_def by (subst has_ip_from_exact) (auto simp: token_at_split)


lemma lineContainsAnyIP_exact:
  "(\<And>ip. ip \<in> set ips \<Longrightarrow> ip \<noteq> []) \<Longrightarrow> lineContainsAnyIP line ips = Inr (find (whole_address line) ips)"
  by (induction ips) (simp_all add: lineHasIPToken_exact)

section \<open>The report of a log\<close>

text \<open>What a line has to be to be reported.\<close>

definition reports :: "syslog_clock \<Rightarrow> 'sc stored_entry \<Rightarrow> int \<Rightarrow> string \<Rightarrow> bool" where
  "reports clock e window line \<longleftrightarrow> isUsefulMailLog line \<and> (\<exists>ip \<in> set (se_IPs e). whole_address line ip) \<and>
     (\<exists>t. parseSyslogTime clock line (se_LastSeen e) = Some t \<and> withinCorrelationWindows t e window)"

definition match_of :: "syslog_clock \<Rightarrow> 'sc stored_entry \<Rightarrow> int \<Rightarrow> log_match \<Rightarrow> bool" where
  "match_of clock e window m \<longleftrightarrow> lm_ip m \<in> set (se_IPs e) \<and> whole_address (lm_line m) (lm_ip m) \<and>
     parseSyslogTime clock (lm_line m) (se_LastSeen e) = Some (lm_when m) \<and> withinCorrelationWindows (lm_when m) e window \<and>
     lm_source m = logSource (lm_line m) \<and> lm_user m = extractUser (lm_line m)"

lemma line_match_exact:
  assumes "\<And>ip. ip \<in> set (se_IPs e) \<Longrightarrow> ip \<noteq> []" "set order = set (se_IPs e)"
  shows "\<exists>r. line_match clock order e window line = Inr r \<and> (r = None \<longleftrightarrow> \<not> reports clock e window line) \<and>
     (\<forall>m. r = Some m \<longrightarrow> match_of clock e window m \<and> lm_line m = line)"
proof -
  have found: "lineContainsAnyIP line order = Inr (find (whole_address line) order)"
    by (rule lineContainsAnyIP_exact) (use assms in auto)
  show ?thesis
  proof (cases "find (whole_address line) order")
    case None
    then have "\<not> reports clock e window line" using assms(2) by (auto simp: reports_def find_None_iff)
    then show ?thesis using None by (simp add: line_match_def found)
  next
    case (Some ip)
    then have ip: "ip \<in> set (se_IPs e)" "whole_address line ip" using assms(2) by (auto simp: find_Some_iff)
    then show ?thesis
      by (cases "parseSyslogTime clock line (se_LastSeen e)")
        (auto simp: line_match_def found Some reports_def match_of_def)
  qed
qed

definition cut :: "int \<Rightarrow> 'a list \<Rightarrow> 'a list" where
  "cut limit xs = (if limit > 0 then take (nat limit) xs else xs)"

text \<open>The lines before the first that does not fit the buffer.\<close>

definition readable :: "string option list \<Rightarrow> string list" where
  "readable items = map the (takeWhile (\<lambda>i. i \<noteq> None) items)"

lemma correlate_loop_exact:
  assumes "\<And>ip. ip \<in> set (se_IPs e) \<Longrightarrow> ip \<noteq> []" "\<And>line. set (order line) = set (se_IPs e)"
    and "\<And>m. m \<in> set acc \<Longrightarrow> match_of clock e window m" and "limit > 0 \<Longrightarrow> int (length acc) < limit"
  shows "(\<exists>ms. correlate_loop clock order e window limit acc items = Inr ms \<and> (\<forall>m \<in> set ms. match_of clock e window m) \<and>
       map lm_line ms = map lm_line acc @ cut (limit - int (length acc)) (filter (reports clock e window) (readable items))) \<or>
     (correlate_loop clock order e window limit acc items = Inl LogLineTooLong \<and> None \<in> set items \<and>
       (limit > 0 \<longrightarrow> int (length (filter (reports clock e window) (readable items))) < limit - int (length acc)))"
  using assms(3,4)
proof (induction items arbitrary: acc)
  case Nil
  then show ?case by (simp add: readable_def cut_def)
next
  case (Cons item items)
  show ?case
  proof (cases item)
    case None
    then show ?thesis using Cons.prems(2) by (simp add: readable_def)
  next
    case (Some line)
    let ?left = "filter (reports clock e window) (readable items)"
    have readable: "readable (Some line # items) = line # readable items" by (simp add: readable_def)
    obtain r where r: "line_match clock (order line) e window line = Inr r" "r = None \<longleftrightarrow> \<not> reports clock e window line"
      "\<forall>m. r = Some m \<longrightarrow> match_of clock e window m \<and> lm_line m = line"
      using line_match_exact [of e "order line" clock window line] assms(1,2) by blast
    show ?thesis
    proof (cases r)
      case None
      then show ?thesis using Cons.IH [OF Cons.prems] r by (simp add: Some readable)
    next
      case (Some m)
      have m: "match_of clock e window m" "lm_line m = line" "reports clock e window line" using r Some by auto
      show ?thesis
      proof (cases "limit > 0 \<and> int (length (acc @ [m])) \<ge> limit")
        case True
        then have "limit - int (length acc) = 1" using Cons.prems(2) by simp
        then show ?thesis
          using True r(1) m Cons.prems(1) \<open>item = Some line\<close> by (auto simp: Some readable cut_def)
      next
        case False
        then have cut: "cut (limit - int (length acc)) (line # ?left) = line # cut (limit - int (length (acc @ [m]))) ?left"
        proof -
          have "nat (limit - int (length acc)) = Suc (nat (limit - int (length (acc @ [m]))))" if "limit > 0"
            using False that by simp
          then show ?thesis using False Cons.prems(2) by (auto simp: cut_def)
        qed
        have step: "correlate_loop clock order e window limit acc (Some line # items) = correlate_loop clock order e window limit (acc @ [m]) items"
          using False r(1) Some by auto
        have filt: "filter (reports clock e window) (readable (Some line # items)) = line # ?left" using readable m(3) by simp
        have "(\<exists>ms. correlate_loop clock order e window limit (acc @ [m]) items = Inr ms \<and> (\<forall>m \<in> set ms. match_of clock e window m) \<and>
            map lm_line ms = map lm_line (acc @ [m]) @ cut (limit - int (length (acc @ [m]))) ?left) \<or>
          (correlate_loop clock order e window limit (acc @ [m]) items = Inl LogLineTooLong \<and> None \<in> set items \<and>
            (limit > 0 \<longrightarrow> int (length ?left) < limit - int (length (acc @ [m]))))"
          by (rule Cons.IH) (use Cons.prems(1) m(1) False in auto)
        then show ?thesis
          unfolding \<open>item = Some line\<close> step filt cut by (elim disjE exE conjE) (auto simp: m(2))
      qed
    qed
  qed
qed


text \<open>
  C39: the report of \<open>correlate\<close> is exact. When no stored address is empty, no line makes the
  search panic, whatever order Go ranges in; the reported lines are the first \<open>limit\<close>
  (all of them without a positive limit) of exactly those lines that concern mail, name an
  address of the fingerprint as a whole, untouched by a character of a longer address, and
  have a time within the window of the first or the last time the fingerprint was seen; each is
  reported with one such address and that time; and the only other outcomes are a missing log
  and a line that does not fit the buffer before the limit is reached.
\<close>

theorem correlate_exact:
  assumes "\<And>ip. ip \<in> set (se_IPs e) \<Longrightarrow> ip \<noteq> []" and "\<And>line. set (order line) = set (se_IPs e)"
  shows "(\<exists>ms. correlateSyslog clock order (Some text) e window limit = Inr ms \<and>
       map lm_line ms = cut limit (filter (\<lambda>line. isUsefulMailLog line \<and>
         (\<exists>ip \<in> set (se_IPs e). \<exists>pre post. line = pre @ ip @ post \<and> (pre = [] \<or> \<not> ip_char (last pre)) \<and> (post = [] \<or> \<not> ip_char (hd post))) \<and>
         (\<exists>t. parseSyslogTime clock line (se_LastSeen e) = Some t \<and> withinCorrelationWindows t e window)) (readable (scan_items text))) \<and>
       (\<forall>m \<in> set ms. lm_ip m \<in> set (se_IPs e) \<and> whole_address (lm_line m) (lm_ip m) \<and>
          parseSyslogTime clock (lm_line m) (se_LastSeen e) = Some (lm_when m) \<and> withinCorrelationWindows (lm_when m) e window)) \<or>
     (correlateSyslog clock order (Some text) e window limit = Inl LogLineTooLong \<and> None \<in> set (scan_items text))"
proof -
  have "(\<lambda>line. isUsefulMailLog line \<and>
         (\<exists>ip \<in> set (se_IPs e). \<exists>pre post. line = pre @ ip @ post \<and> (pre = [] \<or> \<not> ip_char (last pre)) \<and> (post = [] \<or> \<not> ip_char (hd post))) \<and>
         (\<exists>t. parseSyslogTime clock line (se_LastSeen e) = Some t \<and> withinCorrelationWindows t e window)) = reports clock e window"
    by (simp add: fun_eq_iff reports_def whole_address_def)
  then show ?thesis
    using correlate_loop_exact [of e order "[]" clock window limit "scan_items text"] assms
    by (simp add: correlateSyslog_def match_of_def) blast
qed

definition demo_clock :: syslog_clock where
  "demo_clock = \<lparr>cl_rfc3339 = (\<lambda>s. if s = ''5'' then Some 5 else None), cl_stamp = (\<lambda>r s. None), cl_months = (\<lambda>t n. t), cl_years = (\<lambda>t n. t)\<rparr>"

definition demo_entry :: "unit stored_entry" where
  "demo_entry = \<lparr>se_Status = StatusPending, se_Label = [], se_Count = 1, se_FirstSeen = 4, se_LastSeen = 9, se_IPs = [''1.1''], se_Meta = Map.empty,
     se_Scope = None\<rparr>"

definition demo_log :: string where
  "demo_log = ''5 postfix 1.12'' @ [CHR 0x0A] @ ''5 postfix 1.1''"

lemma ToLower_fixed:
  assumes "is_ascii s" "list_all (\<lambda>c. \<not> is_upper c) s"
  shows "ToLower s = s"
proof -
  have "List.map_filter (\<lambda>r. Some (lower_rune r)) (codes s) = codes s"
    using assms
    by (induction s) (auto simp: codes_def lower_rune_def is_ascii_def is_upper_iff List.map_filter_def)
  moreover have "string_of_runes (codes s) = s"
    using assms(1) by (subst string_of_runes_ascii) (auto simp: codes_def is_ascii_def list_all_iff comp_def)
  ultimately show ?thesis by (simp add: ToLower_def map_runes_def runes_ascii assms(1))
qed

lemma demo_items: "scan_items demo_log = [Some ''5 postfix 1.12'', Some ''5 postfix 1.1'']"
  by (simp add: scan_items_def demo_log_def maxSMTPBatchLine_def drop_cr_def)

lemma demo_pieces:
  "ToLower ''5 postfix 1.12'' = ''5 postfix 1.12''" "ToLower ''5 postfix 1.1'' = ''5 postfix 1.1''"
  "Fields ''5 postfix 1.1'' = [''5'', ''postfix'', ''1.1'']"
  by (simp_all add: ToLower_fixed is_ascii_def is_upper_def Fields_def fields_of.simps segments.simps codes_def IsSpace_def)

lemma demo_tokens:
  "lineHasIPToken ''5 postfix 1.12'' ''1.1'' = Inr False" "lineHasIPToken ''5 postfix 1.1'' ''1.1'' = Inr True"
  "extractUser ''5 postfix 1.1'' = []"
  by code_simp+

lemma demo_loop:
  "correlate_loop demo_clock (\<lambda>l. [''1.1'']) demo_entry 2 100 [] [Some ''5 postfix 1.12'', Some ''5 postfix 1.1''] =
     Inr [\<lparr>lm_when = 5, lm_ip = ''1.1'', lm_source = ''postfix'', lm_user = [], lm_line = ''5 postfix 1.1''\<rparr>]"
  by (simp add: line_match_def isUsefulMailLog_def logSource_def demo_pieces demo_tokens parseSyslogTime_def demo_clock_def
      demo_entry_def withinCorrelationWindows_def withinWindow_def has_prefix_def)

lemma correlate_exact_witness:
  "\<exists>ms. correlateSyslog demo_clock (\<lambda>l. [''1.1'']) (Some demo_log) demo_entry 2 100 = Inr ms \<and>
     map lm_line ms = [''5 postfix 1.1''] \<and> (\<forall>m \<in> set ms. whole_address (lm_line m) (lm_ip m))"
proof -
  have run: "correlateSyslog demo_clock (\<lambda>l. [''1.1'']) (Some demo_log) demo_entry 2 100 =
      Inr [\<lparr>lm_when = 5, lm_ip = ''1.1'', lm_source = ''postfix'', lm_user = [], lm_line = ''5 postfix 1.1''\<rparr>]"
    by (simp add: correlateSyslog_def demo_items demo_loop del: correlate_loop.simps)
  have "whole_address ''5 postfix 1.1'' ''1.1''"
    using correlate_exact [of demo_entry "\<lambda>l. [''1.1'']" demo_clock demo_log 2 100] unfolding run by (simp add: demo_entry_def)
  then show ?thesis unfolding run by simp
qed

text \<open>An empty address in a line that ends in a character of addresses runs past the end of the line.\<close>

lemma lineHasIPToken_empty_panics: "lineHasIPToken ''a'' [] = Inl Panic"
  by (simp add: lineHasIPToken_def has_ip_from.simps Index.simps slice_def ipBoundaryByte_def ip_char_def has_prefix_def)

end
