(* ===== verification/Trusted_Ranges.thy ===== *)
theory Trusted_Ranges
  imports Source_Sets Net_Text Smtp_Behavior
begin

text \<open>
  Ranges pushed by Gatehub: the update of the allowlist and the publication of the ranges in a
  local file (\<open>trusted_ranges_file.go\<close>, \<open>dynamicRanges\<close> of \<open>alerts.go\<close> and the callback that
  \<open>cmdServe\<close> of \<open>proxy.go\<close> gives to the control plane). JSON and the results of the system calls are
  arguments. The theorem: whatever fails while the file is written, the allowlist follows the
  pushes, the file is never torn, and it is stale only while the writer knows that it is.
\<close>

section \<open>The file\<close>

definition trustedRangesFileVersion :: nat where
  "trustedRangesFileVersion = 1"

record trusted_document =
  td_Version :: nat
  td_Source :: string
  td_UpdatedAt :: time
  td_Ranges :: "string list"

text \<open>
  What each system call of one write comes to: \<open>io_written\<close> is how many bytes \<open>Write\<close> takes, the
  others say whether the call succeeds.
\<close>

record file_io =
  io_create :: bool
  io_written :: nat
  io_chmod :: bool
  io_sync :: bool
  io_close :: bool
  io_rename :: bool
  io_remove :: bool

text \<open>The directory: the content of the published file, and of temporary files left behind.\<close>

record ranges_dir =
  rg_file :: "string option"
  rg_temps :: "string list"

datatype write_error = MarshalFailed | CreateFailed | WriteFailed | ChmodFailed | SyncFailed | CloseFailed | RenameFailed

text \<open>The deferred removal of the temporary file after an error; its own error is ignored.\<close>

definition discard_temp :: "file_io \<Rightarrow> string \<Rightarrow> ranges_dir \<Rightarrow> ranges_dir" where
  "discard_temp io content d = (if io_remove io then d else d\<lparr>rg_temps := content # rg_temps d\<rparr>)"

definition writeTrustedRangesFile ::
  "(trusted_document \<Rightarrow> string option) \<Rightarrow> file_io \<Rightarrow> trusted_document \<Rightarrow> ranges_dir \<Rightarrow> write_error option \<times> ranges_dir" where
  "writeTrustedRangesFile marshal io doc d =
     (case marshal doc of
        None \<Rightarrow> (Some MarshalFailed, d)
      | Some text \<Rightarrow>
          (let data = text @ [CHR 0x0A] in
           if \<not> io_create io then (Some CreateFailed, d)
           else if io_written io < length data then (Some WriteFailed, discard_temp io (take (io_written io) data) d)
           else if \<not> io_chmod io then (Some ChmodFailed, discard_temp io data d)
           else if \<not> io_sync io then (Some SyncFailed, discard_temp io data d)
           else if \<not> io_close io then (Some CloseFailed, discard_temp io data d)
           else if \<not> io_rename io then (Some RenameFailed, discard_temp io data d)
           else (None, d\<lparr>rg_file := Some data\<rparr>)))"

text \<open>The writer; without a configured path there is none.\<close>

record ranges_writer =
  rw_dirty :: bool

definition newTrustedRangesWriter :: "string \<Rightarrow> ranges_writer option" where
  "newTrustedRangesWriter path = (if path = [] then None else Some \<lparr>rw_dirty = False\<rparr>)"

definition update_file ::
  "(trusted_document \<Rightarrow> string option) \<Rightarrow> time \<Rightarrow> file_io \<Rightarrow> string list \<Rightarrow> bool \<Rightarrow> ranges_writer option \<times> ranges_dir \<Rightarrow>
     write_error option \<times> ranges_writer option \<times> ranges_dir" where
  "update_file marshal now io ranges changed wd =
     (case wd of
        (None, d) \<Rightarrow> (None, None, d)
      | (Some w, d) \<Rightarrow>
          if \<not> changed \<and> \<not> rw_dirty w then (None, Some w, d)
          else (case writeTrustedRangesFile marshal io
              \<lparr>td_Version = trustedRangesFileVersion, td_Source = ''gatehub'', td_UpdatedAt = now, td_Ranges = ranges\<rparr> d of
                (err, d) \<Rightarrow> (err, Some (w\<lparr>rw_dirty := err \<noteq> None\<rparr>), d)))"

section \<open>A push\<close>

definition dynamicRanges :: "ip_allowlist \<Rightarrow> string list" where
  "dynamicRanges l = map Prefix_String (dynamic_nets l)"

record trust_state =
  ts_allow :: ip_allowlist
  ts_writer :: "ranges_writer option"
  ts_dir :: ranges_dir

text \<open>The callback; its result is the error for the control plane.\<close>

definition ApplyTrustedRanges ::
  "(trusted_document \<Rightarrow> string option) \<Rightarrow> time \<Rightarrow> file_io \<Rightarrow> string list \<Rightarrow> trust_state \<Rightarrow> string option \<times> trust_state" where
  "ApplyTrustedRanges marshal now io ranges st =
     (case replaceDynamic (ts_allow st) ranges of
        (Inl e, l) \<Rightarrow> (Some e, st\<lparr>ts_allow := l\<rparr>)
      | (Inr changed, l) \<Rightarrow>
          (case update_file marshal now io (dynamicRanges l) changed (ts_writer st, ts_dir st) of
             (_, w, d) \<Rightarrow> (None, st\<lparr>ts_allow := l, ts_writer := w, ts_dir := d\<rparr>)))"

definition apply_pushes :: "(trusted_document \<Rightarrow> string option) \<Rightarrow> trust_state \<Rightarrow> (time \<times> file_io \<times> string list) list \<Rightarrow> trust_state" where
  "apply_pushes marshal st ps = foldl (\<lambda>st (now, io, ranges). snd (ApplyTrustedRanges marshal now io ranges st)) st ps"

section \<open>The file follows the allowlist\<close>

text \<open>The content published for an allowlist at a time.\<close>

definition published :: "(trusted_document \<Rightarrow> string option) \<Rightarrow> time \<Rightarrow> ip_allowlist \<Rightarrow> string option" where
  "published marshal now l =
     map_option (\<lambda>s. s @ [CHR 0x0A])
       (marshal \<lparr>td_Version = trustedRangesFileVersion, td_Source = ''gatehub'', td_UpdatedAt = now, td_Ranges = dynamicRanges l\<rparr>)"

lemma write_result:
  assumes "writeTrustedRangesFile marshal io
      \<lparr>td_Version = trustedRangesFileVersion, td_Source = ''gatehub'', td_UpdatedAt = now, td_Ranges = dynamicRanges l\<rparr> d = (err, d')"
  shows "rg_file d' = (if err = None then published marshal now l else rg_file d)"
    and "err = None \<Longrightarrow> published marshal now l \<noteq> None"
    and "io_remove io \<Longrightarrow> rg_temps d' = rg_temps d"
  using assms
  by (auto simp: writeTrustedRangesFile_def published_def discard_temp_def Let_def split: option.splits if_splits)

text \<open>What a push does to the allowlist, the writer and the file.\<close>

lemma push_allow: "ts_allow (snd (ApplyTrustedRanges marshal now io ranges st)) = snd (replaceDynamic (ts_allow st) ranges)"
  by (auto simp: ApplyTrustedRanges_def split: prod.split sum.split)

definition dirty :: "trust_state \<Rightarrow> bool" where
  "dirty st \<longleftrightarrow> (case ts_writer st of None \<Rightarrow> False | Some w \<Rightarrow> rw_dirty w)"

lemma push_cases:
  fixes marshal now io ranges
  assumes "ts_writer st = Some w"
  defines "st' \<equiv> snd (ApplyTrustedRanges marshal now io ranges st)"
  shows "(ts_allow st' = ts_allow st \<and> ts_writer st' = ts_writer st \<and> ts_dir st' = ts_dir st \<and>
          (dirty st \<longrightarrow> fst (replaceDynamic (ts_allow st) ranges) \<in> range Inl)) \<or>
     (dynamicInitialized (ts_allow st') \<and> \<not> dirty st' \<and> ts_writer st' \<noteq> None \<and> published marshal now (ts_allow st') \<noteq> None \<and>
          rg_file (ts_dir st') = published marshal now (ts_allow st')) \<or>
     (dynamicInitialized (ts_allow st') \<and> dirty st' \<and> ts_writer st' \<noteq> None \<and> rg_file (ts_dir st') = rg_file (ts_dir st))"
    and "io_remove io \<Longrightarrow> rg_temps (ts_dir st') = rg_temps (ts_dir st)"
proof -
  obtain res l where r: "replaceDynamic (ts_allow st) ranges = (res, l)" by fastforce
  have shape: "(\<exists>e. res = Inl e \<and> l = ts_allow st) \<or> (res = Inr False \<and> l = ts_allow st \<and> dynamicInitialized l) \<or>
      (res = Inr True \<and> dynamicInitialized l)"
    using r by (auto simp: replaceDynamic_def Let_def split: sum.splits if_splits)
  obtain err d where wr: "writeTrustedRangesFile marshal io \<lparr>td_Version = trustedRangesFileVersion, td_Source = ''gatehub'',
      td_UpdatedAt = now, td_Ranges = dynamicRanges l\<rparr> (ts_dir st) = (err, d)"
    by fastforce
  note res = write_result [OF wr]
  consider (refused) e where "res = Inl e" "l = ts_allow st"
    | (idle) "res = Inr False" "l = ts_allow st" "\<not> rw_dirty w"
    | (attempt) changed where "res = Inr changed" "changed \<or> rw_dirty w" "dynamicInitialized l"
    using shape by blast
  then have both: "((ts_allow st' = ts_allow st \<and> ts_writer st' = ts_writer st \<and> ts_dir st' = ts_dir st \<and>
          (dirty st \<longrightarrow> fst (replaceDynamic (ts_allow st) ranges) \<in> range Inl)) \<or>
     (dynamicInitialized (ts_allow st') \<and> \<not> dirty st' \<and> ts_writer st' \<noteq> None \<and> published marshal now (ts_allow st') \<noteq> None \<and>
          rg_file (ts_dir st') = published marshal now (ts_allow st')) \<or>
     (dynamicInitialized (ts_allow st') \<and> dirty st' \<and> ts_writer st' \<noteq> None \<and> rg_file (ts_dir st') = rg_file (ts_dir st))) \<and>
     (io_remove io \<longrightarrow> rg_temps (ts_dir st') = rg_temps (ts_dir st))"
  proof cases
    case refused
    then have "st' = st" by (simp add: st'_def ApplyTrustedRanges_def r)
    then show ?thesis using refused r by (intro conjI disjI1) auto
  next
    case idle
    then have "st' = st" by (simp add: st'_def ApplyTrustedRanges_def r assms(1) update_file_def)
    then show ?thesis using idle assms(1) by (intro conjI disjI1) (auto simp: dirty_def)
  next
    case attempt
    then have st': "st' = st\<lparr>ts_allow := l, ts_writer := Some (w\<lparr>rw_dirty := err \<noteq> None\<rparr>), ts_dir := d\<rparr>"
      by (auto simp: st'_def ApplyTrustedRanges_def r assms(1) update_file_def wr)
    then have "dirty st' \<longleftrightarrow> err \<noteq> None" by (simp add: dirty_def)
    then show ?thesis using res attempt(3) st' by (cases err) simp_all
  qed
  show "(ts_allow st' = ts_allow st \<and> ts_writer st' = ts_writer st \<and> ts_dir st' = ts_dir st \<and>
          (dirty st \<longrightarrow> fst (replaceDynamic (ts_allow st) ranges) \<in> range Inl)) \<or>
     (dynamicInitialized (ts_allow st') \<and> \<not> dirty st' \<and> ts_writer st' \<noteq> None \<and> published marshal now (ts_allow st') \<noteq> None \<and>
          rg_file (ts_dir st') = published marshal now (ts_allow st')) \<or>
     (dynamicInitialized (ts_allow st') \<and> dirty st' \<and> ts_writer st' \<noteq> None \<and> rg_file (ts_dir st') = rg_file (ts_dir st))"
    using both by (rule conjunct1)
  show "io_remove io \<Longrightarrow> rg_temps (ts_dir st') = rg_temps (ts_dir st)" using both by blast
qed

definition fresh_trust :: "ip_allowlist \<Rightarrow> string option \<Rightarrow> trust_state" where
  "fresh_trust l found = \<lparr>ts_allow = l, ts_writer = Some \<lparr>rw_dirty = False\<rparr>, ts_dir = \<lparr>rg_file = found, rg_temps = []\<rparr>\<rparr>"

definition pushed_ranges :: "(time \<times> file_io \<times> string list) list \<Rightarrow> string list list" where
  "pushed_ranges ps = map (snd \<circ> snd) ps"

lemma apply_pushes_snoc:
  "apply_pushes marshal st (ps @ [(now, io, ranges)]) = snd (ApplyTrustedRanges marshal now io ranges (apply_pushes marshal st ps))"
  by (simp add: apply_pushes_def)

lemma after_updates_snoc: "after_updates l (us @ [u]) = snd (replaceDynamic (after_updates l us) u)"
  by (simp add: after_updates_def)

lemma apply_pushes_allow: "ts_allow (apply_pushes marshal st ps) = after_updates (ts_allow st) (pushed_ranges ps)"
proof (induction ps rule: rev_induct)
  case Nil
  then show ?case by (simp add: apply_pushes_def after_updates_def pushed_ranges_def)
next
  case (snoc p ps)
  obtain now io ranges where p: "p = (now, io, ranges)" by (metis prod_cases3)
  have "pushed_ranges (ps @ [p]) = pushed_ranges ps @ [ranges]" by (simp add: pushed_ranges_def p)
  then show ?case using snoc by (simp add: p apply_pushes_snoc push_allow after_updates_snoc)
qed

lemma apply_pushes_file:
  fixes marshal found
  assumes "\<not> dynamicInitialized l"
  defines "st \<equiv> \<lambda>ps. apply_pushes marshal (fresh_trust l found) ps"
  shows "ts_writer (st ps) \<noteq> None \<and>
     (rg_file (ts_dir (st ps)) = found \<or>
        (\<exists>k \<le> length ps. \<exists>t. published marshal t (after_updates l (pushed_ranges (take k ps))) \<noteq> None \<and>
           rg_file (ts_dir (st ps)) = published marshal t (after_updates l (pushed_ranges (take k ps))))) \<and>
     (dynamicInitialized (ts_allow (st ps)) \<and> \<not> dirty (st ps) \<longrightarrow>
        (\<exists>t. published marshal t (ts_allow (st ps)) \<noteq> None \<and> rg_file (ts_dir (st ps)) = published marshal t (ts_allow (st ps)))) \<and>
     ((\<forall>p \<in> set ps. io_remove (fst (snd p))) \<longrightarrow> rg_temps (ts_dir (st ps)) = [])"
proof (induction ps rule: rev_induct)
  case Nil
  then show ?case using assms(1) by (simp add: st_def apply_pushes_def fresh_trust_def)
next
  case (snoc p ps)
  obtain now io ranges where p: "p = (now, io, ranges)" by (metis prod_cases3)
  let ?st' = "snd (ApplyTrustedRanges marshal now io ranges (st ps))"
  have step: "st (ps @ [p]) = ?st'" by (simp add: st_def p apply_pushes_snoc)
  from snoc obtain w where w: "ts_writer (st ps) = Some w" by blast
  note cases = push_cases(1) [OF w, of marshal now io ranges] and temps = push_cases(2) [OF w, of io marshal now ranges]
  have allow: "ts_allow ?st' = after_updates l (pushed_ranges (take (length (ps @ [p])) (ps @ [p])))"
    using apply_pushes_allow [of marshal "fresh_trust l found" "ps @ [p]"] step by (simp add: st_def fresh_trust_def)
  have earlier: "\<exists>k \<le> length (ps @ [p]). \<exists>t. published marshal t (after_updates l (pushed_ranges (take k (ps @ [p])))) \<noteq> None \<and>
      x = published marshal t (after_updates l (pushed_ranges (take k (ps @ [p]))))"
    if "\<exists>k \<le> length ps. \<exists>t. published marshal t (after_updates l (pushed_ranges (take k ps))) \<noteq> None \<and>
      x = published marshal t (after_updates l (pushed_ranges (take k ps)))" for x
  proof -
    from that obtain k t where k: "k \<le> length ps" "published marshal t (after_updates l (pushed_ranges (take k ps))) \<noteq> None"
      "x = published marshal t (after_updates l (pushed_ranges (take k ps)))" by blast
    then have "take k (ps @ [p]) = take k ps" by simp
    then show ?thesis using k by (intro exI [of _ k] conjI exI [of _ t]) simp_all
  qed
  from cases have kept: "ts_writer ?st' \<noteq> None \<and>
     (rg_file (ts_dir ?st') = rg_file (ts_dir (st ps)) \<or>
      (published marshal now (ts_allow ?st') \<noteq> None \<and> rg_file (ts_dir ?st') = published marshal now (ts_allow ?st')))"
    using w by auto
  have hist: "rg_file (ts_dir ?st') = found \<or>
        (\<exists>k \<le> length (ps @ [p]). \<exists>t. published marshal t (after_updates l (pushed_ranges (take k (ps @ [p])))) \<noteq> None \<and>
           rg_file (ts_dir ?st') = published marshal t (after_updates l (pushed_ranges (take k (ps @ [p])))))"
  proof (cases "rg_file (ts_dir ?st') = rg_file (ts_dir (st ps))")
    case True
    then show ?thesis using snoc earlier [of "rg_file (ts_dir (st ps))"] by metis
  next
    case False
    then have "published marshal now (ts_allow ?st') \<noteq> None" "rg_file (ts_dir ?st') = published marshal now (ts_allow ?st')"
      using kept by blast+
    then show ?thesis unfolding allow by (intro disjI2 exI [of _ "length (ps @ [p])"] conjI exI [of _ now]) simp_all
  qed
  have fresh: "dynamicInitialized (ts_allow ?st') \<and> \<not> dirty ?st' \<longrightarrow>
      (\<exists>t. published marshal t (ts_allow ?st') \<noteq> None \<and> rg_file (ts_dir ?st') = published marshal t (ts_allow ?st'))"
    using cases
  proof (elim disjE)
    assume same: "ts_allow ?st' = ts_allow (st ps) \<and> ts_writer ?st' = ts_writer (st ps) \<and> ts_dir ?st' = ts_dir (st ps) \<and>
          (dirty (st ps) \<longrightarrow> fst (replaceDynamic (ts_allow (st ps)) ranges) \<in> range Inl)"
    then have "dirty ?st' = dirty (st ps)" by (simp add: dirty_def)
    then show ?thesis using snoc same by simp
  qed blast+
  have "(\<forall>q \<in> set (ps @ [p]). io_remove (fst (snd q))) \<longrightarrow> rg_temps (ts_dir ?st') = []"
    using snoc temps by (auto simp: p)
  then show ?case unfolding step using kept hist fresh by blast
qed

text \<open>
  C37: the published file follows the allowlist. Start with the allowlist of the configuration and
  any file, and let Gatehub push any lists while any of the system calls fail. The
  allowlist is the one the pushes alone give, so a failing disk never affects forwarding; the
  file is never torn, it is either the one found or exactly one document published for some
  prefix of the pushes; as soon as the writer has no failure to make up for, the file holds the
  current ranges, so a failed write is made up for by the next push; and no temporary file stays behind
  if they can be removed.
\<close>

theorem trusted_ranges_published:
  assumes "newIPAllowlist cidrs = Inr l"
  shows "ts_allow (apply_pushes marshal (fresh_trust l found) ps) = after_updates l (pushed_ranges ps) \<and>
     (rg_file (ts_dir (apply_pushes marshal (fresh_trust l found) ps)) = found \<or>
        (\<exists>k \<le> length ps. \<exists>t. published marshal t (after_updates l (pushed_ranges (take k ps))) \<noteq> None \<and>
           rg_file (ts_dir (apply_pushes marshal (fresh_trust l found) ps)) = published marshal t (after_updates l (pushed_ranges (take k ps))))) \<and>
     (dynamicInitialized (after_updates l (pushed_ranges ps)) \<and> \<not> dirty (apply_pushes marshal (fresh_trust l found) ps) \<longrightarrow>
        (\<exists>t. published marshal t (after_updates l (pushed_ranges ps)) \<noteq> None \<and>
           rg_file (ts_dir (apply_pushes marshal (fresh_trust l found) ps)) = published marshal t (after_updates l (pushed_ranges ps)))) \<and>
     ((\<forall>p \<in> set ps. io_remove (fst (snd p))) \<longrightarrow> rg_temps (ts_dir (apply_pushes marshal (fresh_trust l found) ps)) = [])"
proof -
  have "\<not> dynamicInitialized l" using assms by (auto simp: newIPAllowlist_def split: sum.splits)
  from apply_pushes_file [OF this, of marshal found ps] show ?thesis
    using apply_pushes_allow [of marshal "fresh_trust l found" ps] by (simp add: fresh_trust_def)
qed

text \<open>An example: the first write fails when it is renamed, the next push of the same list publishes.\<close>

definition demo_marshal :: "trusted_document \<Rightarrow> string option" where
  "demo_marshal d = Some (concat (td_Ranges d))"

definition io_fine :: file_io where
  "io_fine = \<lparr>io_create = True, io_written = 1000, io_chmod = True, io_sync = True, io_close = True, io_rename = True, io_remove = True\<rparr>"

lemma trusted_ranges_published_witness:
  "\<exists>l. newIPAllowlist [] = Inr l \<and>
     rg_file (ts_dir (apply_pushes demo_marshal (fresh_trust l None) [(1, io_fine\<lparr>io_rename := False\<rparr>, []), (2, io_fine, [])])) = Some [CHR 0x0A] \<and>
     rg_temps (ts_dir (apply_pushes demo_marshal (fresh_trust l None) [(1, io_fine\<lparr>io_rename := False\<rparr>, []), (2, io_fine, [])])) = []"
proof -
  obtain l where l: "newIPAllowlist [] = Inr l" "dynamicInitialized (snd (replaceDynamic l []))"
    "replaceDynamic l [] = (Inr True, l\<lparr>dynamic_nets := [], dynamicInitialized := True\<rparr>)"
    by (auto simp: newIPAllowlist_def replaceDynamic_def)
  let ?ps = "[(1, io_fine\<lparr>io_rename := False\<rparr>, []), (2, io_fine, [])]"
  have after: "after_updates l (pushed_ranges ?ps) = l\<lparr>dynamic_nets := [], dynamicInitialized := True\<rparr>"
    using l(1) by (auto simp: after_updates_def pushed_ranges_def replaceDynamic_def newIPAllowlist_def)
  have "\<not> dirty (apply_pushes demo_marshal (fresh_trust l None) ?ps)"
    using l(1) by (auto simp: apply_pushes_def ApplyTrustedRanges_def replaceDynamic_def newIPAllowlist_def fresh_trust_def
        update_file_def writeTrustedRangesFile_def demo_marshal_def io_fine_def dynamicRanges_def dirty_def discard_temp_def)
  moreover have "\<forall>p \<in> set ?ps. io_remove (fst (snd p))" by (simp add: io_fine_def)
  moreover have "published demo_marshal t (l\<lparr>dynamic_nets := [], dynamicInitialized := True\<rparr>) = Some [CHR 0x0A]" for t
    by (simp add: published_def demo_marshal_def dynamicRanges_def)
  ultimately show ?thesis
    using trusted_ranges_published [OF l(1), of demo_marshal None ?ps] l(1) unfolding after by (intro exI [of _ l]) simp
qed

end
