(* ===== verification/Serving.thy ===== *)
theory Serving
  imports Gate Serve Trusted_Ranges Metrics Smtp_Session
begin

text \<open>
  The running process, composed of its parts as \<open>cmdServe\<close> of \<open>proxy.go\<close> composes them: accepted
  connections pass the guard of their route and go to the handler of its protocol with the shared
  limiter, the shared store, the allowlist that Gatehub's pushes change, and the counters of
  the listener. Connections stay in service until they finish, in any order; the control
  plane and the pruning may replace the store in between. A handler's dealings with the shared
  state are one step here; what the steps of a guard may do in between is in \<open>Metrics\<close>. The
  theorems: a process started from a configuration fails closed on every strict route
  whatever happened before, and the counters and limits of every route are those of its history.
\<close>

section \<open>The state\<close>

record ('st, 'l, 'sc) gateway =
  gw_Observe :: "'st \<Rightarrow> observation \<Rightarrow> bool \<Rightarrow> (string + 'sc entry) \<times> 'st"
  gw_Allows :: "'sc \<Rightarrow> addr option \<Rightarrow> bool"
  gw_limit :: "'l \<Rightarrow> string \<Rightarrow> bool \<times> 'l"
  gw_marshal :: "trusted_document \<Rightarrow> string option"
  gw_port :: "route_config \<Rightarrow> int"

text \<open>
  The guards hold pointers to the counters in the registry, so \<open>guard_metric\<close> of the guards in
  the list is not used; the counters of a guard are found under the name of its listener.
  \<open>sg_open\<close> is how many connections of a route are in service.
\<close>

record ('st, 'l) serving =
  sg_store :: 'st
  sg_limiter :: 'l
  sg_trust :: trust_state
  sg_metrics :: traffic_metrics
  sg_guards :: "route_guard list"
  sg_open :: "nat list"
  sg_log :: "gate_event list"

definition listener_port :: "string \<Rightarrow> string" where
  "listener_port name = (case SplitHostPort name of None \<Rightarrow> [] | Some (_, port) \<Rightarrow> port)"

text \<open>One guard for each route, in the order of the loop.\<close>

fun guards_for :: "traffic_metrics \<Rightarrow> served_route list \<Rightarrow> route_guard list \<times> traffic_metrics" where
  "guards_for m [] = ([], m)"
| "guards_for m (sr # srs) =
     (case newRouteGuard listener_port m (Listen (sr_route sr)) (rc_maxConcurrent (sr_route sr)) of
        (g, m) \<Rightarrow> (case guards_for m srs of (gs, m) \<Rightarrow> (g # gs, m)))"

definition serving_init :: "'l \<Rightarrow> string \<Rightarrow> ranges_dir \<Rightarrow> 'st started \<Rightarrow> ('st, 'l) serving" where
  "serving_init l trusted_path dir d =
     (case guards_for Map.empty (sd_routes d) of
        (gs, m) \<Rightarrow>
          \<lparr>sg_store = sd_store d, sg_limiter = l,
           sg_trust = \<lparr>ts_allow = sd_allow d, ts_writer = newTrustedRangesWriter trusted_path, ts_dir = dir\<rparr>,
           sg_metrics = m, sg_guards = gs, sg_open = replicate (length (sd_routes d)) 0, sg_log = []\<rparr>)"

section \<open>One connection\<close>

definition guard_at :: "nat \<Rightarrow> string \<Rightarrow> ('st, 'l) serving \<Rightarrow> route_guard" where
  "guard_at k name s = (sg_guards s ! k)\<lparr>guard_metric := the (sg_metrics s name)\<rparr>"

definition put_guard :: "nat \<Rightarrow> string \<Rightarrow> route_guard \<Rightarrow> ('st, 'l) serving \<Rightarrow> ('st, 'l) serving" where
  "put_guard k name g s = s\<lparr>sg_guards := (sg_guards s)[k := g], sg_metrics := (sg_metrics s)(name \<mapsto> guard_metric g)\<rparr>"

text \<open>What the handlers are called with; the limiter is the route's \<open>observedLimiter\<close>.\<close>

definition route_env :: "('st, 'l, 'sc) gateway \<Rightarrow> ('st, 'l \<times> route_metrics, 'sc) gate_env" where
  "route_env gw =
     \<lparr>Observe = gw_Observe gw, scope_Allows = gw_Allows gw, limiter_Allow = Some (observed_Allow (gw_limit gw)), limiter_observes = True\<rparr>"

definition route_gate ::
  "('st, 'l, 'sc) gateway \<Rightarrow> fingerprint_method \<Rightarrow> bool \<Rightarrow> ip_allowlist \<Rightarrow> served_route \<Rightarrow> gate_config" where
  "route_gate gw how shadow allow sr =
     \<lparr>cfg_port = gw_port gw (sr_route sr), cfg_blockUnknown = sr_blockUnknown sr, cfg_method = how, cfg_allow = allow,
      cfg_sendProxyV2 = sr_sendProxyV2 sr, cfg_scopeShadow = shadow\<rparr>"

text \<open>The failures of the backend that the handler reports, counted.\<close>

definition count_failures :: "gate_event list \<Rightarrow> 'l \<times> route_metrics \<Rightarrow> 'l \<times> route_metrics" where
  "count_failures es lm = fold (\<lambda>e lm. if e = BackendFailure then observed_BackendFailure lm else lm) es lm"

text \<open>An accepted connection, as either handler meets it.\<close>

record served_client =
  cl_tls :: gate_conn
  cl_smtp :: smtp_inputs

datatype served = Refused | TlsDone outcome | SmtpDone smtp_outcome

text \<open>
  The two handlers with what they share with the process: the store and the log, and the
  limiter with the counters of the listener.
\<close>

definition tls_handler ::
  "('st, 'l, 'sc) gateway \<Rightarrow> fingerprint_method \<Rightarrow> bool \<Rightarrow> ip_allowlist \<Rightarrow> served_route \<Rightarrow> served_client \<Rightarrow>
     'st \<times> gate_event list \<Rightarrow> 'l \<times> route_metrics \<Rightarrow> served \<times> ('st \<times> gate_event list) \<times> ('l \<times> route_metrics)" where
  "tls_handler gw how shadow allow sr c sl lm =
     (case handleConnWithScope (route_env gw) (route_gate gw how shadow allow sr) (cl_tls c)
         \<lparr>gate_store = fst sl, gate_limiter = lm, gate_events = []\<rparr> of
        (out, g) \<Rightarrow> (TlsDone out, (gate_store g, snd sl @ gate_events g), count_failures (gate_events g) (gate_limiter g)))"

definition smtp_handler ::
  "('st, 'l, 'sc) gateway \<Rightarrow> fingerprint_method \<Rightarrow> served_route \<Rightarrow> served_client \<Rightarrow>
     'st \<times> gate_event list \<Rightarrow> 'l \<times> route_metrics \<Rightarrow> served \<times> ('st \<times> gate_event list) \<times> ('l \<times> route_metrics)" where
  "smtp_handler gw how sr c sl lm =
     (case handleSMTPConn (Some (observed_Allow (gw_limit gw))) (Backend (sr_route sr)) how (sr_sendProxyV2 sr) (cl_smtp c) lm of
        (out, lm) \<Rightarrow> (SmtpDone out, sl, if so_backend_failed out then observed_BackendFailure lm else lm))"

definition route_handler ::
  "('st, 'l, 'sc) gateway \<Rightarrow> fingerprint_method \<Rightarrow> bool \<Rightarrow> ip_allowlist \<Rightarrow> served_route \<Rightarrow> served_client \<Rightarrow>
     'st \<times> gate_event list \<Rightarrow> 'l \<times> route_metrics \<Rightarrow> served \<times> ('st \<times> gate_event list) \<times> ('l \<times> route_metrics)" where
  "route_handler gw how shadow allow sr =
     (if sr_protocol sr = ''smtp'' then smtp_handler gw how sr else tls_handler gw how shadow allow sr)"

definition serve_conn ::
  "('st, 'l, 'sc) gateway \<Rightarrow> fingerprint_method \<Rightarrow> bool \<Rightarrow> served_route list \<Rightarrow> nat \<Rightarrow> served_client \<Rightarrow> ('st, 'l) serving \<Rightarrow>
     served \<times> ('st, 'l) serving" where
  "serve_conn gw how shadow rs k c s =
     (let sr = rs ! k; name = Listen (sr_route sr) in
      case acquire (guard_at k name s) of
        (False, g) \<Rightarrow> (Refused, put_guard k name g s)
      | (True, g) \<Rightarrow>
          (case route_handler gw how shadow (ts_allow (sg_trust s)) sr c (sg_store s, sg_log s) (sg_limiter s, guard_metric g) of
             (out, (store, lg), (l, m)) \<Rightarrow>
               (out, put_guard k name (g\<lparr>guard_metric := m\<rparr>)
                 (s\<lparr>sg_open := (sg_open s)[k := sg_open s ! k + 1], sg_store := store, sg_limiter := l, sg_log := lg\<rparr>))))"

text \<open>The deferred release when a connection of the route ends; without one in service nothing happens.\<close>

definition finish_conn :: "served_route list \<Rightarrow> nat \<Rightarrow> ('st, 'l) serving \<Rightarrow> ('st, 'l) serving" where
  "finish_conn rs k s =
     (let name = Listen (sr_route (rs ! k)) in
      if sg_open s ! k = 0 then s
      else (case release (guard_at k name s) of
          None \<Rightarrow> s
        | Some g \<Rightarrow> put_guard k name g (s\<lparr>sg_open := (sg_open s)[k := sg_open s ! k - 1]\<rparr>)))"

section \<open>A history\<close>

text \<open>\<open>Sync\<close>: the control plane, the pruning or another process changed the store.\<close>

datatype 'st process_event =
    Connect nat served_client
  | Finish nat
  | Push time file_io "string list"
  | Sync 'st

text \<open>The step and the outcome of the connection, if it is one; routes that do not exist get nothing.\<close>

fun serve_event ::
  "('st, 'l, 'sc) gateway \<Rightarrow> fingerprint_method \<Rightarrow> bool \<Rightarrow> served_route list \<Rightarrow> 'st process_event \<Rightarrow> ('st, 'l) serving \<Rightarrow>
     (nat \<times> served) list \<times> ('st, 'l) serving" where
  "serve_event gw how shadow rs (Connect k c) s =
     (if k < length rs then (case serve_conn gw how shadow rs k c s of (out, s) \<Rightarrow> ([(k, out)], s)) else ([], s))"
| "serve_event gw how shadow rs (Finish k) s = ([], if k < length rs then finish_conn rs k s else s)"
| "serve_event gw how shadow rs (Push now io ranges) s =
     ([], s\<lparr>sg_trust := snd (ApplyTrustedRanges (gw_marshal gw) now io ranges (sg_trust s))\<rparr>)"
| "serve_event gw how shadow rs (Sync st) s = ([], s\<lparr>sg_store := st\<rparr>)"

fun serve_all ::
  "('st, 'l, 'sc) gateway \<Rightarrow> fingerprint_method \<Rightarrow> bool \<Rightarrow> served_route list \<Rightarrow> ('st, 'l) serving \<Rightarrow> 'st process_event list \<Rightarrow>
     (nat \<times> served) list \<times> ('st, 'l) serving" where
  "serve_all gw how shadow rs s [] = ([], s)"
| "serve_all gw how shadow rs s (e # es) =
     (case serve_event gw how shadow rs e s of
        (out, s) \<Rightarrow> (case serve_all gw how shadow rs s es of (outs, s) \<Rightarrow> (out @ outs, s)))"

section \<open>What a handler reports\<close>

definition failures :: "gate_event list \<Rightarrow> gate_event list" where
  "failures es = filter (\<lambda>e. e = BackendFailure) es"

lemma gate_hello_kept:
  assumes "gate_hello env cfg ip w b buf st = (v, st')"
  shows "gate_limiter st' = gate_limiter st" and "failures (gate_events st') = failures (gate_events st)"
    and "v \<noteq> Some RateLimited" and "v \<noteq> Some DialFailed"
  using assms
  by (auto simp: gate_hello_def decide_def failures_def split: sum.splits prod.splits status.splits option.splits if_splits)

lemma gate_handshake_kept:
  assumes "gate_handshake env cfg ip w b header c st = (r, st')"
  shows "gate_limiter st' = gate_limiter st" and "failures (gate_events st') = failures (gate_events st)"
    and "r \<noteq> Inl RateLimited" and "r \<noteq> Inl DialFailed"
proof -
  have "gate_limiter st' = gate_limiter st \<and> failures (gate_events st') = failures (gate_events st) \<and>
      r \<noteq> Inl RateLimited \<and> r \<noteq> Inl DialFailed"
    using assms unfolding gate_handshake_def
    by (auto dest: gate_hello_kept split: sum.splits prod.splits option.splits if_splits)
  then show "gate_limiter st' = gate_limiter st" "failures (gate_events st') = failures (gate_events st)"
    "r \<noteq> Inl RateLimited" "r \<noteq> Inl DialFailed" by blast+
qed

lemma gate_forward_kept:
  assumes "gate_forward env cfg gc peeked c st = (out, st')" "limiter_observes env"
  shows "gate_limiter st' = gate_limiter st \<and> out \<noteq> Dropped RateLimited \<and>
    failures (gate_events st') = failures (gate_events st) @ (if out = Dropped DialFailed then [BackendFailure] else [])"
  using assms by (auto simp: gate_forward_def failures_def split: if_splits sum.splits)

text \<open>The limiter is asked once; one failure is reported exactly when the backend was not reached.\<close>

lemma handler_accounts:
  assumes "handleConnWithScope env cfg gc st = (out, st')" "limiter_observes env"
    and "limiter_check env (client_ip gc) st = (ok, st1)"
  shows "gate_limiter st' = gate_limiter st1 \<and> (out = Dropped RateLimited \<longleftrightarrow> \<not> ok) \<and>
    failures (gate_events st') = failures (gate_events st) @ (if out = Dropped DialFailed then [BackendFailure] else [])"
proof -
  have same: "gate_events st1 = gate_events st" using limiter_check_store [OF assms(3)] by simp
  show ?thesis
  proof (cases "ok \<and> set_deadline_ok gc \<and> fst (read_full 5 (arriving gc)) \<noteq> None")
    case False
    then show ?thesis using assms(1,3) same
      by (auto simp: handleConnWithScope_def Let_def split: if_splits option.splits prod.splits)
  next
    case True
    then obtain header c where h: "read_full 5 (arriving gc) = (Some header, c)" by (cases "read_full 5 (arriving gc)") auto
    obtain r st2 where r: "gate_handshake env cfg (client_ip gc) (allow_contains (cfg_allow cfg) (client_ip gc))
        (cfg_blockUnknown cfg \<and> \<not> allow_contains (cfg_allow cfg) (client_ip gc)) header c st1 = (r, st2)" by fastforce
    note kept = gate_handshake_kept [OF r]
    show ?thesis
    proof (cases r)
      case (Inl reason)
      then have "out = Dropped reason" "st' = st2"
        using assms(1,3) h r True by (auto simp: handleConnWithScope_def Let_def)
      then show ?thesis using kept same True Inl by auto
    next
      case (Inr x)
      obtain peeked c' where x: "x = (peeked, c')" by (cases x) blast
      then have "gate_forward env cfg gc peeked c' st2 = (out, st')"
        using assms(1,3) h r True Inr by (auto simp: handleConnWithScope_def Let_def)
      then show ?thesis using gate_forward_kept [OF _ assms(2)] kept same True by auto
    qed
  qed
qed

lemma count_failures_eq:
  "count_failures es lm = (fst lm, (snd lm)\<lparr>m_backendFailures := m_backendFailures (snd lm) + of_nat (length (failures es))\<rparr>)"
proof (induction es arbitrary: lm)
  case Nil
  then show ?case by (simp add: count_failures_def failures_def)
next
  case (Cons e es)
  have "count_failures (e # es) lm = count_failures es (if e = BackendFailure then observed_BackendFailure lm else lm)"
    by (simp add: count_failures_def)
  then show ?case using Cons by (cases lm) (simp add: failures_def observed_BackendFailure_def)
qed

lemma smtp_accounts:
  assumes "handleSMTPConn (Some f) backend how v2 i l = (out, l')" "f l (smtp_client_ip i) = (ok, l1)"
  shows "l' = l1 \<and> (so_end out = SmtpRateLimited \<longleftrightarrow> \<not> ok) \<and> (so_backend_failed out \<longleftrightarrow> so_end out = SmtpDialFailed)"
  using assms by (auto simp: handleSMTPConn_def Let_def split: if_splits sum.splits)

section \<open>What a connection does to the counters\<close>

fun was_limited :: "served \<Rightarrow> bool" where
  "was_limited Refused = False"
| "was_limited (TlsDone out) = (out = Dropped RateLimited)"
| "was_limited (SmtpDone out) = (so_end out = SmtpRateLimited)"

fun dial_failed :: "served \<Rightarrow> bool" where
  "dial_failed Refused = False"
| "dial_failed (TlsDone out) = (out = Dropped DialFailed)"
| "dial_failed (SmtpDone out) = (so_end out = SmtpDialFailed)"

definition bump :: "served \<Rightarrow> route_metrics \<Rightarrow> route_metrics" where
  "bump out m =
     m\<lparr>m_total := m_total m + of_bool (out \<noteq> Refused), m_active := m_active m + of_bool (out \<noteq> Refused),
       m_overloaded := m_overloaded m + of_bool (out = Refused), m_rateLimited := m_rateLimited m + of_bool (was_limited out),
       m_backendFailures := m_backendFailures m + of_bool (dial_failed out)\<rparr>"

definition full :: "route_guard \<Rightarrow> bool" where
  "full g \<longleftrightarrow> (\<exists>cap. sem_cap g = Some cap \<and> cap \<le> sem_used g)"

lemma acquire_cases:
  "acquire g = (if full g then (False, g\<lparr>guard_metric := bump Refused (guard_metric g)\<rparr>)
     else (True, g\<lparr>sem_used := sem_used g + (if sem_cap g = None then 0 else 1),
       guard_metric := (guard_metric g)\<lparr>m_total := m_total (guard_metric g) + 1, m_active := m_active (guard_metric g) + 1\<rparr>\<rparr>))"
  by (cases g) (auto simp: acquire_def sem_try_def full_def bump_def split: option.split)

subsection \<open>What the process relies on in a handler\<close>

text \<open>
  A handler asks the limiter once, for the source of the connection, and reports to the
  counters what it returns. The counters of an admitted connection follow.
\<close>

locale counted_handler =
  fixes limit :: "'l \<Rightarrow> string \<Rightarrow> bool \<times> 'l"
    and source :: "served_client \<Rightarrow> string"
    and handler :: "served_client \<Rightarrow> 's \<Rightarrow> 'l \<times> route_metrics \<Rightarrow> served \<times> 's \<times> ('l \<times> route_metrics)"
  assumes asks_once: "handler c s (l, m) = (out, s', (l', m')) \<Longrightarrow>
      l' = snd (limit l (source c)) \<and> (was_limited out \<longleftrightarrow> \<not> fst (limit l (source c)))"
    and reports: "handler c s (l, m) = (out, s', (l', m')) \<Longrightarrow> out \<noteq> Refused \<and>
      m' = m\<lparr>m_rateLimited := m_rateLimited m + of_bool (was_limited out), m_backendFailures := m_backendFailures m + of_bool (dial_failed out)\<rparr>"
begin

lemma admitted:
  "handler c s (l, m\<lparr>m_total := m_total m + 1, m_active := m_active m + 1\<rparr>) = (out, s', (l', m')) \<Longrightarrow>
     out \<noteq> Refused \<and> m' = bump out m"
  by (drule reports) (auto simp: bump_def)

lemma kept_when_served: "handler c s (l, m) = (out, s', (l', m')) \<Longrightarrow> \<not> was_limited out \<Longrightarrow> \<not> dial_failed out \<Longrightarrow> m' = m"
  by (drule reports) simp

end

lemma observed_Allow_effect:
  "observed_Allow f (l, m) ip = (ok, lm) \<Longrightarrow>
     ok = fst (f l ip) \<and> lm = (snd (f l ip), m\<lparr>m_rateLimited := m_rateLimited m + of_bool (\<not> ok)\<rparr>)"
  by (auto simp: observed_Allow_def split: prod.splits if_splits)

lemma tls_handler_effect:
  assumes "tls_handler gw how shadow allow sr c sl (l, m) = (out, sl', (l', m'))"
  shows "l' = snd (gw_limit gw l (client_ip (cl_tls c))) \<and> (was_limited out \<longleftrightarrow> \<not> fst (gw_limit gw l (client_ip (cl_tls c)))) \<and> out \<noteq> Refused \<and>
    m' = m\<lparr>m_rateLimited := m_rateLimited m + of_bool (was_limited out), m_backendFailures := m_backendFailures m + of_bool (dial_failed out)\<rparr>"
proof -
  let ?st = "\<lparr>gate_store = fst sl, gate_limiter = (l, m), gate_events = []\<rparr>"
  obtain o1 g where h: "handleConnWithScope (route_env gw) (route_gate gw how shadow allow sr) (cl_tls c) ?st = (o1, g)" by (rule prod.exhaust)
  obtain ok st1 where f: "limiter_check (route_env gw) (client_ip (cl_tls c)) ?st = (ok, st1)" by (rule prod.exhaust)
  have "limiter_observes (route_env gw)" by (simp add: route_env_def)
  note acc = handler_accounts [OF h this f]
  have lim: "ok = fst (gw_limit gw l (client_ip (cl_tls c))) \<and>
      gate_limiter st1 = (snd (gw_limit gw l (client_ip (cl_tls c))), m\<lparr>m_rateLimited := m_rateLimited m + of_bool (\<not> ok)\<rparr>)"
    using f by (auto simp: limiter_check_def route_env_def split: prod.splits dest!: observed_Allow_effect)
  have fails: "length (failures (gate_events g)) = of_bool (o1 = Dropped DialFailed)"
    using acc by (simp add: failures_def)
  show ?thesis
    using assms h acc lim fails by (auto simp: tls_handler_def count_failures_eq)
qed

lemma smtp_handler_effect:
  assumes "smtp_handler gw how sr c sl (l, m) = (out, sl', (l', m'))"
  shows "l' = snd (gw_limit gw l (smtp_client_ip (cl_smtp c))) \<and> (was_limited out \<longleftrightarrow> \<not> fst (gw_limit gw l (smtp_client_ip (cl_smtp c)))) \<and>
    out \<noteq> Refused \<and>
    m' = m\<lparr>m_rateLimited := m_rateLimited m + of_bool (was_limited out), m_backendFailures := m_backendFailures m + of_bool (dial_failed out)\<rparr>"
    and "sl' = sl"
proof -
  let ?f = "observed_Allow (gw_limit gw)"
  obtain o1 lm where h: "handleSMTPConn (Some ?f) (Backend (sr_route sr)) how (sr_sendProxyV2 sr) (cl_smtp c) (l, m) = (o1, lm)"
    by (rule prod.exhaust)
  obtain ok lm1 where f: "?f (l, m) (smtp_client_ip (cl_smtp c)) = (ok, lm1)" by (rule prod.exhaust)
  note acc = smtp_accounts [OF h f] and lim = observed_Allow_effect [OF f]
  show "l' = snd (gw_limit gw l (smtp_client_ip (cl_smtp c))) \<and> (was_limited out \<longleftrightarrow> \<not> fst (gw_limit gw l (smtp_client_ip (cl_smtp c)))) \<and>
    out \<noteq> Refused \<and>
    m' = m\<lparr>m_rateLimited := m_rateLimited m + of_bool (was_limited out), m_backendFailures := m_backendFailures m + of_bool (dial_failed out)\<rparr>"
    "sl' = sl"
    using assms h acc lim by (auto simp: smtp_handler_def observed_BackendFailure_def split: if_splits)
qed

interpretation tls: counted_handler "gw_limit gw" "\<lambda>c. client_ip (cl_tls c)" "tls_handler gw how shadow allow sr"
  for gw how shadow allow sr
  by unfold_locales (blast dest: tls_handler_effect)+

interpretation smtp: counted_handler "gw_limit gw" "\<lambda>c. smtp_client_ip (cl_smtp c)" "smtp_handler gw how sr"
  for gw how sr
  by unfold_locales (blast dest: smtp_handler_effect(1))+

interpretation route: counted_handler "gw_limit gw"
  "\<lambda>c. if sr_protocol sr = ''smtp'' then smtp_client_ip (cl_smtp c) else client_ip (cl_tls c)" "route_handler gw how shadow allow sr"
  for gw how shadow allow sr
  by unfold_locales (auto simp: route_handler_def dest: tls.asks_once tls.reports smtp.asks_once smtp.reports split: if_splits)

text \<open>An accepted connection: refused by a full guard without a trace but in the counter, or handled and counted.\<close>

lemma serve_conn_effect:
  assumes "serve_conn gw how shadow rs k c s = (out, s')"
  defines "name \<equiv> Listen (sr_route (rs ! k))" and "g \<equiv> sg_guards s ! k"
  shows "(out = Refused \<longleftrightarrow> full g) \<and> sg_trust s' = sg_trust s \<and>
    sg_metrics s' = (sg_metrics s)(name \<mapsto> bump out (the (sg_metrics s name))) \<and>
    sg_open s' = (if out = Refused then sg_open s else (sg_open s)[k := sg_open s ! k + 1]) \<and>
    (\<exists>m. sg_guards s' = (sg_guards s)[k := g\<lparr>sem_used := sem_used g + (if out = Refused \<or> sem_cap g = None then 0 else 1), guard_metric := m\<rparr>]) \<and>
    (sr_protocol (rs ! k) = ''smtp'' \<or> out = Refused \<longrightarrow> sg_store s' = sg_store s \<and> sg_log s' = sg_log s)"
proof (cases "full g")
  case True
  then have "acquire (guard_at k name s) = (False, (guard_at k name s)\<lparr>guard_metric := bump Refused (the (sg_metrics s name))\<rparr>)"
    by (simp add: acquire_cases guard_at_def full_def g_def)
  then show ?thesis using assms(1) True by (auto simp: serve_conn_def Let_def name_def put_guard_def guard_at_def g_def)
next
  case False
  let ?m = "the (sg_metrics s name)"
  let ?m1 = "?m\<lparr>m_total := m_total ?m + 1, m_active := m_active ?m + 1\<rparr>"
  let ?g = "g\<lparr>sem_used := sem_used g + (if sem_cap g = None then 0 else 1), guard_metric := ?m1\<rparr>"
  have acq: "acquire (guard_at k name s) = (True, ?g)"
    using False by (simp add: acquire_cases guard_at_def full_def g_def)
  obtain o1 store lg l m where h: "route_handler gw how shadow (ts_allow (sg_trust s)) (rs ! k) c (sg_store s, sg_log s)
      (sg_limiter s, ?m1) = (o1, (store, lg), (l, m))" by (metis prod.collapse)
  have "sr_protocol (rs ! k) = ''smtp'' \<Longrightarrow> (store, lg) = (sg_store s, sg_log s)"
    using h by (simp add: route_handler_def) (drule smtp_handler_effect(2), simp)
  then show ?thesis
    using assms(1) acq h route.admitted [OF h] by (auto simp: serve_conn_def Let_def name_def put_guard_def g_def False [unfolded g_def])
qed

section \<open>The counters of a history\<close>

text \<open>How many connections of a listener had such an outcome; the connections of a listener in service.\<close>

definition tallied :: "served_route list \<Rightarrow> string \<Rightarrow> (served \<Rightarrow> bool) \<Rightarrow> (nat \<times> served) list \<Rightarrow> nat" where
  "tallied rs name P outs = length (filter (\<lambda>(k, out). Listen (sr_route (rs ! k)) = name \<and> P out) outs)"

definition in_service :: "served_route list \<Rightarrow> string \<Rightarrow> nat list \<Rightarrow> int" where
  "in_service rs name opens = (\<Sum>j | j < length rs \<and> Listen (sr_route (rs ! j)) = name. int (opens ! j))"

lemma tallied_Nil [simp]: "tallied rs name P [] = 0"
  by (simp add: tallied_def)

lemma tallied_append [simp]: "tallied rs name P (outs @ outs') = tallied rs name P outs + tallied rs name P outs'"
  by (simp add: tallied_def)

lemma tallied_single [simp]: "tallied rs name P [(k, out)] = of_bool (Listen (sr_route (rs ! k)) = name \<and> P out)"
  by (simp add: tallied_def)

lemma in_service_update:
  assumes "k < length rs" "length opens = length rs"
  shows "in_service rs name (opens[k := v]) =
    in_service rs name opens + (if Listen (sr_route (rs ! k)) = name then int v - int (opens ! k) else 0)"
proof -
  let ?J = "{j. j < length rs \<and> Listen (sr_route (rs ! j)) = name}"
  have other: "(\<Sum>j \<in> ?J - {k}. int (opens[k := v] ! j)) = (\<Sum>j \<in> ?J - {k}. int (opens ! j))"
    by (rule sum.cong) auto
  show ?thesis
  proof (cases "k \<in> ?J")
    case True
    then have "in_service rs name (opens[k := v]) = int v + (\<Sum>j \<in> ?J - {k}. int (opens ! j))"
      "in_service rs name opens = int (opens ! k) + (\<Sum>j \<in> ?J - {k}. int (opens ! j))"
      using sum.remove [of ?J k "\<lambda>j. int (opens[k := v] ! j)"] sum.remove [of ?J k "\<lambda>j. int (opens ! j)"] assms other
      by (simp_all add: in_service_def)
    then show ?thesis using True by simp
  next
    case False
    then have "?J - {k} = ?J" by blast
    then show ?thesis using other False assms(1) by (simp add: in_service_def)
  qed
qed

text \<open>The counters of a listener after connections with these outcomes.\<close>

definition counters_hold :: "served_route list \<Rightarrow> string \<Rightarrow> (nat \<times> served) list \<Rightarrow> nat list \<Rightarrow> route_metrics \<Rightarrow> bool" where
  "counters_hold rs name outs opens m \<longleftrightarrow>
     m_total m = of_nat (tallied rs name (\<lambda>out. out \<noteq> Refused) outs) \<and>
     m_overloaded m = of_nat (tallied rs name (\<lambda>out. out = Refused) outs) \<and>
     m_rateLimited m = of_nat (tallied rs name was_limited outs) \<and>
     m_backendFailures m = of_nat (tallied rs name dial_failed outs) \<and>
     m_active m = in_service rs name opens"

definition capacity :: "served_route \<Rightarrow> nat option" where
  "capacity sr = (if rc_maxConcurrent (sr_route sr) > 0 then Some (nat (rc_maxConcurrent (sr_route sr))) else None)"

definition guarding :: "served_route \<Rightarrow> route_guard \<Rightarrow> nat \<Rightarrow> bool" where
  "guarding sr g n \<longleftrightarrow> sem_cap g = capacity sr \<and> (\<forall>cap. capacity sr = Some cap \<longrightarrow> sem_used g = n \<and> n \<le> cap)"

definition accounts :: "served_route list \<Rightarrow> (nat \<times> served) list \<Rightarrow> ('st, 'l) serving \<Rightarrow> bool" where
  "accounts rs outs s \<longleftrightarrow> length (sg_guards s) = length rs \<and> length (sg_open s) = length rs \<and>
     (\<forall>k < length rs. guarding (rs ! k) (sg_guards s ! k) (sg_open s ! k)) \<and>
     (\<forall>k < length rs. sg_metrics s (Listen (sr_route (rs ! k))) \<noteq> None) \<and>
     (\<forall>name m. sg_metrics s name = Some m \<longrightarrow> counters_hold rs name outs (sg_open s) m)"

lemma counters_bump:
  assumes "counters_hold rs name outs opens m" "k < length rs" "length opens = length rs"
    and "Listen (sr_route (rs ! k)) = name"
  shows "counters_hold rs name (outs @ [(k, out)]) (if out = Refused then opens else opens[k := opens ! k + 1]) (bump out m)"
  using assms by (simp add: counters_hold_def bump_def in_service_update)

lemma counters_other:
  assumes "counters_hold rs name outs opens m" "k < length rs" "length opens = length rs"
    and "Listen (sr_route (rs ! k)) \<noteq> name"
  shows "counters_hold rs name (outs @ [(k, out)]) (if out = Refused then opens else opens[k := v]) m"
  using assms by (simp add: counters_hold_def in_service_update)

lemma accounts_conn:
  assumes "accounts rs outs s" "k < length rs" "serve_conn gw how shadow rs k c s = (out, s')"
  shows "accounts rs (outs @ [(k, out)]) s'"
proof -
  let ?name = "Listen (sr_route (rs ! k))"
  note eff = serve_conn_effect [OF assms(3)]
  have len: "length (sg_guards s) = length rs" "length (sg_open s) = length rs" using assms(1) by (simp_all add: accounts_def)
  have guards: "guarding (rs ! j) (sg_guards s' ! j) (sg_open s' ! j)" if "j < length rs" for j
  proof (cases "j = k")
    case True
    have "guarding (rs ! k) (sg_guards s ! k) (sg_open s ! k)" using assms(1,2) by (simp add: accounts_def)
    then show ?thesis using eff len that True by (auto simp: guarding_def full_def)
  next
    case False
    then show ?thesis using eff len that assms(1) by (auto simp: accounts_def)
  qed
  have named: "sg_metrics s' (Listen (sr_route (rs ! j))) \<noteq> None" if "j < length rs" for j
    using eff that assms(1) by (simp add: accounts_def)
  have "counters_hold rs name (outs @ [(k, out)]) (sg_open s') m" if m: "sg_metrics s' name = Some m" for name m
  proof (cases "name = ?name")
    case True
    obtain m0 where m0: "sg_metrics s ?name = Some m0" using assms(1,2) by (auto simp: accounts_def)
    then have "counters_hold rs ?name outs (sg_open s) m0" using assms(1) by (simp add: accounts_def)
    then show ?thesis using counters_bump [OF _ assms(2) len(2), of ?name outs m0 out] eff m m0 True by simp
  next
    case False
    then have "sg_metrics s name = Some m" using eff m by simp
    then have "counters_hold rs name outs (sg_open s) m" using assms(1) by (simp add: accounts_def)
    then show ?thesis using counters_other [OF _ assms(2) len(2), of name outs m out "sg_open s ! k + 1"] eff False by simp
  qed
  moreover have "length (sg_guards s') = length rs" "length (sg_open s') = length rs" using eff len by auto
  ultimately show ?thesis using guards named by (simp add: accounts_def)
qed

lemma release_cases:
  assumes "sem_cap g = None \<or> 0 < sem_used g"
  shows "release g = Some (g\<lparr>sem_used := sem_used g - (if sem_cap g = None then 0 else 1),
    guard_metric := (guard_metric g)\<lparr>m_active := m_active (guard_metric g) - 1\<rparr>\<rparr>)"
  using assms by (cases g) (auto simp: release_def Let_def split: option.split)

lemma counters_finish:
  assumes "counters_hold rs name outs opens m" "k < length rs" "length opens = length rs" "0 < opens ! k"
  shows "counters_hold rs name outs (opens[k := opens ! k - 1])
    (if Listen (sr_route (rs ! k)) = name then m\<lparr>m_active := m_active m - 1\<rparr> else m)"
  using assms by (simp add: counters_hold_def in_service_update)

lemma accounts_finish:
  assumes "accounts rs outs s" "k < length rs"
  shows "accounts rs outs (finish_conn rs k s)"
proof (cases "sg_open s ! k = 0")
  case True
  then show ?thesis using assms by (simp add: finish_conn_def)
next
  case False
  let ?name = "Listen (sr_route (rs ! k))" and ?g = "sg_guards s ! k"
  have g: "guarding (rs ! k) ?g (sg_open s ! k)" using assms by (simp add: accounts_def)
  have len: "length (sg_guards s) = length rs" "length (sg_open s) = length rs" using assms(1) by (simp_all add: accounts_def)
  obtain m0 where m0: "sg_metrics s ?name = Some m0" using assms by (auto simp: accounts_def)
  let ?g' = "?g\<lparr>sem_used := sem_used ?g - (if sem_cap ?g = None then 0 else 1), guard_metric := m0\<lparr>m_active := m_active m0 - 1\<rparr>\<rparr>"
  have "sem_cap ?g = None \<or> 0 < sem_used ?g" using g False by (auto simp: guarding_def)
  then have "release (guard_at k ?name s) = Some ?g'"
    using release_cases [of "guard_at k ?name s"] m0 by (simp add: guard_at_def)
  then have s': "finish_conn rs k s = s\<lparr>sg_open := (sg_open s)[k := sg_open s ! k - 1], sg_guards := (sg_guards s)[k := ?g'],
      sg_metrics := (sg_metrics s)(?name \<mapsto> m0\<lparr>m_active := m_active m0 - 1\<rparr>)\<rparr>"
    using False by (simp add: finish_conn_def put_guard_def Let_def)
  have g': "guarding (rs ! k) ?g' (sg_open s ! k - 1)" using g by (auto simp: guarding_def diff_le_mono intro: le_trans [OF diff_le_self])
  have "guarding (rs ! j) ((sg_guards s)[k := ?g'] ! j) ((sg_open s)[k := sg_open s ! k - 1] ! j)" if "j < length rs" for j
  proof (cases "j = k")
    case True
    then show ?thesis using g' len that by simp
  next
    case other: False
    then show ?thesis using that assms(1) by (simp add: accounts_def)
  qed
  moreover have "counters_hold rs name outs ((sg_open s)[k := sg_open s ! k - 1]) m"
    if "((sg_metrics s)(?name \<mapsto> m0\<lparr>m_active := m_active m0 - 1\<rparr>)) name = Some m" for name m
  proof (cases "name = ?name")
    case True
    then show ?thesis
      using that m0 assms counters_finish [of rs ?name outs "sg_open s" m0 k] False len by (simp add: accounts_def)
  next
    case other: False
    then show ?thesis
      using that assms counters_finish [of rs name outs "sg_open s" m k] False len by (simp add: accounts_def)
  qed
  ultimately show ?thesis using assms(1) len unfolding s' by (simp add: accounts_def)
qed

lemma accounts_event:
  assumes "accounts rs outs s" "serve_event gw how shadow rs e s = (out, s')"
  shows "accounts rs (outs @ out) s'"
proof (cases e)
  case (Connect k c)
  then show ?thesis using assms accounts_conn [OF assms(1), of k gw how shadow c] by (auto split: if_splits prod.splits)
next
  case (Finish k)
  then show ?thesis using assms accounts_finish [OF assms(1), of k] by (auto split: if_splits)
next
  case (Push now io ranges)
  then show ?thesis using assms by (auto simp: accounts_def)
next
  case (Sync st)
  then show ?thesis using assms by (auto simp: accounts_def)
qed

lemma accounts_all:
  "accounts rs outs s \<Longrightarrow> serve_all gw how shadow rs s es = (outs', s') \<Longrightarrow> accounts rs (outs @ outs') s'"
proof (induction es arbitrary: outs s outs' s')
  case (Cons e es)
  obtain out s1 where e: "serve_event gw how shadow rs e s = (out, s1)" by (rule prod.exhaust)
  obtain outs1 s2 where es: "serve_all gw how shadow rs s1 es = (outs1, s2)" by (rule prod.exhaust)
  have "outs' = out @ outs1" "s' = s2" using Cons.prems(2) e es by simp_all
  then show ?case using Cons.IH [OF accounts_event [OF Cons.prems(1) e], of outs1] es by simp
qed simp

text \<open>At the start nothing was counted.\<close>

definition unused :: "route_metrics \<Rightarrow> bool" where
  "unused m \<longleftrightarrow> m_active m = 0 \<and> m_total m = 0 \<and> m_rateLimited m = 0 \<and> m_overloaded m = 0 \<and> m_backendFailures m = 0"

lemma guards_for_start:
  assumes "guards_for m srs = (gs, m')" "\<And>name mt. m name = Some mt \<Longrightarrow> unused mt"
  shows "length gs = length srs \<and> (\<forall>k < length srs. sem_cap (gs ! k) = capacity (srs ! k) \<and> sem_used (gs ! k) = 0) \<and>
    (\<forall>k < length srs. m' (Listen (sr_route (srs ! k))) \<noteq> None) \<and> (\<forall>name. m name \<noteq> None \<longrightarrow> m' name \<noteq> None) \<and>
    (\<forall>name mt. m' name = Some mt \<longrightarrow> unused mt)"
  using assms
proof (induction srs arbitrary: m gs m')
  case (Cons sr srs)
  obtain g m1 where g: "newRouteGuard listener_port m (Listen (sr_route sr)) (rc_maxConcurrent (sr_route sr)) = (g, m1)"
    by (rule prod.exhaust)
  obtain gs1 m2 where gs: "guards_for m1 srs = (gs1, m2)" by (rule prod.exhaust)
  have out: "gs = g # gs1" "m' = m2" using Cons.prems(1) g gs by simp_all
  have new: "sem_cap g = capacity sr" "sem_used g = 0" "m1 (Listen (sr_route sr)) \<noteq> None" "\<And>name. m name \<noteq> None \<Longrightarrow> m1 name \<noteq> None"
    and clean: "\<And>name mt. m1 name = Some mt \<Longrightarrow> unused mt"
    using g Cons.prems(2)
    by (auto simp: newRouteGuard_def metrics_route_def capacity_def Let_def new_route_metrics_def unused_def
        split: option.splits if_splits)
  from Cons.IH [OF gs clean] show ?case
    using new out by (auto simp: nth_Cons split: nat.split)
qed simp

lemma accounts_init: "accounts (sd_routes d) [] (serving_init l p dir d)"
proof -
  obtain gs m where g: "guards_for Map.empty (sd_routes d) = (gs, m)" by (rule prod.exhaust)
  from guards_for_start [OF g] show ?thesis
    by (auto simp: accounts_def serving_init_def g counters_hold_def unused_def guarding_def in_service_def)
qed

text \<open>A guard refuses exactly when the route is full.\<close>

lemma full_iff:
  "guarding sr g n \<Longrightarrow> full g \<longleftrightarrow> capacity sr = Some n"
  by (auto simp: guarding_def full_def)

text \<open>
  C18: the counters and limits are those of the history. Whatever connections arrive on which
  routes, in whatever order they finish and whatever Gatehub pushes and the control plane
  changes in between: the counters that a scrape finds under a listener are, modulo \<open>2 ^ 64\<close>, the
  numbers of connections that its guards admitted, that they refused, that the limiter
  dropped and whose backend could not be reached, and the gauge is the number of its
  connections in service; that number never exceeds \<open>max-concurrent\<close>, and the next
  connection is refused exactly when it has reached it.
\<close>

theorem serving_accounts:
  assumes "serve_all gw how shadow (sd_routes d) (serving_init l path dir d) es = (outs, s)" and "k < length (sd_routes d)"
  shows "\<exists>m. sg_metrics s (Listen (sr_route (sd_routes d ! k))) = Some m \<and>
     m_total m = of_nat (tallied (sd_routes d) (Listen (sr_route (sd_routes d ! k))) (\<lambda>out. out \<noteq> Refused) outs) \<and>
     m_overloaded m = of_nat (tallied (sd_routes d) (Listen (sr_route (sd_routes d ! k))) (\<lambda>out. out = Refused) outs) \<and>
     m_rateLimited m = of_nat (tallied (sd_routes d) (Listen (sr_route (sd_routes d ! k))) was_limited outs) \<and>
     m_backendFailures m = of_nat (tallied (sd_routes d) (Listen (sr_route (sd_routes d ! k))) dial_failed outs) \<and>
     m_active m = in_service (sd_routes d) (Listen (sr_route (sd_routes d ! k))) (sg_open s) \<and>
     (\<forall>cap. capacity (sd_routes d ! k) = Some cap \<longrightarrow> sg_open s ! k \<le> cap) \<and>
     (\<forall>c. fst (serve_conn gw how shadow (sd_routes d) k c s) = Refused \<longleftrightarrow> capacity (sd_routes d ! k) = Some (sg_open s ! k))"
proof -
  have acc: "accounts (sd_routes d) outs s"
    using accounts_all [OF accounts_init assms(1)] by simp
  then obtain m where m: "sg_metrics s (Listen (sr_route (sd_routes d ! k))) = Some m"
    using assms(2) by (auto simp: accounts_def)
  have guard: "guarding (sd_routes d ! k) (sg_guards s ! k) (sg_open s ! k)" using acc assms(2) by (simp add: accounts_def)
  have refused: "fst (serve_conn gw how shadow (sd_routes d) k c s) = Refused \<longleftrightarrow> capacity (sd_routes d ! k) = Some (sg_open s ! k)" for c
  proof -
    obtain out s' where "serve_conn gw how shadow (sd_routes d) k c s = (out, s')" by (rule prod.exhaust)
    then show ?thesis using serve_conn_effect [of gw how shadow "sd_routes d" k c s out s'] full_iff [OF guard] by simp
  qed
  have "counters_hold (sd_routes d) (Listen (sr_route (sd_routes d ! k))) outs (sg_open s) m" using acc m by (simp add: accounts_def)
  then show ?thesis using m guard refused by (auto simp: counters_hold_def guarding_def)
qed

section \<open>From the configuration to a forwarded connection\<close>

definition pushes :: "'st process_event list \<Rightarrow> string list list" where
  "pushes es = concat (map (\<lambda>e. case e of Push now io ranges \<Rightarrow> [ranges] | _ \<Rightarrow> []) es)"

lemma serve_event_trust:
  assumes "serve_event gw how shadow rs e s = (out, s')"
  shows "ts_allow (sg_trust s') = after_updates (ts_allow (sg_trust s)) (pushes [e])"
proof (cases e)
  case (Connect k c)
  obtain o1 s1 where run: "serve_conn gw how shadow rs k c s = (o1, s1)" by (rule prod.exhaust)
  show ?thesis using assms Connect serve_conn_effect [OF run] by (auto simp: run pushes_def after_updates_def split: if_splits)
next
  case (Finish k)
  then show ?thesis using assms
    by (auto simp: pushes_def after_updates_def finish_conn_def put_guard_def Let_def split: if_splits option.splits)
next
  case (Push now io ranges)
  then show ?thesis using assms by (auto simp: pushes_def after_updates_def push_allow)
next
  case (Sync st)
  then show ?thesis using assms by (auto simp: pushes_def after_updates_def)
qed

lemma serve_all_trust:
  "serve_all gw how shadow rs s es = (outs, s') \<Longrightarrow> ts_allow (sg_trust s') = after_updates (ts_allow (sg_trust s)) (pushes es)"
proof (induction es arbitrary: s outs s')
  case Nil
  then show ?case by (simp add: pushes_def after_updates_def)
next
  case (Cons e es)
  obtain out s1 where e: "serve_event gw how shadow rs e s = (out, s1)" by (rule prod.exhaust)
  obtain outs1 s2 where es: "serve_all gw how shadow rs s1 es = (outs1, s2)" by (rule prod.exhaust)
  have "s' = s2" using Cons.prems e es by simp
  moreover have "pushes (e # es) = pushes [e] @ pushes es" by (simp add: pushes_def)
  ultimately show ?case using Cons.IH [OF es] serve_event_trust [OF e] by (simp add: after_updates_def)
qed

text \<open>What starting takes from the configuration and the flags.\<close>

lemma serve_start_inputs:
  assumes "serve_start env path f explicit flags = Inr d"
  obtains cfg settings where "loadConfig (sn_parse_url env) (sn_decode env) path f = Inr cfg"
    "applyRuntimeConfig (sn_parse_route env) (sn_parse_duration env) explicit (st_runtime cfg) flags = Inr settings"
    "newIPAllowlist (st_ApproveRanges cfg) = Inr (sd_allow d)" "sd_routes d = map (plan_route settings) (sv_routes settings)"
    "sd_shadow d = st_ScopeShadow cfg"
  using assms by (auto simp: serve_start_def serve_open_def res_simps split: option.splits)

text \<open>A route's handler is the gate unless its protocol is SMTP, with the state the process has.\<close>

lemma serve_conn_tls:
  assumes "serve_conn gw how shadow rs k c s = (TlsDone out, s')"
  shows "\<exists>lm st'. handleConnWithScope (route_env gw) (route_gate gw how shadow (ts_allow (sg_trust s)) (rs ! k)) (cl_tls c)
      \<lparr>gate_store = sg_store s, gate_limiter = lm, gate_events = []\<rparr> = (out, st') \<and>
    sg_store s' = gate_store st' \<and> set (gate_events st') \<subseteq> set (sg_log s')"
  using assms
  by (auto simp: serve_conn_def put_guard_def Let_def route_handler_def tls_handler_def smtp_handler_def
      split: prod.splits bool.splits if_splits) blast+

text \<open>
  C2: the process fails closed from its configuration on. Let serving start with any flags and
  configuration, and let anything happen: connections on all routes, pushes from Gatehub,
  changes of the store. Whenever a connection is then forwarded by the gate on a route, the
  route was configured to allow unknown clients, by its own option or, without one, by the
  global setting; or the source lies in the configured approve ranges or the ranges of the
  last accepted push; or the store approved exactly the fingerprint of the ClientHello the
  connection sent, without ranges or with ranges that hold the source, or, out of its ranges, the
  configuration file asks for shadowed scopes and the log says that the connection would have
  been blocked. The one other way is an answer of the store that is none of its three statuses,
  for which the handler has no case.
\<close>

theorem serving_fails_closed:
  assumes "serve_start env path f explicit flags = Inr d"
    and "serve_all gw (sd_method d) (sd_shadow d) (sd_routes d) (serving_init l trusted_path dir d) es = (outs, s)"
    and "k < length (sd_routes d)"
    and "serve_conn gw (sd_method d) (sd_shadow d) (sd_routes d) k c s = (TlsDone (Forwarded bytes rest), s')"
  shows "\<exists>cfg settings allow. loadConfig (sn_parse_url env) (sn_decode env) path f = Inr cfg \<and>
     applyRuntimeConfig (sn_parse_route env) (sn_parse_duration env) explicit (st_runtime cfg) flags = Inr settings \<and>
     newIPAllowlist (st_ApproveRanges cfg) = Inr allow \<and>
     sr_route (sd_routes d ! k) = sv_routes settings ! k \<and>
     (rc_allowUnknown (sv_routes settings ! k) = Some True \<or>
      (rc_allowUnknown (sv_routes settings ! k) = None \<and> sv_allowUnknown settings) \<or>
      allow_contains (after_updates allow (pushes es)) (client_ip (cl_tls c)) \<or>
      (\<exists>header b parseBuf raw fp meta entry.
         read_full 5 (arriving (cl_tls c)) = (Some header, b) \<and> readClientHello b header = (Inr parseBuf, raw, rest) \<and>
         extractTLSMetadata parseBuf (sd_method d) = Inr (fp, meta) \<and>
         gw_Observe gw (sg_store s) \<lparr>obs_fingerprint = fp, obs_ip = client_ip (cl_tls c),
             obs_port = gw_port gw (sv_routes settings ! k), obs_meta = toMeta meta\<rparr> True = (Inr entry, sg_store s') \<and>
         ((\<exists>other. entry_status entry = OtherStatus other) \<or>
          entry_status entry = StatusApproved \<and>
            (case ApprovalRanges entry of None \<Rightarrow> True
             | Some sc \<Rightarrow> gw_Allows gw sc (ParseAddr (client_ip (cl_tls c))) \<or>
                 (st_ScopeShadow cfg \<and> Decided ''APPROVED would_block_out_of_scope shadow=true'' fp False \<in> set (sg_log s'))))))"
proof -
  from assms(1) obtain cfg settings where start: "loadConfig (sn_parse_url env) (sn_decode env) path f = Inr cfg"
    "applyRuntimeConfig (sn_parse_route env) (sn_parse_duration env) explicit (st_runtime cfg) flags = Inr settings"
    "newIPAllowlist (st_ApproveRanges cfg) = Inr (sd_allow d)" "sd_routes d = map (plan_route settings) (sv_routes settings)"
    "sd_shadow d = st_ScopeShadow cfg"
    by (rule serve_start_inputs)
  let ?gate = "route_gate gw (sd_method d) (sd_shadow d) (ts_allow (sg_trust s)) (sd_routes d ! k)"
  from serve_conn_tls [OF assms(4)] obtain lm st' where
    run: "handleConnWithScope (route_env gw) ?gate (cl_tls c) \<lparr>gate_store = sg_store s, gate_limiter = lm, gate_events = []\<rparr> =
      (Forwarded bytes rest, st')" and st': "sg_store s' = gate_store st'" "set (gate_events st') \<subseteq> set (sg_log s')" by blast
  have allow: "ts_allow (sg_trust s) = after_updates (sd_allow d) (pushes es)"
    using serve_all_trust [OF assms(2)] by (simp add: serving_init_def split: prod.splits)
  have k: "k < length (sv_routes settings)" "sd_routes d ! k = plan_route settings (sv_routes settings ! k)"
    using assms(3) start(4) by simp_all
  show ?thesis
  proof (cases "sr_blockUnknown (sd_routes d ! k) \<and> \<not> allow_contains (after_updates (sd_allow d) (pushes es)) (client_ip (cl_tls c))")
    case True
    then have "cfg_blockUnknown ?gate" "\<not> allow_contains (cfg_allow ?gate) (client_ip (cl_tls c))"
      by (simp_all add: route_gate_def allow)
    from strict_forward [OF run this] obtain header b parseBuf raw fp meta entry where
      fwd: "read_full 5 (arriving (cl_tls c)) = (Some header, b)" "readClientHello b header = (Inr parseBuf, raw, rest)"
        "extractTLSMetadata parseBuf (sd_method d) = Inr (fp, meta)"
        "gw_Observe gw (sg_store s) \<lparr>obs_fingerprint = fp, obs_ip = client_ip (cl_tls c),
           obs_port = gw_port gw (sv_routes settings ! k), obs_meta = toMeta meta\<rparr> True = (Inr entry, sg_store s')"
      and pass: "passes_strict (gw_Allows gw) (st_ScopeShadow cfg) (client_ip (cl_tls c)) fp (gate_events st') entry"
      by (auto simp: route_gate_def route_env_def gate_observation_def k(2) plan_route_def st'(1) start(5))
    have "passes_strict (gw_Allows gw) (st_ScopeShadow cfg) (client_ip (cl_tls c)) fp (sg_log s') entry"
      using pass st'(2) unfolding passes_strict_def by (auto split: option.splits)
    with fwd have "\<exists>header b parseBuf raw fp meta entry.
         read_full 5 (arriving (cl_tls c)) = (Some header, b) \<and> readClientHello b header = (Inr parseBuf, raw, rest) \<and>
         extractTLSMetadata parseBuf (sd_method d) = Inr (fp, meta) \<and>
         gw_Observe gw (sg_store s) \<lparr>obs_fingerprint = fp, obs_ip = client_ip (cl_tls c),
             obs_port = gw_port gw (sv_routes settings ! k), obs_meta = toMeta meta\<rparr> True = (Inr entry, sg_store s') \<and>
         passes_strict (gw_Allows gw) (st_ScopeShadow cfg) (client_ip (cl_tls c)) fp (sg_log s') entry" by blast
    moreover have "sr_route (sd_routes d ! k) = sv_routes settings ! k" by (simp add: k(2) plan_route_def)
    ultimately show ?thesis
      using start(1-3) unfolding passes_strict_def by blast
  next
    case False
    moreover have "\<not> sr_blockUnknown (sd_routes d ! k) \<Longrightarrow> rc_allowUnknown (sv_routes settings ! k) = Some True \<or>
        (rc_allowUnknown (sv_routes settings ! k) = None \<and> sv_allowUnknown settings)"
      by (auto simp: k(2) plan_route_def policy_def Let_def split: option.splits)
    moreover have "sr_route (sd_routes d ! k) = sv_routes settings ! k" by (simp add: k(2) plan_route_def)
    ultimately show ?thesis using start(1-3) by blast
  qed
qed

section \<open>An example\<close>

text \<open>A process on the example machine whose store approves everything.\<close>

definition demo_gateway :: "(unit, unit, unit) gateway" where
  "demo_gateway =
     \<lparr>gw_Observe = \<lambda>st obs b. (Inr \<lparr>entry_status = StatusApproved, ApprovalRanges = None\<rparr>, st), gw_Allows = \<lambda>_ _. False,
      gw_limit = \<lambda>l ip. (True, l), gw_marshal = demo_marshal, gw_port = \<lambda>r. 993\<rparr>"

definition demo_client :: served_client where
  "demo_client =
     \<lparr>cl_tls = sample_conn ''192.0.2.1:47'' (small_bytes @ [7]),
      cl_smtp = \<lparr>si_id = [], si_client = [], si_listener = [], si_source = OtherAddr, si_local = OtherAddr, si_started = 0, si_ended = 0,
        si_dial_ok = True, si_header_ok = True, si_reads = []\<rparr>\<rparr>"

definition demo_route :: served_route where
  "demo_route =
     \<lparr>sr_route = \<lparr>Listen = ''l:993'', Backend = ''b:143'', rc_allowUnknown = None, rc_proxyProtocol = [], rc_protocol = [],
        rc_maxConcurrent = 0\<rparr>, sr_blockUnknown = True, sr_sendProxyV2 = False, sr_protocol = ''tls''\<rparr>"

lemma demo_settings:
  assumes "loadConfig (sn_parse_url demo_machine) (sn_decode demo_machine) [] ConfigAbsent = Inr cfg"
    and "applyRuntimeConfig (sn_parse_route demo_machine) (sn_parse_duration demo_machine) [''route''] (st_runtime cfg) demo_flags = Inr settings"
  shows "cfg = default_startup" and "settings = demo_flags"
proof -
  show cfg: "cfg = default_startup" using assms(1) by (simp add: loadConfig_def)
  show "settings = demo_flags"
    using assms(2) unfolding cfg
    by (simp add: applyRuntimeConfig_def default_startup_def demo_flags_def text_from_file_def from_file_def drain_from_file_def)
qed

lemma demo_started:
  assumes "serve_start demo_machine [] ConfigAbsent [''route''] demo_flags = Inr d"
  shows "sd_method d = MethodJA3" and "sd_routes d = [demo_route]" and "newIPAllowlist [] = Inr (sd_allow d)" and "\<not> sd_shadow d"
proof -
  from assms obtain cfg settings where s: "loadConfig (sn_parse_url demo_machine) (sn_decode demo_machine) [] ConfigAbsent = Inr cfg"
    "applyRuntimeConfig (sn_parse_route demo_machine) (sn_parse_duration demo_machine) [''route''] (st_runtime cfg) demo_flags = Inr settings"
    "newIPAllowlist (st_ApproveRanges cfg) = Inr (sd_allow d)" "sd_routes d = map (plan_route settings) (sv_routes settings)"
    "sd_shadow d = st_ScopeShadow cfg"
    by (rule serve_start_inputs)
  note at = demo_settings [OF s(1,2)]
  show "newIPAllowlist [] = Inr (sd_allow d)" using s(3) by (simp add: at default_startup_def)
  show "\<not> sd_shadow d" using s(5) by (simp add: at default_startup_def)
  show "sd_routes d = [demo_route]"
    unfolding s(4) at by (simp add: demo_flags_def plan_route_def policy_def demo_route_def)
  have "ParseFingerprintMethod (sv_fingerprint demo_flags) = Inr MethodJA3"
    by (simp add: ParseFingerprintMethod_def MethodJA3_def demo_flags_def)
  then show "sd_method d = MethodJA3"
    using assms s(1,2) by (auto simp: serve_start_def serve_open_def res_simps at split: option.splits)
qed

lemma demo_untrusted:
  assumes "newIPAllowlist [] = Inr l"
  shows "\<not> allow_contains l ip"
proof -
  have l: "l = \<lparr>static_nets = [], dynamic_nets = [], dynamicInitialized = False\<rparr>" using assms by (simp add: newIPAllowlist_def)
  show ?thesis unfolding l by (simp add: allow_contains_def allow_addr_def any_contains_def split: option.split)
qed

lemma demo_forward:
  assumes "cfg_blockUnknown cfg" "cfg_method cfg = MethodJA3" "\<not> allow_contains (cfg_allow cfg) ''192.0.2.1''" "\<not> cfg_sendProxyV2 cfg"
  shows "\<exists>st'. handleConnWithScope (route_env demo_gateway) cfg (cl_tls demo_client) st =
     (Forwarded small_bytes \<lparr>ready = [7], later = [99]\<rparr>, st')"
proof -
  obtain fp meta where x: "extractTLSMetadata small_bytes MethodJA3 = Inr (fp, meta)"
    by (cases "extractTLSMetadata small_bytes MethodJA3")
      (auto simp: extractTLSMetadata_def small_parse Let_def case_prod_beta split: if_splits)
  obtain st1 where lim: "limiter_check (route_env demo_gateway) ''192.0.2.1'' st = (True, st1)"
    by (cases "gate_limiter st") (simp add: limiter_check_def route_env_def demo_gateway_def observed_Allow_def)
  have "fst (gate_hello (route_env demo_gateway) cfg ''192.0.2.1'' False True small_bytes st1) = None"
    using x assms(2) by (auto simp: gate_hello_def route_env_def demo_gateway_def decide_def split: prod.splits)
  then obtain st' where "gate_hello (route_env demo_gateway) cfg ''192.0.2.1'' False True small_bytes st1 = (None, st')"
    by (metis prod.collapse)
  then show ?thesis
    using assms
    by (simp add: handleConnWithScope_def demo_client_def sample_ips lim gate_handshake_def gate_forward_def sample_read)
qed

lemma demo_accepted:
  assumes "serve_start demo_machine [] ConfigAbsent [''route''] demo_flags = Inr d"
  shows "\<exists>s'. serve_conn demo_gateway (sd_method d) (sd_shadow d) (sd_routes d) 0 demo_client (serving_init () [] dir d) =
     (TlsDone (Forwarded small_bytes \<lparr>ready = [7], later = [99]\<rparr>), s')"
proof -
  note at = demo_started [OF assms]
  let ?s = "serving_init () [] dir d"
  obtain g where acq: "acquire (guard_at 0 ''l:993'' ?s) = (True, g)"
    by (auto simp: serving_init_def at(2) demo_route_def newRouteGuard_def metrics_route_def acquire_cases guard_at_def full_def Let_def)
  let ?cfg = "route_gate demo_gateway MethodJA3 False (sd_allow d) demo_route"
  have "\<not> allow_contains (sd_allow d) ''192.0.2.1''" by (rule demo_untrusted [OF at(3)])
  then have "\<exists>st'. handleConnWithScope (route_env demo_gateway) ?cfg (cl_tls demo_client) st =
      (Forwarded small_bytes \<lparr>ready = [7], later = [99]\<rparr>, st')" for st
    by (intro demo_forward) (simp_all add: route_gate_def demo_route_def)
  then obtain st' where "handleConnWithScope (route_env demo_gateway) ?cfg (cl_tls demo_client)
      \<lparr>gate_store = sg_store ?s, gate_limiter = (sg_limiter ?s, guard_metric g), gate_events = []\<rparr> =
      (Forwarded small_bytes \<lparr>ready = [7], later = [99]\<rparr>, st')" by blast
  moreover have "ts_allow (sg_trust ?s) = sd_allow d" by (simp add: serving_init_def split: prod.splits)
  ultimately show ?thesis
    using acq by (auto simp: serve_conn_def route_handler_def tls_handler_def at(1,2,4) Let_def demo_route_def [THEN arg_cong [where f = "\<lambda>r. Listen (sr_route r)"]]
      demo_route_def [THEN arg_cong [where f = sr_protocol]] split: prod.splits)
qed

definition demo_dir :: ranges_dir where
  "demo_dir = \<lparr>rg_file = None, rg_temps = []\<rparr>"

lemma serving_accounts_witness:
  "\<exists>d outs s m. serve_all demo_gateway MethodJA3 False (sd_routes d) (serving_init () [] demo_dir d) [Connect 0 demo_client] = (outs, s) \<and>
     sg_metrics s ''l:993'' = Some m \<and> m_total m = 1 \<and> m_overloaded m = 0 \<and> m_rateLimited m = 0"
proof -
  obtain d where d: "serve_start demo_machine [] ConfigAbsent [''route''] demo_flags = Inr d" using demo_start by blast
  note at = demo_started [OF d]
  obtain s where "serve_conn demo_gateway MethodJA3 False (sd_routes d) 0 demo_client (serving_init () [] demo_dir d) =
      (TlsDone (Forwarded small_bytes \<lparr>ready = [7], later = [99]\<rparr>), s)"
    using demo_accepted [OF d] at(1,4) by auto
  then have run: "serve_all demo_gateway MethodJA3 False (sd_routes d) (serving_init () [] demo_dir d) [Connect 0 demo_client] =
      ([(0, TlsDone (Forwarded small_bytes \<lparr>ready = [7], later = [99]\<rparr>))], s)"
    by (simp add: at(2))
  have "0 < length (sd_routes d)" "Listen (sr_route (sd_routes d ! 0)) = ''l:993''" by (simp_all add: at(2) demo_route_def)
  with serving_accounts [OF run this(1)] obtain m where "sg_metrics s ''l:993'' = Some m" "m_total m = 1" "m_overloaded m = 0" "m_rateLimited m = 0"
    by auto
  then show ?thesis using run by blast
qed

lemma serving_fails_closed_witness:
  "\<exists>d s'. serve_start demo_machine [] ConfigAbsent [''route''] demo_flags = Inr d \<and>
     serve_conn demo_gateway (sd_method d) (sd_shadow d) (sd_routes d) 0 demo_client (serving_init () [] demo_dir d) =
       (TlsDone (Forwarded small_bytes \<lparr>ready = [7], later = [99]\<rparr>), s') \<and>
     (\<exists>parseBuf fp meta. extractTLSMetadata parseBuf MethodJA3 = Inr (fp, meta))"
proof -
  obtain d where d: "serve_start demo_machine [] ConfigAbsent [''route''] demo_flags = Inr d" using demo_start by blast
  note at = demo_started [OF d]
  obtain s' where conn: "serve_conn demo_gateway (sd_method d) (sd_shadow d) (sd_routes d) 0 demo_client (serving_init () [] demo_dir d) =
      (TlsDone (Forwarded small_bytes \<lparr>ready = [7], later = [99]\<rparr>), s')"
    using demo_accepted [OF d] by blast
  have none: "serve_all demo_gateway (sd_method d) (sd_shadow d) (sd_routes d) (serving_init () [] demo_dir d) [] = ([], serving_init () [] demo_dir d)"
    by simp
  have k: "0 < length (sd_routes d)" by (simp add: at(2))
  have "\<exists>parseBuf fp meta. extractTLSMetadata parseBuf (sd_method d) = Inr (fp, meta)"
    using serving_fails_closed [OF d none k conn]
  proof (elim exE conjE disjE)
    fix cfg settings
    assume a: "loadConfig (sn_parse_url demo_machine) (sn_decode demo_machine) [] ConfigAbsent = Inr cfg"
      "applyRuntimeConfig (sn_parse_route demo_machine) (sn_parse_duration demo_machine) [''route''] (st_runtime cfg) demo_flags = Inr settings"
    show ?thesis if "rc_allowUnknown (sv_routes settings ! 0) = Some True"
      using that demo_settings [OF a] by (simp add: demo_flags_def)
    show ?thesis if "sv_allowUnknown settings"
      using that demo_settings [OF a] by (simp add: demo_flags_def)
    show ?thesis if "newIPAllowlist (st_ApproveRanges cfg) = Inr allow" "allow_contains (after_updates allow (pushes [])) (client_ip (cl_tls demo_client))"
      for allow
      using that demo_settings [OF a] demo_untrusted by (simp add: default_startup_def after_updates_def pushes_def)
  qed blast+
  then show ?thesis using d conn at(1) by auto
qed

end
