(* ===== verification/Spec2Isabelle.thy ===== *)
theory Spec2Isabelle
  imports Relay Metrics_Text Log_Lines Alerts Smtp_Commands Commands Correlate Serving
begin

text \<open>
  Verification development for tlsgate, a TCP proxy that fingerprints TLS clients and lets only
  approved fingerprints through to a mail server, and that observes SMTP sessions.

  The program. \<open>cmdServe\<close> (\<open>src/proxy.go\<close>) reads flags and a configuration file, opens the
  fingerprint store and one listener per route, and gives every accepted connection to the guard
  of its route and then to one of two handlers. On a TLS route \<open>handleConnWithScope\<close> asks the
  rate limiter, reads the ClientHello (\<open>readClientHello\<close>, \<open>parseClientHello\<close>), computes its
  JA3 or JA4 fingerprint, records it in the store, decides by the stored status, the approval
  scope and the allowlist, and forwards the bytes it has read, possibly after a PROXY v2 header,
  before the pumps take over. On an SMTP route \<open>handleSMTPConn\<close> forwards everything and observes
  the session up to the ClientHello after STARTTLS; its events go to a JSONL file. The commands
  \<open>correlate-smtp\<close> and \<open>classify-smtp\<close> join these events with Postfix logs, \<open>report-smtp\<close> uploads
  the result. Gatehub pushes trusted ranges to a running process, which publishes them in a
  file. Blocked connections from configured ranges raise alerts, delivered by four workers. The
  other commands list and change the store, search a log for a fingerprint's addresses, and
  check a configuration (\<open>doctor\<close>).

  Conventions. Go's fixed-width integers are words; \<open>int\<close> values that cannot overflow for the inputs
  they have are integers or naturals; a string is a list of bytes, decoded by \<open>Utf8\<close> where Go
  decodes it. A function that returns an error is a sum with the error on the left; one that
  could index out of range has the panic as a further result (\<open>Gate_Prelude\<close>). State is passed explicitly.
  A definition has the name of the Go function it models, or a lower-case name if it models a
  piece of one (a loop, a guard, a struct).

  Shared vocabulary.
  \<^item> \<open>Gate_Prelude\<close>: machine types, results with errors and panics, checked slices, big-endian
    integers; the collection of rules for binds that the component proofs use.
  \<^item> \<open>Cleanup\<close> (\<open>cleanup.go\<close>): wrapped and joined errors, and the errors of closing.
  \<^item> \<open>Go_Strings\<close>, \<open>Utf8\<close>, \<open>Go_Quote\<close>, \<open>Go_Regexp\<close>, \<open>Digest\<close>, \<open>Net_Addr\<close>, \<open>Net_Text\<close>: what the
    source uses of the standard library, defined and with its round trips: numbers, UTF-8, quoting, regular
    expressions with leftmost-first groups, MD5 and SHA-256, addresses and prefixes and their texts.

  TLS.
  \<^item> \<open>Client_Hello\<close> (\<open>ja3.go\<close>): the parser, panic-free on every input.
  \<^item> \<open>Hello_Encoding\<close>: a typed ClientHello and its encoding, the specification the parser inverts;
    an accepted message is complete and none of its proper prefixes is.
  \<^item> \<open>Fingerprints\<close> (\<open>ja3.go\<close>, \<open>ja4.go\<close>): JA3 and JA4, their shapes, what they depend on and what they
    determine; the locale \<open>fingerprint_format\<close> is what the gate needs of either.
  \<^item> \<open>Record_Reassembly\<close> (\<open>proxy.go\<close>, \<open>clientHelloFromBytes\<close> of \<open>smtp_proxy.go\<close>): a ClientHello in
    several records; both readers agree, nothing is lost but on a short read, the buffer is bounded.
  \<^item> \<open>Gate\<close> (\<open>handleConnWithScope\<close>): the gate fails closed, forwards verbatim, and touches the store
    at most once.
  \<^item> \<open>Proxy_Protocol\<close> (\<open>proxy_protocol.go\<close>): a receiver decodes what the header encodes.
  \<^item> \<open>Relay\<close>: the pumps of both handlers.
  \<^item> \<open>Source_Sets\<close> (\<open>alerts.go\<close>, \<open>smtp_exclude.go\<close>): allowlist, blocked ranges and exclusions as sets of
    networks, one locale \<open>source_set\<close> interpreted for each of the three.
  \<^item> \<open>Store_Meta\<close> (\<open>store.go\<close>): metadata of an entry and the format marker of the database.
  \<^item> \<open>Log_Text\<close>, \<open>Log_Lines\<close>: what of a client's text reaches the log or a message; no control
    character does, C1 included, and fields cannot pass for one another.

  SMTP.
  \<^item> \<open>Smtp_Behavior\<close> (\<open>smtp_behavior.go\<close>), \<open>Smtp_Observer\<close>, \<open>Smtp_Session\<close> (\<open>smtp_proxy.go\<close>): the tracker,
    the observer as a state machine with its invariant, one connection from accept to its end event, and
    the event file, where every event emitted before \<open>Close\<close> is written, in the hands of the writer,
    waiting, or counted as dropped, and what is emitted later changes nothing.
  \<^item> \<open>Smtp_Batch\<close>, \<open>Smtp_Correlation\<close> (\<open>smtp_correlate.go\<close>): the bounded readers and the correlator; what a
    session wrote is read back as one record, and a match stands for the only fitting connection.
  \<^item> \<open>Smtp_Campaign\<close> (\<open>smtp_campaign.go\<close>), \<open>Smtp_Report\<close> (\<open>smtp_report.go\<close>): evidence, attribution,
    report, the three ways in which its own check can refuse it, and its upload.
  \<^item> \<open>Smtp_Commands\<close>: the three commands.

  The process.
  \<^item> \<open>Routes\<close> (\<open>routes.go\<close>, \<open>runtime_config.go\<close>): routes print and parse back; flags win over the file.
  \<^item> \<open>Alerts\<close> (\<open>alerts.go\<close>): exactly which configurations are accepted; the alert queue with its workers and any number of
    connections as one transition system, with its invariant over all interleavings.
  \<^item> \<open>Metrics\<close> (\<open>metrics.go\<close>): guards and counters as functions, and the guard as a transition
    system of its atomic operations, whose counters are those of its history and whose runs the functions
    are; \<open>Metrics_Text\<close>: the scrape.
  \<^item> \<open>Trusted_Ranges\<close> (\<open>trusted_ranges_file.go\<close>): pushes, and a file that follows them whatever fails.
  \<^item> \<open>Serve\<close> (\<open>cmdServe\<close> up to the listeners, \<open>loadConfig\<close>, \<open>doctor.go\<close>): doctor accepts what serve
    starts with, and what doctor accepts fails to start only for a named reason outside the inputs.
  \<^item> \<open>Serving\<close> (\<open>cmdServe\<close> from the listeners on): guard, limiter, handlers, allowlist and counters
    composed, over any history of connections, pushes and changes of the store; the process
    fails closed from its configuration on, and its counters are those of the history; the
    locale \<open>counted_handler\<close> is what it needs of either handler.
  \<^item> \<open>Commands\<close> (\<open>main.go\<close>, \<open>approval_scopes.go\<close>), \<open>Correlate\<close> (\<open>correlate.go\<close>): the commands on the store
    and on a log.

  Arguments of the model. The gatekit library (store, \<open>ParseRoute\<close>, rate limiter, control plane, approval
  scopes, lifecycle) and shoutrrr are functions or values that the definitions take; so are \<open>url.Parse\<close>,
  \<open>time.ParseDuration\<close>, the parsers and printers of times, \<open>encoding/json\<close>, the database,
  the results of system calls, the order in which Go ranges over a map, what \<open>sort.Slice\<close> does with
  equal elements, the case mapping of full Unicode and the table of printable characters. What a theorem needs of them
  is a named hypothesis of it, and its witness instantiates them.

  Bounds and termination. No definition uses fuel. Loops over input recurse on the input; the others carry a measure: the
  bytes left for the record reader (each record adds at least a byte, and at most 64 KiB are taken), the text left for the
  regular expressions and for \<open>strings.Index\<close>, the retry delays left for the upload (four attempts at
  most). Transition systems have no bound on their length.

  Concurrency. Handlers deal with the shared state in one step in \<open>Serving\<close>; the finer interleavings are in
  the transition systems of \<open>Metrics\<close> (the guard's atomic operations) and \<open>Alerts\<close> (check, mark, enqueue,
  deliver, record, clear), which is where the order matters. The read and write sides of a relay are independent.

  Not modelled. The declaration and parsing of command-line flags and the choice of the subcommand; tables and texts printed to a
  terminal; opening the database and the SQL of its retention trigger; the wait for an upgrade, the
  drain at the end, the timer of the pruning and systemd notification, which call gatekit; the TLS client
  configuration of the upload; connection ids, which are random; \<open>ensureDir\<close>, a single system call. The
  gate forwards a fingerprint whose status is none of the store's three, since the handler has no case for it:
  the theorems on failing closed name this exception.
\<close>

end
